(* ===== verification/Prelude.thy ===== *)
theory Prelude
  imports Main "HOL-Library.Word" "HOL-Library.Sublist"
begin

text \<open>
  Shared base of the development: the type of JavaScript strings, the collections of
  facts the component theories extend, and the generic list lemmas they use.

  A JavaScript string is a sequence of 16-bit code units, so it is modelled as a list
  of 16-bit words; a literal of the source is written \<open>js ''...''\<close>.
\<close>

named_theorems js_words \<open>rules that compare string literals without unfolding them\<close>

section \<open>JavaScript strings\<close>

type_synonym jchar = "16 word"
type_synonym jstr = "jchar list"

definition js :: "string \<Rightarrow> jstr" where
  "js s = map of_char s"

lemma js_Nil [simp]: "js [] = []"
  by (simp add: js_def)

lemma js_Cons [simp]: "js (c # s) = of_char c # js s"
  by (simp add: js_def)

lemma of_char_jchar_eq: "(of_char c :: jchar) = of_char d \<longleftrightarrow> c = d"
proof
  assume "(of_char c :: jchar) = of_char d"
  then have "unat (of_char c :: jchar) = unat (of_char d :: jchar)" by simp
  moreover have "unat (of_char x :: jchar) = of_char x" for x :: char
  proof -
    have "(of_char x :: nat) < 256"
      using of_char_mod_256 [of x, where 'a = nat] by (metis mod_less_divisor zero_less_numeral)
    then have "(of_char x :: nat) < 65536" by (rule order.strict_trans2) simp
    then have "(of_char x :: nat) mod 65536 = of_char x" by (rule mod_less)
    then have "unat (of_nat (of_char x) :: jchar) = of_char x"
      by (simp add: unat_of_nat take_bit_eq_mod)
    then show ?thesis by (simp add: of_nat_of_char)
  qed
  ultimately have "(of_char c :: nat) = of_char d" by simp
  then show "c = d" by simp
qed simp

lemma js_inject [js_words]: "js a = js b \<longleftrightarrow> a = b"
  by (auto simp: js_def inj_map_eq_map inj_def of_char_jchar_eq)

lemma js_nonempty [js_words]: "js s \<noteq> [] \<longleftrightarrow> s \<noteq> []"
  by (simp add: js_def)

lemma prefix_js: "prefix (js a) (js b) \<longleftrightarrow> prefix a b"
  by (induction a b rule: list_induct2') (auto simp: of_char_jchar_eq)

text \<open>The code units the source compares with.\<close>

abbreviation tab :: jchar where "tab \<equiv> 9"
abbreviation lf :: jchar where "lf \<equiv> 10"
abbreviation cr :: jchar where "cr \<equiv> 13"
abbreviation dquote :: jchar where "dquote \<equiv> 34"
abbreviation percent :: jchar where "percent \<equiv> 37"
abbreviation comma :: jchar where "comma \<equiv> 44"
abbreviation dot :: jchar where "dot \<equiv> 46"
abbreviation slash :: jchar where "slash \<equiv> 47"
abbreviation colon :: jchar where "colon \<equiv> 58"
abbreviation semicolon :: jchar where "semicolon \<equiv> 59"

text \<open>
  A translation: the text of a key with the values interpolated under their names. Most keys have
  none; \<open>plain\<close> is the translation restricted to them.
\<close>

type_synonym translation = "jstr \<Rightarrow> (jstr \<times> jstr) list \<Rightarrow> jstr"

definition plain :: "translation \<Rightarrow> jstr \<Rightarrow> jstr" where
  "plain t key = t key []"

section \<open>Generic lemmas\<close>

lemma takeWhile_all_id: "\<forall>x\<in>set xs. P x \<Longrightarrow> takeWhile P xs = xs"
  by (simp add: takeWhile_eq_all_conv)

lemma last_append_Cons [simp]: "last (xs @ y # ys) = last (y # ys)"
  by simp

lemma map_of_key_in_set: "map_of ps k = Some v \<Longrightarrow> (k, v) \<in> set ps"
  by (rule map_of_SomeD)

lemma subseq_snoc_mono: "subseq xs ys \<Longrightarrow> subseq (xs @ [z]) (ys @ [z])"
  by (simp add: list_emb_append_mono)

lemma subseq_append_right: "subseq xs ys \<Longrightarrow> subseq xs (ys @ zs)"
  by (metis append_Nil2 list_emb_append_mono list_emb_Nil)

end
