(* ===== verification/Js_String.thy ===== *)
theory Js_String
  imports Prelude
begin

text \<open>
  The operations of the JavaScript standard library on strings that the web client uses,
  and their laws. Each is executable. The one operation that needs a table the repository
  does not hold, the Unicode case mapping behind \<open>toLowerCase\<close>, is a parameter of the
  functions that use it, with the interface \<open>case_mapping\<close>.
\<close>

section \<open>split and join\<close>

text \<open>\<open>s.split(c)\<close> for a separator of one code unit: never empty, \<open>''\<close> gives \<open>['']\<close>.\<close>

fun split_on :: "jchar \<Rightarrow> jstr \<Rightarrow> jstr list" where
  "split_on c [] = [[]]"
| "split_on c (x # xs) =
     (if x = c then [] # split_on c xs
      else (case split_on c xs of [] \<Rightarrow> [[x]] | p # ps \<Rightarrow> (x # p) # ps))"

text \<open>\<open>parts.join(c)\<close>.\<close>

fun join_with :: "jchar \<Rightarrow> jstr list \<Rightarrow> jstr" where
  "join_with c [] = []"
| "join_with c [p] = p"
| "join_with c (p # q # ps) = p @ c # join_with c (q # ps)"

lemma split_on_ne [simp]: "split_on c s \<noteq> []"
  by (induction s) (auto split: list.splits)

lemma join_with_Cons: "ps \<noteq> [] \<Longrightarrow> join_with c (p # ps) = p @ c # join_with c ps"
  by (cases ps) auto

lemma join_with_cons_head: "join_with c ((x # p) # ps) = x # join_with c (p # ps)"
  by (cases ps) auto

lemma join_split [simp]: "join_with c (split_on c s) = s"
proof (induction s)
  case (Cons x xs)
  then show ?case
    by (cases "split_on c xs")
       (auto simp: join_with_Cons join_with_cons_head split: if_splits)
qed simp

lemma split_on_no_sep: "c \<notin> set s \<Longrightarrow> split_on c s = [s]"
  by (induction s) auto

lemma split_on_append_sep:
  "c \<notin> set p \<Longrightarrow> split_on c (p @ c # s) = p # split_on c s"
  by (induction p) auto

lemma split_on_parts: "p \<in> set (split_on c s) \<Longrightarrow> c \<notin> set p"
  by (induction s arbitrary: p) (auto split: if_splits list.splits)

lemma split_join:
  "ps \<noteq> [] \<Longrightarrow> \<forall>p\<in>set ps. c \<notin> set p \<Longrightarrow> split_on c (join_with c ps) = ps"
  by (induction c ps rule: join_with.induct) (auto simp: split_on_no_sep split_on_append_sep)

lemma split_on_append: 
  "split_on c (s @ c # t) = split_on c s @ split_on c t"
  by (induction s) (auto split: list.splits)

lemma split_on_last_no_sep: "c \<notin> set (last (split_on c s))"
  using split_on_parts [of "last (split_on c s)" c s] by (simp add: last_in_set)

lemma last_split_append_no_sep:
  "c \<notin> set t \<Longrightarrow> last (split_on c (s @ c # t)) = t"
  by (simp add: split_on_append split_on_no_sep)

lemma last_split_append_suffix:
  "c \<notin> set t \<Longrightarrow> \<exists>p. last (split_on c (s @ t)) = p @ t"
proof (induction s)
  case Nil
  then show ?case by (simp add: split_on_no_sep)
next
  case (Cons x xs)
  then obtain p where p: "last (split_on c (xs @ t)) = p @ t" by blast
  show ?case
  proof (cases "split_on c (xs @ t)")
    case Nil
    then show ?thesis by simp
  next
    case C: (Cons q qs)
    then show ?thesis using p by (cases qs) auto
  qed
qed

lemma set_join_with: "set (join_with c ps) \<subseteq> insert c (\<Union> (set ` set ps))"
  by (induction c ps rule: join_with.induct) auto

lemma set_join_with_part: "p \<in> set ps \<Longrightarrow> set p \<subseteq> set (join_with c ps)"
  by (induction c ps rule: join_with.induct) auto

lemma join_with_map_inj:
  assumes "inj_on f (set ps \<union> set qs)"
    and "\<forall>p\<in>set ps \<union> set qs. c \<notin> set (f p)"
    and "ps \<noteq> []" "qs \<noteq> []"
    and "join_with c (map f ps) = join_with c (map f qs)"
  shows "ps = qs"
proof -
  have "split_on c (join_with c (map f ps)) = map f ps"
    by (rule split_join) (use assms(2,3) in auto)
  moreover have "split_on c (join_with c (map f qs)) = map f qs"
    by (rule split_join) (use assms(2,4) in auto)
  ultimately have "map f ps = map f qs" using assms(5) by metis
  then show ?thesis using assms(1) by (rule map_inj_on)
qed

section \<open>Trailing separators, prefixes, search\<close>

text \<open>\<open>s.replace(/c+$/, '')\<close> and \<open>s.replace(/c$/, '')\<close>.\<close>

definition strip_trailing :: "jchar \<Rightarrow> jstr \<Rightarrow> jstr" where
  "strip_trailing c s = rev (dropWhile (\<lambda>x. x = c) (rev s))"

definition strip_one_trailing :: "jchar \<Rightarrow> jstr \<Rightarrow> jstr" where
  "strip_one_trailing c s = (if s \<noteq> [] \<and> last s = c then butlast s else s)"

lemma strip_trailing_snoc [simp]:
  "strip_trailing c (s @ [x]) = (if x = c then strip_trailing c s else s @ [x])"
  by (simp add: strip_trailing_def)

lemma strip_trailing_Nil [simp]: "strip_trailing c [] = []"
  by (simp add: strip_trailing_def)

lemma strip_trailing_last: "strip_trailing c s \<noteq> [] \<Longrightarrow> last (strip_trailing c s) \<noteq> c"
  by (induction s rule: rev_induct) auto

lemma strip_trailing_id: "s = [] \<or> last s \<noteq> c \<Longrightarrow> strip_trailing c s = s"
  by (cases s rule: rev_cases) auto

lemma strip_trailing_idem [simp]:
  "strip_trailing c (strip_trailing c s) = strip_trailing c s"
  using strip_trailing_id strip_trailing_last by blast

lemma strip_trailing_decomp: "\<exists>n. s = strip_trailing c s @ replicate n c"
proof (induction s rule: rev_induct)
  case (snoc x xs)
  then obtain n where n: "xs = strip_trailing c xs @ replicate n c" by blast
  show ?case
  proof (cases "x = c")
    case True
    have "xs @ [x] = strip_trailing c xs @ replicate (Suc n) c"
      using n True by (metis append_assoc replicate_append_same replicate_Suc)
    then show ?thesis using True by (metis strip_trailing_snoc)
  next
    case False
    then show ?thesis by (intro exI [of _ 0]) simp
  qed
qed simp

lemma strip_one_trailing_snoc [simp]:
  "strip_one_trailing c (s @ [x]) = (if x = c then s else s @ [x])"
  by (simp add: strip_one_trailing_def)

lemma strip_one_trailing_Nil [simp]: "strip_one_trailing c [] = []"
  by (simp add: strip_one_trailing_def)

lemma strip_one_trailing_id: "s = [] \<or> last s \<noteq> c \<Longrightarrow> strip_one_trailing c s = s"
  by (cases s rule: rev_cases) auto

text \<open>\<open>s.startsWith(p)\<close>, \<open>s.includes(p)\<close> and \<open>s.replace(p, '')\<close> for a string pattern.\<close>

fun starts_with :: "jstr \<Rightarrow> jstr \<Rightarrow> bool" where
  "starts_with s [] = True"
| "starts_with [] (p # ps) = False"
| "starts_with (x # xs) (p # ps) = (x = p \<and> starts_with xs ps)"

fun js_includes :: "jstr \<Rightarrow> jstr \<Rightarrow> bool" where
  "js_includes [] p = starts_with [] p"
| "js_includes (x # xs) p = (starts_with (x # xs) p \<or> js_includes xs p)"

fun remove_first :: "jstr \<Rightarrow> jstr \<Rightarrow> jstr" where
  "remove_first [] p = []"
| "remove_first (x # xs) p =
     (if starts_with (x # xs) p then drop (length p) (x # xs) else x # remove_first xs p)"

lemma starts_with_prefix: "starts_with s p \<longleftrightarrow> prefix p s"
  by (induction s p rule: starts_with.induct) auto

lemma starts_with_append [simp]: "starts_with (p @ s) p"
  by (simp add: starts_with_prefix)

lemma starts_with_js: "starts_with (js a) (js b) \<longleftrightarrow> prefix b a"
  by (simp add: starts_with_prefix prefix_js)

lemma includes_sublist: "js_includes s p \<longleftrightarrow> sublist p s"
  by (induction s p rule: js_includes.induct)
     (auto simp: starts_with_prefix sublist_Cons_right)

lemma remove_first_prefix: "remove_first (p @ s) p = s"
proof (cases "p @ s")
  case Nil
  then show ?thesis by simp
next
  case (Cons x xs)
  have "starts_with (x # xs) p" by (simp flip: Cons)
  then have "remove_first (x # xs) p = drop (length p) (x # xs)" by simp
  then show ?thesis by (simp flip: Cons)
qed

text \<open>\<open>s.lastIndexOf(c)\<close> with \<open>-1\<close> as \<open>None\<close>.\<close>

fun last_index_of :: "jchar \<Rightarrow> jstr \<Rightarrow> nat option" where
  "last_index_of c [] = None"
| "last_index_of c (x # xs) =
     (case last_index_of c xs of
        Some i \<Rightarrow> Some (Suc i)
      | None \<Rightarrow> if x = c then Some 0 else None)"

lemma last_index_of_None: "last_index_of c s = None \<longleftrightarrow> c \<notin> set s"
  by (induction s) (auto split: option.splits)

lemma last_index_of_append:
  "c \<notin> set t \<Longrightarrow> last_index_of c (s @ c # t) = Some (length s)"
proof (induction s)
  case Nil
  then show ?case by (simp add: last_index_of_None [THEN iffD2])
qed simp

section \<open>trim and case mapping\<close>

text \<open>\<open>s.trim()\<close>: the WhiteSpace and LineTerminator code units of ECMAScript.\<close>

definition is_space :: "jchar \<Rightarrow> bool" where
  "is_space c \<longleftrightarrow> 9 \<le> c \<and> c \<le> 13 \<or> c = 32 \<or>
     128 \<le> c \<and> c \<in> set [0xA0, 0x1680, 0x2000, 0x2001, 0x2002, 0x2003, 0x2004, 0x2005,
       0x2006, 0x2007, 0x2008, 0x2009, 0x200A, 0x2028, 0x2029, 0x202F, 0x205F, 0x3000, 0xFEFF]"

definition trim :: "jstr \<Rightarrow> jstr" where
  "trim s = rev (dropWhile is_space (rev (dropWhile is_space s)))"

definition is_ascii :: "jstr \<Rightarrow> bool" where
  "is_ascii s \<longleftrightarrow> (\<forall>c\<in>set s. c < 128)"

definition lower_unit :: "jchar \<Rightarrow> jchar" where
  "lower_unit c = (if 65 \<le> c \<and> c \<le> 90 then c + 32 else c)"

definition lower_ascii :: "jstr \<Rightarrow> jstr" where
  "lower_ascii s = map lower_unit s"

text \<open>
  \<open>toLowerCase\<close> follows the Unicode case tables of the JavaScript engine. What the client
  relies on is its documented value on ASCII text.
\<close>

locale case_mapping =
  fixes lower :: "jstr \<Rightarrow> jstr"
  assumes lower_on_ascii: "is_ascii s \<Longrightarrow> lower s = lower_ascii s"
begin

lemma lower_fixed: "is_ascii s \<Longrightarrow> lower_ascii s = s \<Longrightarrow> lower s = s"
  by (simp add: lower_on_ascii)

end

interpretation ascii: case_mapping lower_ascii
  by unfold_locales simp

lemma is_ascii_append [simp]: "is_ascii (s @ t) \<longleftrightarrow> is_ascii s \<and> is_ascii t"
  by (auto simp: is_ascii_def)

lemma is_ascii_Cons [simp]: "is_ascii (c # s) \<longleftrightarrow> c < 128 \<and> is_ascii s"
  by (auto simp: is_ascii_def)

lemma is_ascii_Nil [simp]: "is_ascii []"
  by (simp add: is_ascii_def)

lemma lower_ascii_append [simp]: "lower_ascii (s @ t) = lower_ascii s @ lower_ascii t"
  by (simp add: lower_ascii_def)

lemma lower_ascii_Cons [simp]: "lower_ascii (c # s) = lower_unit c # lower_ascii s"
  by (simp add: lower_ascii_def)

lemma lower_ascii_Nil [simp]: "lower_ascii [] = []"
  by (simp add: lower_ascii_def)

lemma lower_unit_fixed_iff:
  assumes "k < 65 \<or> 90 < k \<and> k < 97 \<or> 122 < k"
  shows "lower_unit c = k \<longleftrightarrow> c = k"
  using assms unfolding lower_unit_def
  by (auto simp: word_less_nat_alt word_le_nat_alt unat_word_ariths dest!: arg_cong [of _ _ unat])

end
