(* ===== verification/Preview_Kind.thy ===== *)
theory Preview_Kind
  imports Js_String
begin

text \<open>
  \<open>web/src/components/previewKind.ts\<close>: which renderer an object is previewed with.
  \<open>EXT_KIND[ext]\<close> is a property read on an ordinary JavaScript object, so a name that is
  not in the table is looked up in \<open>Object.prototype\<close>; the model keeps that case apart
  (\<open>Inherited\<close>, \<open>Not_A_Kind\<close>).
\<close>

section \<open>Kinds and the extension table\<close>

datatype preview_kind =
  Image | Svg | Video | Audio | Text | Markdown | Csv | Json | Pdf | Unsupported

definition MAX_TEXT_BYTES :: nat where
  "MAX_TEXT_BYTES = 512 * 1024"

definition MAX_PREVIEW_BYTES :: nat where
  "MAX_PREVIEW_BYTES = 25 * 1024 * 1024"

definition ext_kind :: "(jstr \<times> preview_kind) list" where
  "ext_kind =
    map (\<lambda>e. (js e, Image))
      [''png'', ''jpg'', ''jpeg'', ''gif'', ''webp'', ''avif'', ''bmp'', ''ico''] @
    [(js ''svg'', Svg)] @
    map (\<lambda>e. (js e, Video)) [''mp4'', ''webm'', ''ogv'', ''mov'', ''m4v''] @
    map (\<lambda>e. (js e, Audio)) [''mp3'', ''wav'', ''oga'', ''ogg'', ''flac'', ''m4a'', ''aac''] @
    [(js ''pdf'', Pdf)] @
    map (\<lambda>e. (js e, Markdown)) [''md'', ''markdown''] @
    map (\<lambda>e. (js e, Csv)) [''csv'', ''tsv''] @
    [(js ''json'', Json)] @
    map (\<lambda>e. (js e, Text))
      [''txt'', ''yaml'', ''yml'', ''log'', ''xml'', ''html'', ''htm'', ''css'', ''js'', ''mjs'',
       ''cjs'', ''ts'', ''tsx'', ''jsx'', ''go'', ''py'', ''rb'', ''rs'', ''java'', ''kt'', ''c'',
       ''h'', ''cpp'', ''hpp'', ''sh'', ''bash'', ''zsh'', ''sql'', ''toml'', ''ini'', ''conf'',
       ''cfg'', ''env'', ''properties'', ''dockerfile'', ''gitignore'']"

text \<open>The names every object inherits; all of their values are truthy.\<close>

definition object_prototype :: "jstr list" where
  "object_prototype = map js
     [''constructor'', ''__defineGetter__'', ''__defineSetter__'', ''hasOwnProperty'',
      ''__lookupGetter__'', ''__lookupSetter__'', ''isPrototypeOf'', ''propertyIsEnumerable'',
      ''toString'', ''valueOf'', ''__proto__'', ''toLocaleString'']"

datatype 'a property = Own 'a | Inherited jstr | Undefined

definition object_get :: "(jstr \<times> 'a) list \<Rightarrow> jstr \<Rightarrow> 'a property" where
  "object_get tbl k =
     (case map_of tbl k of
        Some v \<Rightarrow> Own v
      | None \<Rightarrow> if List.member object_prototype k then Inherited k else Undefined)"

section \<open>Choosing the kind\<close>

definition extOf :: "(jstr \<Rightarrow> jstr) \<Rightarrow> jstr \<Rightarrow> jstr" where
  "extOf lower key =
     (let base = last (split_on slash (strip_trailing slash (lower key)))
      in case last_index_of dot base of
           Some d \<Rightarrow> drop (d + 1) base
         | None \<Rightarrow> base)"

text \<open>The value \<open>previewKindFor\<close> returns: a kind, or whatever the table inherited.\<close>

datatype kind_value = Kind preview_kind | Not_A_Kind jstr

definition content_type_essence :: "(jstr \<Rightarrow> jstr) \<Rightarrow> jstr option \<Rightarrow> jstr" where
  "content_type_essence lower contentType =
     trim (hd (split_on semicolon
       (lower (case contentType of Some t \<Rightarrow> t | None \<Rightarrow> []))))"

definition content_type_kind :: "jstr \<Rightarrow> preview_kind" where
  "content_type_kind ct =
     (if ct = js ''image/svg+xml'' then Svg
      else if starts_with ct (js ''image/'') then Image
      else if starts_with ct (js ''video/'') then Video
      else if starts_with ct (js ''audio/'') then Audio
      else if ct = js ''application/pdf'' then Pdf
      else if ct = js ''text/markdown'' then Markdown
      else if ct = js ''text/csv'' \<or> ct = js ''text/tab-separated-values'' then Csv
      else if ct = js ''application/json'' then Json
      else if starts_with ct (js ''text/'') then Text
      else Unsupported)"

definition previewKindFor :: "(jstr \<Rightarrow> jstr) \<Rightarrow> jstr \<Rightarrow> jstr option \<Rightarrow> kind_value" where
  "previewKindFor lower key contentType =
     (case object_get ext_kind (extOf lower key) of
        Own k \<Rightarrow> Kind k
      | Inherited n \<Rightarrow> Not_A_Kind n
      | Undefined \<Rightarrow> Kind (content_type_kind (content_type_essence lower contentType)))"

definition isTextualKind :: "kind_value \<Rightarrow> bool" where
  "isTextualKind k \<longleftrightarrow> k = Kind Text \<or> k = Kind Markdown \<or> k = Kind Csv \<or> k = Kind Json"

section \<open>The table\<close>

lemma ext_kind_not_inherited_all:
  "list_all (\<lambda>n. map_of ext_kind n = None) object_prototype"
  by code_simp

lemma ext_kind_not_inherited: "n \<in> set object_prototype \<Longrightarrow> map_of ext_kind n = None"
  using ext_kind_not_inherited_all by (simp add: list_all_iff)

lemma object_get_ext_kind:
  "object_get ext_kind n = Own k \<longleftrightarrow> map_of ext_kind n = Some k"
  "object_get ext_kind n = Inherited m \<longleftrightarrow> n = m \<and> n \<in> set object_prototype"
  by (auto simp: object_get_def ext_kind_not_inherited split: option.splits)

text \<open>Of the inherited names only two are spelled in lower case.\<close>

lemma object_prototype_lower:
  "filter (\<lambda>n. lower_ascii n = n) object_prototype = [js ''constructor'', js ''__proto__'']"
  by code_simp

lemma inherited_lower:
  "n \<in> set object_prototype \<and> lower_ascii n = n \<longleftrightarrow> n = js ''constructor'' \<or> n = js ''__proto__''"
proof -
  have "n \<in> set object_prototype \<and> lower_ascii n = n \<longleftrightarrow>
      n \<in> set (filter (\<lambda>n. lower_ascii n = n) object_prototype)"
    by simp
  then show ?thesis unfolding object_prototype_lower by (simp del: js_Cons)
qed

section \<open>What the extension of an ASCII key is\<close>

lemma lower_unit_ascii: "c < 128 \<Longrightarrow> lower_unit c < 128"
  unfolding lower_unit_def by (auto simp: word_less_nat_alt word_le_nat_alt unat_word_ariths)

lemma lower_unit_idem [simp]: "lower_unit (lower_unit c) = lower_unit c"
  unfolding lower_unit_def by (auto simp: word_le_nat_alt unat_word_ariths)

lemma lower_ascii_idem [simp]: "lower_ascii (lower_ascii s) = lower_ascii s"
  by (simp add: lower_ascii_def comp_def)

lemma is_ascii_lower_ascii: "is_ascii s \<Longrightarrow> is_ascii (lower_ascii s)"
  by (auto simp: is_ascii_def lower_ascii_def lower_unit_ascii)

lemma sep_in_lower_ascii:
  "slash \<in> set (lower_ascii s) \<longleftrightarrow> slash \<in> set s"
  "dot \<in> set (lower_ascii s) \<longleftrightarrow> dot \<in> set s"
  "semicolon \<in> set (lower_ascii s) \<longleftrightarrow> semicolon \<in> set s"
  using lower_unit_fixed_iff [of slash] lower_unit_fixed_iff [of dot]
    lower_unit_fixed_iff [of semicolon]
  by (force simp: lower_ascii_def image_iff)+

lemma lower_unit_sep [simp]:
  "lower_unit slash = slash" "lower_unit dot = dot" "lower_unit semicolon = semicolon"
  by (simp_all add: lower_unit_def)

context case_mapping
begin

lemma extOf_ascii:
  "is_ascii key \<Longrightarrow> extOf lower key = extOf lower_ascii key"
  by (simp add: extOf_def lower_on_ascii)

lemma essence_ascii:
  "is_ascii t \<Longrightarrow> content_type_essence lower (Some t) = content_type_essence lower_ascii (Some t)"
  by (simp add: content_type_essence_def lower_on_ascii)

lemma essence_None: "content_type_essence lower None = content_type_essence lower_ascii None"
  by (simp add: content_type_essence_def lower_on_ascii)

end

lemma lower_ascii_fixed_iff: "lower_ascii s = s \<longleftrightarrow> (\<forall>c\<in>set s. lower_unit c = c)"
  by (induction s) auto

lemma set_strip_trailing: "set (strip_trailing c s) \<subseteq> set s"
  by (auto simp: strip_trailing_def dest: set_dropWhileD)

lemma set_split_on_part: "p \<in> set (split_on c s) \<Longrightarrow> set p \<subseteq> set s"
  using set_join_with_part [of p "split_on c s" c] by simp

lemma set_extOf: "set (extOf lower key) \<subseteq> set (lower key)"
proof -
  let ?parts = "split_on slash (strip_trailing slash (lower key))"
  have "set (last ?parts) \<subseteq> set (lower key)"
    using set_split_on_part [of "last ?parts"] set_strip_trailing [of slash "lower key"]
    by (meson last_in_set split_on_ne subset_trans)
  then show ?thesis
    unfolding extOf_def Let_def
    by (auto split: option.split dest: in_set_dropD)
qed

lemma extOf_lower_fixed: "lower_ascii (extOf lower_ascii key) = extOf lower_ascii key"
  unfolding lower_ascii_fixed_iff using set_extOf [of lower_ascii key]
  by (auto simp: lower_ascii_def)

lemma lower_ascii_replicate_slash [simp]:
  "lower_ascii (replicate n slash) = replicate n slash"
  by (simp add: lower_ascii_def)

lemma lower_ascii_eq_Nil [simp]: "lower_ascii s = [] \<longleftrightarrow> s = []"
  by (simp add: lower_ascii_def)

lemma last_not_in_set: "s \<noteq> [] \<Longrightarrow> c \<notin> set s \<Longrightarrow> last s \<noteq> c"
  using last_in_set by metis

lemma strip_trailing_replicate: "strip_trailing c (s @ replicate n c) = strip_trailing c s"
  by (induction n) (auto simp flip: replicate_append_same append_assoc)

text \<open>Only the part after the last separator counts, trailing separators aside.\<close>

lemma extOf_base:
  assumes "f \<noteq> []" and "slash \<notin> set f"
  shows "extOf lower_ascii (d @ slash # f @ replicate n slash) = extOf lower_ascii f"
proof -
  let ?f = "lower_ascii f"
  have f: "slash \<notin> set ?f" "?f \<noteq> []" using assms by (simp_all add: sep_in_lower_ascii)
  then have last: "last ?f \<noteq> slash" by (simp add: last_not_in_set)
  have "strip_trailing slash ((lower_ascii d @ slash # ?f) @ replicate n slash) =
      lower_ascii d @ slash # ?f"
    using f last by (subst strip_trailing_replicate) (simp add: strip_trailing_id)
  then have "strip_trailing slash (lower_ascii (d @ slash # f @ replicate n slash)) =
      lower_ascii d @ slash # ?f"
    by simp
  moreover have "strip_trailing slash ?f = ?f"
    using f last by (simp add: strip_trailing_id)
  ultimately show ?thesis
    using f by (simp add: extOf_def last_split_append_no_sep split_on_no_sep)
qed

lemma strip_trailing_lower:
  "strip_trailing slash (lower_ascii s) = lower_ascii (strip_trailing slash s)"
proof (induction s rule: rev_induct)
  case (snoc x xs)
  have "lower_unit x = slash \<longleftrightarrow> x = slash" by (rule lower_unit_fixed_iff) simp
  then show ?case using snoc by simp
qed simp

lemma extOf_stripped:
  assumes "strip_trailing slash (lower key) = q @ dot # e" and "slash \<notin> set e" and "dot \<notin> set e"
  shows "extOf lower key = e"
proof -
  obtain p where "last (split_on slash (q @ dot # e)) = p @ dot # e"
    using last_split_append_suffix [of slash "dot # e" q] assms(2) by auto
  then show ?thesis
    using assms by (simp add: extOf_def last_index_of_append)
qed

lemma extOf_after_dot:
  assumes "e \<noteq> []" and "slash \<notin> set e" and "dot \<notin> set e"
  shows "extOf lower_ascii (b @ dot # e) = lower_ascii e"
proof (rule extOf_stripped)
  let ?e = "lower_ascii e"
  show e: "slash \<notin> set ?e" "dot \<notin> set ?e"
    using assms by (simp_all add: sep_in_lower_ascii)
  then show "strip_trailing slash (lower_ascii (b @ dot # e)) = lower_ascii b @ dot # ?e"
    using assms(1) by (simp add: strip_trailing_id last_not_in_set)
qed

lemma previewKindFor_cong:
  assumes "extOf l key = extOf l' key'"
    and "content_type_essence l ct = content_type_essence l' ct'"
  shows "previewKindFor l key ct = previewKindFor l' key' ct'"
  using assms by (simp add: previewKindFor_def split: property.split)

lemma trim_padding:
  assumes "\<forall>c\<in>set ws. is_space c" and "\<forall>c\<in>set ws'. is_space c"
  shows "trim (ws @ t @ ws') = trim t"
proof -
  have front: "dropWhile is_space (ws @ u) = dropWhile is_space u" for u
    using assms(1) by (simp add: dropWhile_append2)
  have "rev (dropWhile is_space (rev (dropWhile is_space (t @ ws')))) =
      rev (dropWhile is_space (rev (dropWhile is_space t)))"
  proof (cases "\<forall>c\<in>set t. is_space c")
    case True
    then have "dropWhile is_space (t @ ws') = []" "dropWhile is_space t = []"
      unfolding dropWhile_eq_Nil_conv using assms(2) by auto
    then show ?thesis by (simp only:)
  next
    case False
    then obtain c where "c \<in> set t" "\<not> is_space c" by blast
    then have "dropWhile is_space (t @ ws') = dropWhile is_space t @ ws'"
      by (rule dropWhile_append1)
    moreover have "dropWhile is_space (rev ws' @ u) = dropWhile is_space u" for u
      using assms(2) by (intro dropWhile_append2) simp
    ultimately show ?thesis by simp
  qed
  then show ?thesis by (simp add: trim_def front)
qed

lemma not_space_semicolon: "\<not> is_space semicolon"
  by (simp add: is_space_def)

lemma is_space_fixed: "is_space c \<Longrightarrow> lower_unit c = c"
  unfolding is_space_def lower_unit_def by (auto simp: word_le_nat_alt)

lemma lower_ascii_spaces: "\<forall>c\<in>set ws. is_space c \<Longrightarrow> lower_ascii ws = ws"
  by (induction ws) (auto simp: is_space_fixed)

section \<open>Properties\<close>

text \<open>
  The value \<open>previewKindFor\<close> returns is one of the declared kinds except for exactly two
  extensions (or extension-less names): \<open>constructor\<close> and \<open>__proto__\<close> are read off
  \<open>Object.prototype\<close>, and the content type cannot change that.
\<close>

theorem preview_kind_undeclared:
  assumes "case_mapping lower" and "is_ascii key"
  shows "previewKindFor lower key contentType = Not_A_Kind n \<longleftrightarrow>
    extOf lower key = n \<and> (n = js ''constructor'' \<or> n = js ''__proto__'')"
proof -
  have ext: "extOf lower key = extOf lower_ascii key"
    using assms by (rule case_mapping.extOf_ascii)
  have "previewKindFor lower key contentType = Not_A_Kind n \<longleftrightarrow>
      object_get ext_kind (extOf lower key) = Inherited n"
    by (simp add: previewKindFor_def split: property.split)
  also have "\<dots> \<longleftrightarrow> extOf lower key = n \<and> n \<in> set object_prototype \<and> lower_ascii n = n"
    unfolding object_get_ext_kind ext using extOf_lower_fixed [of key] by metis
  finally show ?thesis unfolding inherited_lower .
qed

theorem preview_kind_undeclared_witness:
  "previewKindFor lower_ascii (js ''src/Foo.Constructor'') (Some (js ''text/html'')) =
     Not_A_Kind (js ''constructor'')"
proof -
  have "extOf lower_ascii (js ''src/Foo.Constructor'') = js ''constructor''"
    by code_simp
  moreover have "is_ascii (js ''src/Foo.Constructor'')" by code_simp
  ultimately show ?thesis
    using preview_kind_undeclared [OF ascii.case_mapping_axioms] by blast
qed

text \<open>
  A recognised extension decides: whatever path precedes it, whatever the case it is
  written in and whatever the content type says, the kind is the table's.
\<close>

theorem preview_extension_wins:
  assumes "case_mapping lower" and "is_ascii (b @ dot # e)"
    and "slash \<notin> set e" and "dot \<notin> set e"
    and "map_of ext_kind (lower_ascii e) = Some k"
  shows "previewKindFor lower (b @ dot # e) contentType = Kind k"
proof -
  have "e \<noteq> []" using assms(5) by (auto simp: ext_kind_def)
  then have "extOf lower (b @ dot # e) = lower_ascii e"
    using assms case_mapping.extOf_ascii extOf_after_dot by metis
  then show ?thesis
    using assms(5) by (simp add: previewKindFor_def object_get_def)
qed

theorem preview_extension_wins_witness:
  "previewKindFor lower_ascii (js ''a.tar/evil.HTML'') (Some (js ''image/png'')) = Kind Text"
proof -
  have "js ''a.tar/evil.HTML'' = js ''a.tar/evil'' @ dot # js ''HTML''" by simp
  moreover have "is_ascii (js ''a.tar/evil'' @ dot # js ''HTML'')" by code_simp
  moreover have "slash \<notin> set (js ''HTML'')" "dot \<notin> set (js ''HTML'')" by simp_all
  moreover have "map_of ext_kind (lower_ascii (js ''HTML'')) = Some Text" by code_simp
  ultimately show ?thesis
    using preview_extension_wins [OF ascii.case_mapping_axioms] by metis
qed

text \<open>
  Only the last path component matters: directories before the name and slashes after it
  never change the renderer.
\<close>

theorem preview_base_name_only:
  assumes "case_mapping lower" and "is_ascii (d @ slash # f)"
    and "f \<noteq> []" and "slash \<notin> set f"
  shows "previewKindFor lower (d @ slash # f @ replicate n slash) contentType =
    previewKindFor lower f contentType"
proof -
  have "is_ascii (replicate n slash)" by (simp add: is_ascii_def)
  then have "extOf lower (d @ slash # f @ replicate n slash) = extOf lower f"
    using assms case_mapping.extOf_ascii [OF assms(1)] extOf_base by simp
  then show ?thesis by (rule previewKindFor_cong) simp
qed

theorem preview_base_name_only_witness:
  "previewKindFor lower_ascii (js ''x.csv/readme//'') None = previewKindFor lower_ascii (js ''readme'') None"
proof -
  have "is_ascii (js ''x.csv'' @ slash # js ''readme'')" by code_simp
  moreover have "js ''readme'' \<noteq> []" "slash \<notin> set (js ''readme'')" by simp_all
  moreover have "js ''x.csv/readme//'' = js ''x.csv'' @ slash # js ''readme'' @ replicate 2 slash"
    by (simp add: numeral_2_eq_2)
  ultimately show ?thesis
    using preview_base_name_only [OF ascii.case_mapping_axioms] by metis
qed

text \<open>
  The content type is compared as its essence: padding and parameters after the first
  semicolon are ignored.
\<close>

theorem preview_content_type_essence:
  assumes "case_mapping lower" and "is_ascii (ws @ t @ ws' @ semicolon # params)"
    and "\<forall>c\<in>set ws \<union> set ws'. is_space c" and "semicolon \<notin> set t"
  shows "previewKindFor lower key (Some (ws @ t @ ws' @ semicolon # params)) =
    previewKindFor lower key (Some t)"
proof (rule previewKindFor_cong)
  have ws: "lower_ascii ws = ws" "lower_ascii ws' = ws'"
    using assms(3) by (simp_all add: lower_ascii_spaces)
  have sp: "semicolon \<notin> set ws" "semicolon \<notin> set ws'"
    using assms(3) not_space_semicolon by blast+
  have low: "lower (ws @ t @ ws' @ semicolon # params) =
        (ws @ lower_ascii t @ ws') @ semicolon # lower_ascii params"
      "lower t = lower_ascii t"
    using assms(2) by (simp_all add: case_mapping.lower_on_ascii [OF assms(1)] ws)
  have "semicolon \<notin> set (ws @ lower_ascii t @ ws')"
    using assms(4) sp by (simp add: sep_in_lower_ascii)
  then have "hd (split_on semicolon ((ws @ lower_ascii t @ ws') @ semicolon # lower_ascii params)) =
      ws @ lower_ascii t @ ws'"
    by (subst split_on_append_sep) simp_all
  moreover have "hd (split_on semicolon (lower_ascii t)) = lower_ascii t"
    using assms(4) by (simp add: split_on_no_sep sep_in_lower_ascii)
  moreover have "trim (ws @ lower_ascii t @ ws') = trim (lower_ascii t)"
    using assms(3) by (simp add: trim_padding)
  ultimately show "content_type_essence lower (Some (ws @ t @ ws' @ semicolon # params)) =
      content_type_essence lower (Some t)"
    unfolding content_type_essence_def option.case low by (simp only:)
qed simp

theorem preview_content_type_essence_witness:
  "previewKindFor lower_ascii (js ''blob'') (Some (js '' Text/HTML ; charset=utf-8'')) =
   previewKindFor lower_ascii (js ''blob'') (Some (js ''Text/HTML''))"
proof -
  have "is_ascii (js '' '' @ js ''Text/HTML'' @ js '' '' @ semicolon # js '' charset=utf-8'')"
    by code_simp
  moreover have "\<forall>c\<in>set (js '' '') \<union> set (js '' ''). is_space c" by code_simp
  moreover have "semicolon \<notin> set (js ''Text/HTML'')" by simp
  ultimately show ?thesis
    using preview_content_type_essence [OF ascii.case_mapping_axioms] by fastforce
qed

definition active_types :: "jstr list" where
  "active_types = map js [''text/html'', ''text/xml'', ''text/javascript'',
     ''application/xhtml+xml'', ''application/xml'', ''application/javascript'']"

lemma content_type_kind_js: "content_type_kind (js t) =
    (if t = ''image/svg+xml'' then Svg
     else if prefix ''image/'' t then Image
     else if prefix ''video/'' t then Video
     else if prefix ''audio/'' t then Audio
     else if t = ''application/pdf'' then Pdf
     else if t = ''text/markdown'' then Markdown
     else if t = ''text/csv'' \<or> t = ''text/tab-separated-values'' then Csv
     else if t = ''application/json'' then Json
     else if prefix ''text/'' t then Text
     else Unsupported)"
  unfolding content_type_kind_def js_inject starts_with_js by simp

lemma active_types_kinds:
  "list_all (\<lambda>t. content_type_kind t \<in> {Text, Unsupported}) active_types"
  unfolding active_types_def list.map list.pred_inject content_type_kind_js by simp

lemma active_types_essence:
  "list_all (\<lambda>t. trim (hd (split_on semicolon t)) = t) active_types"
  by code_simp

text \<open>
  A content type that names active markup or script selects the escaped-source renderer
  or no preview at all, never a renderer that would interpret it.
\<close>

theorem preview_active_content_inert:
  assumes "case_mapping lower" and "is_ascii t" and "lower_ascii t \<in> set active_types"
  shows "previewKindFor lower key (Some t) \<in> {Kind Text, previewKindFor lower key None}"
proof -
  have "content_type_essence lower (Some t) = trim (hd (split_on semicolon (lower_ascii t)))"
    unfolding case_mapping.essence_ascii [OF assms(1,2)] by (simp add: content_type_essence_def)
  then have "content_type_kind (content_type_essence lower (Some t)) \<in> {Text, Unsupported}"
    using assms(3) active_types_kinds active_types_essence unfolding list_all_iff by simp
  moreover have "content_type_kind (content_type_essence lower None) = Unsupported"
    unfolding case_mapping.essence_None [OF assms(1)] by code_simp
  ultimately show ?thesis
    by (auto simp: previewKindFor_def split: property.split)
qed

theorem preview_active_content_inert_witness:
  "previewKindFor lower_ascii (js ''page'') (Some (js ''TEXT/html'')) \<in>
     {Kind Text, previewKindFor lower_ascii (js ''page'') None}"
proof -
  have "is_ascii (js ''TEXT/html'')" by code_simp
  moreover have "List.member active_types (lower_ascii (js ''TEXT/html''))" by code_simp
  then have "lower_ascii (js ''TEXT/html'') \<in> set active_types" by simp
  ultimately show ?thesis
    using preview_active_content_inert [OF ascii.case_mapping_axioms] by blast
qed

end
