(* ===== verification/Csv_Parser.thy ===== *)
theory Csv_Parser
  imports Preview_Kind
begin

text \<open>
  \<open>web/src/components/csv.ts\<close>: the capped CSV/TSV parser of the preview. The five
  \<open>let\<close> variables of \<open>parseCsv\<close> are the record \<open>csv_state\<close>; the \<open>for\<close> loop over the
  index is recursion over the text that is left, with \<open>text[i + 1]\<close> its second unit.
  The reference is the same grammar without the caps (\<open>csv_all\<close>); the refinement theorem
  says what the caps do to its result.
\<close>

section \<open>The parser\<close>

definition MAX_CSV_ROWS :: nat where "MAX_CSV_ROWS = 500"

definition MAX_CSV_COLS :: nat where "MAX_CSV_COLS = 50"

record csv_table =
  csv_header :: "jstr list"
  csv_rows :: "jstr list list"
  csv_truncated :: bool

record csv_state =
  st_rows :: "jstr list list"
  st_row :: "jstr list"
  st_field :: jstr
  st_quotes :: bool
  st_truncated :: bool

text \<open>\<open>/\.tsv$/i.test(...)\<close>: the \<open>i\<close> flag without \<open>u\<close> folds ASCII letters only here.\<close>

definition delimiterFor :: "jstr \<Rightarrow> jchar" where
  "delimiterFor key =
     (let s = strip_trailing slash key
      in if starts_with (rev (lower_ascii s)) (rev (js ''.tsv'')) then tab else comma)"

definition push_field :: "csv_state \<Rightarrow> csv_state" where
  "push_field s =
     (if length (st_row s) < MAX_CSV_COLS then s\<lparr>st_row := st_row s @ [st_field s]\<rparr>
      else s\<lparr>st_truncated := True\<rparr>)\<lparr>st_field := []\<rparr>"

definition push_row :: "csv_state \<Rightarrow> csv_state \<times> bool" where
  "push_row s =
     (let s1 = push_field s;
          s2 = s1\<lparr>st_rows := st_rows s1 @ [st_row s1], st_row := []\<rparr>
      in if length (st_rows s2) > MAX_CSV_ROWS
         then (s2\<lparr>st_rows := take MAX_CSV_ROWS (st_rows s2), st_truncated := True\<rparr>, False)
         else (s2, True))"

definition next_is :: "jchar \<Rightarrow> jstr \<Rightarrow> bool" where
  "next_is c rest = (case rest of [] \<Rightarrow> False | x # _ \<Rightarrow> x = c)"

text \<open>
  The loop. The second component of the result is \<open>False\<close> when the parser returned from
  inside the loop because the row cap was hit.
\<close>

function csv_loop :: "jchar \<Rightarrow> jstr \<Rightarrow> csv_state \<Rightarrow> csv_state \<times> bool" where
  "csv_loop d [] s = (s, True)"
| "csv_loop d (ch # rest) s =
     (if st_quotes s then
        (if ch = dquote then
           (if next_is dquote rest
            then csv_loop d (tl rest) (s\<lparr>st_field := st_field s @ [dquote]\<rparr>)
            else csv_loop d rest (s\<lparr>st_quotes := False\<rparr>))
         else csv_loop d rest (s\<lparr>st_field := st_field s @ [ch]\<rparr>))
      else if ch = dquote \<and> st_field s = [] then csv_loop d rest (s\<lparr>st_quotes := True\<rparr>)
      else if ch = d then csv_loop d rest (push_field s)
      else if ch = lf \<or> ch = cr then
        (let rest' = (if ch = cr \<and> next_is lf rest then tl rest else rest);
             (s', continue) = push_row s
         in if continue then csv_loop d rest' s' else (s', False))
      else csv_loop d rest (s\<lparr>st_field := st_field s @ [ch]\<rparr>))"
  by pat_completeness auto
termination by (relation "measure (\<lambda>(d, text, s). length text)") auto

definition finish :: "jstr list list \<Rightarrow> bool \<Rightarrow> csv_table" where
  "finish rows trunc =
     (case rows of
        [] \<Rightarrow> \<lparr>csv_header = [], csv_rows = [], csv_truncated = trunc\<rparr>
      | h # body \<Rightarrow> \<lparr>csv_header = h, csv_rows = body, csv_truncated = trunc\<rparr>)"

definition csv_init :: csv_state where
  "csv_init =
     \<lparr>st_rows = [], st_row = [], st_field = [], st_quotes = False, st_truncated = False\<rparr>"

text \<open>What follows the loop: the last row is flushed unless the loop returned early.\<close>

definition csv_flush :: "csv_state \<times> bool \<Rightarrow> csv_table" where
  "csv_flush r =
     (let s = fst r;
          s' = (if snd r \<and> (st_field s \<noteq> [] \<or> st_row s \<noteq> []) then fst (push_row s) else s)
      in finish (st_rows s') (st_truncated s'))"

definition parseCsv :: "jstr \<Rightarrow> jchar \<Rightarrow> csv_table" where
  "parseCsv text d = csv_flush (csv_loop d text csv_init)"

section \<open>The reference grammar, without caps\<close>

function csv_all_loop ::
  "jchar \<Rightarrow> jstr \<Rightarrow> jstr list list \<Rightarrow> jstr list \<Rightarrow> jstr \<Rightarrow> bool \<Rightarrow> jstr list list" where
  "csv_all_loop d [] rows row field q =
     (if field \<noteq> [] \<or> row \<noteq> [] then rows @ [row @ [field]] else rows)"
| "csv_all_loop d (ch # rest) rows row field q =
     (if q then
        (if ch = dquote then
           (if next_is dquote rest then csv_all_loop d (tl rest) rows row (field @ [dquote]) q
            else csv_all_loop d rest rows row field False)
         else csv_all_loop d rest rows row (field @ [ch]) q)
      else if ch = dquote \<and> field = [] then csv_all_loop d rest rows row field True
      else if ch = d then csv_all_loop d rest rows (row @ [field]) [] q
      else if ch = lf \<or> ch = cr then
        csv_all_loop d (if ch = cr \<and> next_is lf rest then tl rest else rest)
          (rows @ [row @ [field]]) [] [] q
      else csv_all_loop d rest rows row (field @ [ch]) q)"
  by pat_completeness auto
termination by (relation "measure (\<lambda>(d, text, rs, r, f, q). length text)") auto

definition csv_all :: "jchar \<Rightarrow> jstr \<Rightarrow> jstr list list" where
  "csv_all d text = csv_all_loop d text [] [] [] False"

definition cap_rows :: "jstr list list \<Rightarrow> jstr list list" where
  "cap_rows rs = map (take MAX_CSV_COLS) (take MAX_CSV_ROWS rs)"

definition over_caps :: "jstr list list \<Rightarrow> bool" where
  "over_caps rs \<longleftrightarrow>
     length rs > MAX_CSV_ROWS \<or> (\<exists>r\<in>set (take MAX_CSV_ROWS rs). length r > MAX_CSV_COLS)"

section \<open>The parser refines the reference\<close>

lemma csv_all_loop_extends: "\<exists>more. csv_all_loop d t rows row field q = rows @ more"
proof (induction d t rows row field q rule: csv_all_loop.induct)
  case (2 d ch rest rows row field q)
  then show ?case by (auto split: if_splits)
qed auto

definition csv_sim ::
  "csv_state \<Rightarrow> jstr list list \<Rightarrow> jstr list \<Rightarrow> jstr \<Rightarrow> bool \<Rightarrow> bool" where
  "csv_sim s rows row field q \<longleftrightarrow>
     st_rows s = map (take MAX_CSV_COLS) rows \<and> length rows \<le> MAX_CSV_ROWS \<and>
     st_row s = take MAX_CSV_COLS row \<and> st_field s = field \<and> st_quotes s = q \<and>
     st_truncated s = ((\<exists>r\<in>set rows. length r > MAX_CSV_COLS) \<or> length row > MAX_CSV_COLS)"

lemma csv_sim_init: "csv_sim csv_init [] [] [] False"
  by (simp add: csv_sim_def csv_init_def)

lemma csv_sim_field: "csv_sim s rows row field q \<Longrightarrow> csv_sim (s\<lparr>st_field := f\<rparr>) rows row f q"
  by (simp add: csv_sim_def)

lemma csv_sim_quotes: "csv_sim s rows row field q \<Longrightarrow> csv_sim (s\<lparr>st_quotes := q'\<rparr>) rows row field q'"
  by (simp add: csv_sim_def)

lemma csv_sim_push_field:
  "csv_sim s rows row field q \<Longrightarrow> csv_sim (push_field s) rows (row @ [field]) [] q"
  by (auto simp: csv_sim_def push_field_def min_def split: if_splits)

lemma csv_sim_push_row:
  assumes "csv_sim s rows row field q" and "length rows < MAX_CSV_ROWS"
  shows "\<exists>s'. push_row s = (s', True) \<and> csv_sim s' (rows @ [row @ [field]]) [] [] q"
  using csv_sim_push_field [OF assms(1)] assms(2)
  by (auto simp: push_row_def Let_def csv_sim_def)

lemma csv_sim_push_row_full:
  assumes "csv_sim s rows row field q" and "length rows = MAX_CSV_ROWS"
  shows "\<exists>s'. push_row s = (s', False) \<and>
    st_rows s' = map (take MAX_CSV_COLS) rows \<and> st_truncated s'"
  using csv_sim_push_field [OF assms(1)] assms(2)
  by (auto simp: push_row_def Let_def csv_sim_def)

text \<open>The caps on a result the reference has already exceeded.\<close>

lemma capped_early:
  assumes "all = rows @ x # ms" and "length rows = MAX_CSV_ROWS"
  shows "cap_rows all = map (take MAX_CSV_COLS) rows" and "over_caps all"
  using assms by (simp_all add: cap_rows_def over_caps_def)

lemma csv_flush_early: "csv_flush (s, False) = finish (st_rows s) (st_truncated s)"
  by (simp add: csv_flush_def)

lemma csv_sim_flush:
  assumes "csv_sim s rows row field q"
  shows "csv_flush (s, True) =
    finish (cap_rows (csv_all_loop d [] rows row field q))
      (over_caps (csv_all_loop d [] rows row field q))"
proof (cases "field \<noteq> [] \<or> row \<noteq> []")
  case False
  with assms show ?thesis
    by (auto simp: csv_sim_def csv_flush_def cap_rows_def over_caps_def)
next
  case True
  then have "st_field s \<noteq> [] \<or> st_row s \<noteq> []"
    using assms by (auto simp: csv_sim_def MAX_CSV_COLS_def)
  then have flush: "csv_flush (s, True) =
      finish (st_rows (fst (push_row s))) (st_truncated (fst (push_row s)))"
    by (simp add: csv_flush_def Let_def)
  have le: "length rows \<le> MAX_CSV_ROWS" using assms by (simp add: csv_sim_def)
  show ?thesis
  proof (cases "length rows < MAX_CSV_ROWS")
    case lt: True
    obtain s' where s': "push_row s = (s', True)" "csv_sim s' (rows @ [row @ [field]]) [] [] q"
      using csv_sim_push_row [OF assms lt] by blast
    then show ?thesis using True lt flush
      by (auto simp: csv_sim_def cap_rows_def over_caps_def)
  next
    case False
    then have full: "length rows = MAX_CSV_ROWS" using le by simp
    obtain s' where "push_row s = (s', False)" "st_rows s' = map (take MAX_CSV_COLS) rows"
        "st_truncated s'"
      using csv_sim_push_row_full [OF assms full] by blast
    then show ?thesis using True flush capped_early [OF _ full, of _ "row @ [field]" "[]"]
      by simp
  qed
qed

lemma csv_sim_loop:
  "csv_sim s rows row field q \<Longrightarrow>
   csv_flush (csv_loop d t s) =
     finish (cap_rows (csv_all_loop d t rows row field q))
       (over_caps (csv_all_loop d t rows row field q))"
proof (induction d t rows row field q arbitrary: s rule: csv_all_loop.induct)
  case (1 d rows row field q)
  then show ?case using csv_sim_flush by simp
next
  case (2 d ch rest rows row field q)
  have quotes: "st_quotes s = q" and field: "st_field s = field"
    using "2.prems" by (simp_all add: csv_sim_def)
  note sims = csv_sim_field [OF "2.prems"] csv_sim_quotes [OF "2.prems"]
    csv_sim_push_field [OF "2.prems"]
  let ?rest' = "if ch = cr \<and> next_is lf rest then tl rest else rest"
  consider (quoted) "q" | (openq) "\<not> q" "ch = dquote" "field = []"
    | (delim) "\<not> q" "\<not> (ch = dquote \<and> field = [])" "ch = d"
    | (eol) "\<not> q" "\<not> (ch = dquote \<and> field = [])" "ch \<noteq> d" "ch = lf \<or> ch = cr"
    | (plainch) "\<not> q" "\<not> (ch = dquote \<and> field = [])" "ch \<noteq> d" "\<not> (ch = lf \<or> ch = cr)"
    by blast
  then show ?case
  proof cases
    case quoted
    then show ?thesis using "2.IH"(1-3) sims quotes field by simp
  next
    case openq
    then show ?thesis using "2.IH"(4) sims quotes field by simp
  next
    case delim
    then show ?thesis using "2.IH"(5) sims quotes field by auto
  next
    case plainch
    then show ?thesis using "2.IH"(7) sims quotes field by auto
  next
    case eol
    then have all: "csv_all_loop d (ch # rest) rows row field q =
        csv_all_loop d ?rest' (rows @ [row @ [field]]) [] [] q"
      by auto
    show ?thesis
    proof (cases "length rows < MAX_CSV_ROWS")
      case True
      then obtain s' where s': "push_row s = (s', True)"
          "csv_sim s' (rows @ [row @ [field]]) [] [] q"
        using csv_sim_push_row [OF "2.prems"] by blast
      then have "csv_loop d (ch # rest) s = csv_loop d ?rest' s'"
        using eol quotes field by auto
      then show ?thesis using "2.IH"(6) [OF _ _ _ _ s'(2)] eol all by simp
    next
      case False
      then have full: "length rows = MAX_CSV_ROWS" using "2.prems" by (simp add: csv_sim_def)
      obtain s' where s': "push_row s = (s', False)" "st_rows s' = map (take MAX_CSV_COLS) rows"
          "st_truncated s'"
        using csv_sim_push_row_full [OF "2.prems" full] by blast
      then have "csv_loop d (ch # rest) s = (s', False)"
        using eol quotes field by auto
      moreover obtain ms where "csv_all_loop d (ch # rest) rows row field q =
          rows @ (row @ [field]) # ms"
        using all csv_all_loop_extends [of d ?rest' "rows @ [row @ [field]]" "[]" "[]" q] by auto
      ultimately show ?thesis
        using s' capped_early [OF _ full] by (simp add: csv_flush_early)
    qed
  qed
qed

lemma csv_sim_parse:
  "parseCsv t d = finish (cap_rows (csv_all d t)) (over_caps (csv_all d t))"
  unfolding parseCsv_def csv_all_def by (rule csv_sim_loop) (rule csv_sim_init)

section \<open>Writing a table and reading it back\<close>

text \<open>Every field quoted, every quote doubled, each row ended by its own row break.\<close>

definition escape_field :: "jstr \<Rightarrow> jstr" where
  "escape_field f = concat (map (\<lambda>c. if c = dquote then [dquote, dquote] else [c]) f)"

definition quote_field :: "jstr \<Rightarrow> jstr" where
  "quote_field f = dquote # escape_field f @ [dquote]"

definition write_row :: "jchar \<Rightarrow> jstr list \<Rightarrow> jstr" where
  "write_row d r = join_with d (map quote_field r)"

fun write_table :: "jchar \<Rightarrow> (jstr list \<times> jstr) list \<Rightarrow> jstr" where
  "write_table d [] = []"
| "write_table d ((r, eol) # tbl) = write_row d r @ eol @ write_table d tbl"

definition row_breaks :: "jstr list" where
  "row_breaks = [[lf], [cr], [cr, lf]]"

lemma next_is_simps [simp]: "next_is c [] = False" "next_is c (x # xs) = (x = c)"
  by (simp_all add: next_is_def)

lemma escape_field_simps [simp]:
  "escape_field [] = []"
  "escape_field (c # f) = (if c = dquote then [dquote, dquote] else [c]) @ escape_field f"
  by (simp_all add: escape_field_def)

lemma read_escaped:
  "\<not> next_is dquote rest \<Longrightarrow>
   csv_all_loop d (escape_field f @ dquote # rest) rows row acc True =
     csv_all_loop d rest rows row (acc @ f) False"
  by (induction f arbitrary: acc) auto

lemma read_quoted:
  "\<not> next_is dquote rest \<Longrightarrow>
   csv_all_loop d (quote_field f @ rest) rows row [] False = csv_all_loop d rest rows row f False"
  by (simp add: quote_field_def read_escaped)

lemma read_row_break:
  assumes "d \<noteq> lf" "d \<noteq> cr" "eol \<in> set row_breaks" "\<not> next_is lf rest"
  shows "csv_all_loop d (eol @ rest) rows row f False =
    csv_all_loop d rest (rows @ [row @ [f]]) [] [] False"
  using assms by (auto simp: row_breaks_def)

lemma row_break_not_dquote: "eol \<in> set row_breaks \<Longrightarrow> \<not> next_is dquote (eol @ rest)"
  by (auto simp: row_breaks_def)

lemma read_row:
  assumes "d \<noteq> lf" "d \<noteq> cr" "d \<noteq> dquote" "eol \<in> set row_breaks" "\<not> next_is lf rest" "r \<noteq> []"
  shows "csv_all_loop d (write_row d r @ eol @ rest) rows row [] False =
    csv_all_loop d rest (rows @ [row @ r]) [] [] False"
  using assms(6)
proof (induction r arbitrary: row rule: list_nonempty_induct)
  case (single f)
  then show ?case
    using assms by (simp add: write_row_def read_quoted row_break_not_dquote read_row_break)
next
  case (cons f fs)
  have "write_row d (f # fs) @ eol @ rest = quote_field f @ d # write_row d fs @ eol @ rest"
    using cons.hyps by (simp add: write_row_def join_with_Cons)
  then show ?case
    using cons assms by (simp add: read_quoted)
qed

lemma write_row_starts_quoted: "r \<noteq> [] \<Longrightarrow> \<exists>u. write_row d r = dquote # u"
  by (cases r rule: remdups_adj.cases) (simp_all add: write_row_def quote_field_def)

lemma write_table_no_lf: "\<forall>(r, eol)\<in>set tbl. r \<noteq> [] \<Longrightarrow> \<not> next_is lf (write_table d tbl)"
proof (cases tbl)
  case (Cons p tbl')
  moreover assume "\<forall>(r, eol)\<in>set tbl. r \<noteq> []"
  ultimately show ?thesis
    using write_row_starts_quoted [of "fst p" d] by (cases p) auto
qed simp

lemma csv_all_write_table:
  assumes "d \<noteq> lf" "d \<noteq> cr" "d \<noteq> dquote"
    and "\<forall>(r, eol)\<in>set tbl. r \<noteq> [] \<and> eol \<in> set row_breaks"
  shows "csv_all_loop d (write_table d tbl) rows [] [] False = rows @ map fst tbl"
  using assms(4)
proof (induction tbl arbitrary: rows)
  case (Cons p tbl)
  obtain r eol where p: "p = (r, eol)" by fastforce
  have "\<not> next_is lf (write_table d tbl)"
    using Cons.prems by (intro write_table_no_lf) auto
  then have "csv_all_loop d (write_table d (p # tbl)) rows [] [] False =
      csv_all_loop d (write_table d tbl) (rows @ [r]) [] [] False"
    using Cons.prems assms(1-3) p read_row [of d eol "write_table d tbl" r rows "[]"] by simp
  then show ?case using Cons p by simp
qed simp

section \<open>The parser only splits its input\<close>

lemma subseq_step: "subseq X (P @ u) \<Longrightarrow> subseq u v \<Longrightarrow> subseq X (P @ v)"
  by (meson list_emb_append_mono subseq_order.order_refl subseq_order.order_trans)

lemma subseq_Cons_self [simp]: "subseq xs (x # xs)"
  by (rule list_emb_Cons) simp

lemma subseq_tl_Cons: "subseq (tl rest) (c # rest)"
  by (cases rest) auto

lemma csv_all_loop_subseq:
  "subseq (concat (concat (csv_all_loop d t rows row field q)))
     ((concat (concat rows) @ concat row @ field) @ t)"
proof (induction d t rows row field q rule: csv_all_loop.induct)
  case (2 d ch rest rows row field q)
  let ?P = "concat (concat rows) @ concat row @ field"
  have skip: "subseq X (?P @ rest) \<Longrightarrow> subseq X (?P @ ch # rest)" for X
    by (erule subseq_step) (rule list_emb_Cons, simp)
  have skip2: "subseq X (?P @ tl rest) \<Longrightarrow> subseq X (?P @ ch # rest)" for X
    by (erule subseq_step) (rule subseq_tl_Cons)
  have keep2: "subseq X (?P @ ch # tl rest) \<Longrightarrow> subseq X (?P @ ch # rest)" for X
    by (erule subseq_step) (cases rest; simp)
  let ?rest' = "if ch = cr \<and> next_is lf rest then tl rest else rest"
  consider (escaped) "q" "ch = dquote" "next_is dquote rest"
    | (closeq) "q" "ch = dquote" "\<not> next_is dquote rest" | (quoted) "q" "ch \<noteq> dquote"
    | (openq) "\<not> q" "ch = dquote" "field = []"
    | (delim) "\<not> q" "\<not> (ch = dquote \<and> field = [])" "ch = d"
    | (eol) "\<not> q" "\<not> (ch = dquote \<and> field = [])" "ch \<noteq> d" "ch = lf \<or> ch = cr"
    | (plainch) "\<not> q" "\<not> (ch = dquote \<and> field = [])" "ch \<noteq> d" "\<not> (ch = lf \<or> ch = cr)"
    by blast
  then show ?case
  proof cases
    case escaped
    then show ?thesis by (intro keep2) (use "2.IH"(1) escaped in simp)
  next
    case closeq
    then show ?thesis by (intro skip) (use "2.IH"(2) closeq in simp)
  next
    case quoted
    then show ?thesis using "2.IH"(3) [OF quoted] by simp
  next
    case openq
    then show ?thesis by (intro skip) (use "2.IH"(4) openq in simp)
  next
    case delim
    then show ?thesis by (intro skip) (use "2.IH"(5) delim in auto)
  next
    case plainch
    then show ?thesis using "2.IH"(7) [OF plainch] by auto
  next
    case eol
    then have "csv_all_loop d (ch # rest) rows row field q =
        csv_all_loop d ?rest' (rows @ [row @ [field]]) [] [] q"
      by auto
    moreover have "subseq (concat (concat (csv_all_loop d ?rest' (rows @ [row @ [field]]) [] [] q)))
        (?P @ ?rest')"
      using "2.IH"(6) [OF eol] by simp
    moreover have "subseq X (?P @ ?rest') \<Longrightarrow> subseq X (?P @ ch # rest)" for X
      using skip [of X] skip2 [of X] by (cases "ch = cr \<and> next_is lf rest") simp_all
    ultimately show ?thesis by (simp only:)
  qed
qed auto

lemma subseq_concat_take: "subseq (concat (take n xs)) (concat xs)"
proof -
  have "concat xs = concat (take n xs) @ concat (drop n xs)"
    by (metis append_take_drop_id concat_append)
  then show ?thesis by (metis subseq_append_right subseq_order.order_refl)
qed

lemma subseq_cap_cols: "subseq (concat (concat (map (take n) rs))) (concat (concat rs))"
  by (induction rs) (auto intro: list_emb_append_mono subseq_concat_take)

lemma subseq_cap_rows: "subseq (concat (concat (take n rs))) (concat (concat rs))"
proof -
  have "concat (concat rs) = concat (concat (take n rs)) @ concat (concat (drop n rs))"
    by (metis append_take_drop_id concat_append)
  then show ?thesis by (metis subseq_append_right subseq_order.order_refl)
qed

lemma cap_rows_subseq: "subseq (concat (concat (cap_rows rs))) (concat (concat rs))"
  unfolding cap_rows_def using subseq_cap_cols subseq_cap_rows by (rule subseq_order.order_trans)

section \<open>Properties\<close>

text \<open>
  C5. The capped parser is the uncapped grammar followed by the caps: it keeps the first
  \<open>MAX_CSV_ROWS\<close> rows and the first \<open>MAX_CSV_COLS\<close> cells of each, and reports truncation
  exactly when the caps removed something.
\<close>

theorem parseCsv_refines_grammar:
  "parseCsv t d = finish (cap_rows (csv_all d t)) (over_caps (csv_all d t))"
  unfolding parseCsv_def csv_all_def by (rule csv_sim_loop) (rule csv_sim_init)

lemma finish_rows: "finish (h # body) tr = \<lparr>csv_header = h, csv_rows = body, csv_truncated = tr\<rparr>"
  "finish [] tr = \<lparr>csv_header = [], csv_rows = [], csv_truncated = tr\<rparr>"
  by (simp_all add: finish_def)

lemma finish_cells:
  "concat (concat (csv_header (finish rs tr) # csv_rows (finish rs tr))) = concat (concat rs)"
  "length (csv_rows (finish rs tr)) = length rs - 1"
  "r \<in> set (csv_header (finish rs tr) # csv_rows (finish rs tr)) \<Longrightarrow> r \<in> set rs \<or> r = []"
  by (cases rs; simp add: finish_rows; fail)+

text \<open>
  C22. A table written with every field quoted, every embedded quote doubled and any of the
  three row breaks is read back cell for cell and not reported truncated, as long as it is
  within the caps: delimiters, quotes and row breaks inside fields survive.
\<close>

theorem parseCsv_roundtrip:
  assumes "d = comma \<or> d = tab"
    and "\<forall>(r, eol)\<in>set tbl. r \<noteq> [] \<and> length r \<le> MAX_CSV_COLS \<and> eol \<in> set row_breaks"
    and "length tbl \<le> MAX_CSV_ROWS"
  shows "parseCsv (write_table d tbl) d = finish (map fst tbl) False"
proof -
  have "\<forall>(r, eol)\<in>set tbl. r \<noteq> [] \<and> eol \<in> set row_breaks" using assms(2) by blast
  moreover have "d \<noteq> lf" "d \<noteq> cr" "d \<noteq> dquote" using assms(1) by auto
  ultimately have "csv_all d (write_table d tbl) = map fst tbl"
    using csv_all_write_table [of d tbl "[]"] by (simp add: csv_all_def)
  moreover have "cap_rows (map fst tbl) = map fst tbl"
    using assms(2,3) by (auto simp: cap_rows_def intro!: map_idI)
  moreover have "\<not> over_caps (map fst tbl)"
    using assms(2,3) by (auto simp: over_caps_def not_less)
  ultimately show ?thesis by (simp add: csv_sim_parse)
qed

theorem parseCsv_roundtrip_witness:
  "parseCsv (write_table comma [([js ''a,b'', js ''c'' @ [dquote]], [cr, lf]), ([[lf], []], [cr])]) comma =
     finish [[js ''a,b'', js ''c'' @ [dquote]], [[lf], []]] False"
proof -
  let ?tbl = "[([js ''a,b'', js ''c'' @ [dquote]], [cr, lf]), ([[lf], []], [cr])]"
  have "\<forall>(r, eol)\<in>set ?tbl. r \<noteq> [] \<and> length r \<le> MAX_CSV_COLS \<and> eol \<in> set row_breaks"
    by (simp add: row_breaks_def MAX_CSV_COLS_def)
  moreover have "length ?tbl \<le> MAX_CSV_ROWS" by (simp add: MAX_CSV_ROWS_def)
  ultimately show ?thesis using parseCsv_roundtrip [of comma ?tbl] by simp
qed

text \<open>
  C32. Whatever the text, the table has at most \<open>MAX_CSV_ROWS\<close> rows counting the header, no row
  has more than \<open>MAX_CSV_COLS\<close> cells, and the characters of the cells, read in order, are a
  subsequence of the input: the parser drops characters but never makes any up.
\<close>

theorem parseCsv_bounded_and_inert:
  "let tbl = parseCsv t d; cells = csv_header tbl # csv_rows tbl
   in length (csv_rows tbl) < MAX_CSV_ROWS \<and>
      list_all (\<lambda>r. length r \<le> MAX_CSV_COLS) cells \<and>
      subseq (concat (concat cells)) t"
proof -
  let ?rs = "cap_rows (csv_all d t)"
  define tbl where "tbl = parseCsv t d"
  have tbl: "tbl = finish ?rs (over_caps (csv_all d t))"
    by (simp add: tbl_def csv_sim_parse)
  have "length ?rs \<le> MAX_CSV_ROWS" by (simp add: cap_rows_def)
  then have rows: "length (csv_rows tbl) < MAX_CSV_ROWS"
    unfolding tbl finish_cells(2) by (simp add: MAX_CSV_ROWS_def)
  have "length r \<le> MAX_CSV_COLS" if "r \<in> set (csv_header tbl # csv_rows tbl)" for r
    using finish_cells(3) [OF that [unfolded tbl]] by (auto simp: cap_rows_def)
  then have cols: "list_all (\<lambda>r. length r \<le> MAX_CSV_COLS) (csv_header tbl # csv_rows tbl)"
    unfolding list_all_iff by blast
  have "subseq (concat (concat (csv_all d t))) t"
    using csv_all_loop_subseq [of d t "[]" "[]" "[]" False] by (simp add: csv_all_def)
  then have "subseq (concat (concat (csv_header tbl # csv_rows tbl))) t"
    unfolding tbl finish_cells(1) by (rule subseq_order.order_trans [OF cap_rows_subseq])
  then show ?thesis using rows cols by (simp only: Let_def tbl_def [symmetric] simp_thms)
qed

text \<open>
  The delimiter and the renderer agree: a key whose extension makes the parser split on
  tabs is previewed as a table, whatever its content type.
\<close>

theorem tab_delimiter_is_csv:
  assumes "case_mapping lower" and "is_ascii key" and "delimiterFor key = tab"
  shows "previewKindFor lower key contentType = Kind Csv"
proof -
  let ?s = "strip_trailing slash key"
  have "prefix (rev (js ''.tsv'')) (rev (lower_ascii ?s))"
    using assms(3) by (simp add: delimiterFor_def Let_def starts_with_prefix split: if_splits)
  then obtain u where "lower_ascii ?s = u @ js ''.tsv''"
    unfolding prefix_def by (metis rev_append rev_rev_ident)
  then have s: "strip_trailing slash (lower_ascii key) = u @ dot # js ''tsv''"
    by (simp add: strip_trailing_lower)
  have "extOf lower key = js ''tsv''"
    unfolding case_mapping.extOf_ascii [OF assms(1,2)]
    using extOf_stripped [of lower_ascii key u "js ''tsv''"] s by simp
  moreover have "object_get ext_kind (js ''tsv'') = Own Csv" by code_simp
  ultimately show ?thesis by (simp add: previewKindFor_def)
qed

theorem tab_delimiter_is_csv_witness:
  "previewKindFor lower_ascii (js ''export/Q3.TSV/'') (Some (js ''text/plain'')) = Kind Csv"
proof -
  have "is_ascii (js ''export/Q3.TSV/'')" by code_simp
  moreover have "delimiterFor (js ''export/Q3.TSV/'') = tab" by code_simp
  ultimately show ?thesis
    by (rule tab_delimiter_is_csv [OF ascii.case_mapping_axioms])
qed

text \<open>
  The final row is lost when it is a single quoted empty field and the file does not end
  on a row break: the flush test sees an empty field and an empty row.
\<close>

theorem final_empty_quoted_row_dropped:
  "parseCsv (js ''a'' @ [lf, dquote, dquote]) comma = parseCsv (js ''a'') comma \<and>
   parseCsv (js ''a'' @ [lf, dquote, dquote, lf]) comma =
     finish [[js ''a''], [[]]] False"
  by code_simp

end
