(* ===== verification/Uri.thy ===== *)
theory Uri
  imports Js_String
begin

text \<open>
  The URI functions of the platform the client runs on: \<open>encodeURIComponent\<close> (ECMAScript:
  code units to code points to UTF-8 to percent triplets, \<open>None\<close> for the \<open>URIError\<close> a lone
  surrogate raises), percent decoding as the server does it, and the removal of dot segments
  that a browser applies to the path of every request URL. The interface the path builders
  rely on is the locale \<open>segment_codec\<close>.
\<close>

section \<open>Code points and UTF-8\<close>

type_synonym byte = "8 word"

definition is_high :: "jchar \<Rightarrow> bool" where
  "is_high u \<longleftrightarrow> 0xD800 \<le> u \<and> u \<le> 0xDBFF"

definition is_low :: "jchar \<Rightarrow> bool" where
  "is_low u \<longleftrightarrow> 0xDC00 \<le> u \<and> u \<le> 0xDFFF"

fun code_points :: "jstr \<Rightarrow> nat list option" where
  "code_points [] = Some []"
| "code_points (u # us) =
     (if is_low u then None
      else if is_high u then
        (case us of
           [] \<Rightarrow> None
         | v # vs \<Rightarrow>
             if is_low v then
               map_option ((#) ((unat u - 0xD800) * 0x400 + (unat v - 0xDC00) + 0x10000))
                 (code_points vs)
             else None)
      else map_option ((#) (unat u)) (code_points us))"

definition byte_of :: "nat \<Rightarrow> byte" where
  "byte_of n = of_nat n"

definition utf8 :: "nat \<Rightarrow> byte list" where
  "utf8 n =
     (if n < 0x80 then [byte_of n]
      else if n < 0x800 then [byte_of (0xC0 + n div 64), byte_of (0x80 + n mod 64)]
      else if n < 0x10000 then
        [byte_of (0xE0 + n div 4096), byte_of (0x80 + n div 64 mod 64), byte_of (0x80 + n mod 64)]
      else
        [byte_of (0xF0 + n div 262144), byte_of (0x80 + n div 4096 mod 64),
         byte_of (0x80 + n div 64 mod 64), byte_of (0x80 + n mod 64)])"

text \<open>The UTF-8 bytes of a well-formed string: what a Go program sees.\<close>

definition utf8_bytes :: "jstr \<Rightarrow> byte list option" where
  "utf8_bytes s = map_option (\<lambda>ps. concat (map utf8 ps)) (code_points s)"

section \<open>encodeURIComponent\<close>

definition hex_digit :: "nat \<Rightarrow> jchar" where
  "hex_digit n = (if n < 10 then of_nat (48 + n) else of_nat (55 + n))"

definition percent_byte :: "byte \<Rightarrow> jstr" where
  "percent_byte b = [percent, hex_digit (unat b div 16), hex_digit (unat b mod 16)]"

definition unreserved :: "nat \<Rightarrow> bool" where
  "unreserved n \<longleftrightarrow> 48 \<le> n \<and> n \<le> 57 \<or> 65 \<le> n \<and> n \<le> 90 \<or> 97 \<le> n \<and> n \<le> 122 \<or>
     n \<in> set [33, 39, 40, 41, 42, 45, 46, 95, 126]"

definition encode_point :: "nat \<Rightarrow> jstr" where
  "encode_point n =
     (if unreserved n then [of_nat n] else concat (map percent_byte (utf8 n)))"

definition encodeURIComponent :: "jstr \<Rightarrow> jstr option" where
  "encodeURIComponent s = map_option (\<lambda>ps. concat (map encode_point ps)) (code_points s)"

section \<open>Percent decoding\<close>

definition hex_value :: "jchar \<Rightarrow> nat option" where
  "hex_value c =
     (if 48 \<le> c \<and> c \<le> 57 then Some (unat c - 48)
      else if 65 \<le> c \<and> c \<le> 70 then Some (unat c - 55)
      else if 97 \<le> c \<and> c \<le> 102 then Some (unat c - 87)
      else None)"

fun percent_decode :: "jstr \<Rightarrow> byte list option" where
  "percent_decode [] = Some []"
| "percent_decode (c # cs) =
     (if c = percent then
        (case cs of
           h # l # rest \<Rightarrow>
             (case (hex_value h, hex_value l) of
                (Some a, Some b) \<Rightarrow> map_option ((#) (of_nat (16 * a + b))) (percent_decode rest)
              | _ \<Rightarrow> None)
         | _ \<Rightarrow> None)
      else if c < 128 then map_option ((#) (of_nat (unat c))) (percent_decode cs)
      else None)"

lemma hex_digits_all:
  "list_all (\<lambda>n. hex_value (hex_digit n) = Some n \<and> hex_digit n \<noteq> percent \<and>
     hex_digit n \<noteq> slash \<and> hex_digit n < 128) [0..<16]"
  by code_simp

lemma hex_value_digit: "n < 16 \<Longrightarrow> hex_value (hex_digit n) = Some n"
  using hex_digits_all by (simp add: list_all_iff del: upt_Suc)

lemma hex_digit_safe: "n < 16 \<Longrightarrow> hex_digit n \<noteq> percent \<and> hex_digit n \<noteq> slash \<and> hex_digit n < 128"
  using hex_digits_all by (simp add: list_all_iff del: upt_Suc)

lemma byte_div_mod: "unat (b :: byte) div 16 < 16" "unat b mod 16 < 16"
  using unsigned_less [of b, where 'a = nat] by simp_all

lemma decode_percent_byte:
  "percent_decode (percent_byte b @ rest) = map_option ((#) b) (percent_decode rest)"
proof -
  have "of_nat (16 * (unat b div 16) + unat b mod 16) = b" by simp
  then show ?thesis
    by (simp add: percent_byte_def hex_value_digit byte_div_mod)
qed

lemma decode_percent_bytes:
  "percent_decode (concat (map percent_byte bs) @ rest) = map_option ((@) bs) (percent_decode rest)"
  by (induction bs) (auto simp: decode_percent_byte option.map_comp comp_def option.map_ident)

lemma unreserved_range: "unreserved n \<Longrightarrow> n < 128 \<and> n \<noteq> 37 \<and> n \<noteq> 47"
  by (auto simp: unreserved_def)

lemma decode_encode_point:
  "percent_decode (encode_point n @ rest) = map_option ((@) (utf8 n)) (percent_decode rest)"
proof (cases "unreserved n")
  case True
  then have n: "n < 128" "n \<noteq> 37" using unreserved_range by auto
  then have u: "unat (of_nat n :: jchar) = n"
    by (simp add: unat_of_nat take_bit_eq_mod)
  then have "(of_nat n :: jchar) \<noteq> percent" "(of_nat n :: jchar) < 128"
    using n by (auto simp: word_less_nat_alt)
  then show ?thesis
    using True n u by (cases "percent_decode rest") (simp_all add: encode_point_def utf8_def byte_of_def)
next
  case False
  then show ?thesis by (simp add: encode_point_def decode_percent_bytes)
qed

lemma percent_decode_encode:
  "encodeURIComponent s = Some e \<Longrightarrow> percent_decode (e @ rest) =
     map_option ((@) (the (utf8_bytes s))) (percent_decode rest)"
proof -
  have "percent_decode (concat (map encode_point ps) @ rest) =
      map_option ((@) (concat (map utf8 ps))) (percent_decode rest)" for ps
    by (induction ps) (auto simp: decode_encode_point option.map_comp comp_def option.map_ident)
  moreover assume "encodeURIComponent s = Some e"
  ultimately show ?thesis by (auto simp: encodeURIComponent_def utf8_bytes_def)
qed

lemma encode_point_no_slash: "slash \<notin> set (encode_point n)"
proof (cases "unreserved n")
  case True
  then have n: "n < 128" "n \<noteq> 47" using unreserved_range by auto
  then have "unat (of_nat n :: jchar) = n"
    by (simp add: unat_of_nat take_bit_eq_mod)
  then have "(of_nat n :: jchar) \<noteq> slash" using n by auto
  then show ?thesis using True by (simp add: encode_point_def)
next
  case False
  have "slash \<notin> set (percent_byte b)" for b
    using hex_digit_safe byte_div_mod by (auto simp: percent_byte_def)
  then show ?thesis using False by (auto simp: encode_point_def)
qed

lemma encode_no_slash: "encodeURIComponent s = Some e \<Longrightarrow> slash \<notin> set e"
  using encode_point_no_slash by (auto simp: encodeURIComponent_def)

section \<open>Encoding loses nothing\<close>

definition units :: "nat \<Rightarrow> jstr" where
  "units n =
     (if n < 0x10000 then [of_nat n]
      else [of_nat (0xD800 + (n - 0x10000) div 0x400), of_nat (0xDC00 + (n - 0x10000) mod 0x400)])"

lemma units_of_pair:
  assumes "is_high u" and "is_low v"
  shows "units ((unat u - 0xD800) * 0x400 + (unat v - 0xDC00) + 0x10000) = [u, v]"
proof -
  have u: "0xD800 \<le> unat u" and v: "0xDC00 \<le> unat v" "unat v \<le> 0xDFFF"
    using assms by (auto simp: is_high_def is_low_def word_le_nat_alt)
  define a where "a = unat u - 0xD800"
  define b where "b = unat v - 0xDC00"
  have ab: "0xD800 + a = unat u" "0xDC00 + b = unat v" "b < 0x400"
    using u v by (auto simp: a_def b_def)
  have "(of_nat (0xD800 + a) :: jchar) = u" "(of_nat (0xDC00 + b) :: jchar) = v"
    unfolding ab by simp_all
  moreover have "\<not> a * 0x400 + b + 0x10000 < 0x10000" by simp
  moreover have "(a * 0x400 + b + 0x10000 - 0x10000) div 0x400 = a"
      "(a * 0x400 + b + 0x10000 - 0x10000) mod 0x400 = b" using ab(3) by simp_all
  ultimately show ?thesis
    unfolding a_def [symmetric] b_def [symmetric] units_def by (simp only: if_False)
qed

lemma code_points_units: "code_points s = Some ps \<Longrightarrow> concat (map units ps) = s"
proof (induction s arbitrary: ps rule: code_points.induct)
  case (2 u us)
  show ?case
  proof (cases "is_high u")
    case True
    with "2.prems" obtain v vs qs where us: "us = v # vs" "is_low v" "\<not> is_low u"
        "code_points vs = Some qs"
        "ps = ((unat u - 0xD800) * 0x400 + (unat v - 0xDC00) + 0x10000) # qs"
      by (auto split: list.splits if_splits)
    then have "concat (map units qs) = vs" using "2.IH"(1) True by blast
    then show ?thesis using us units_of_pair [OF True us(2)] by simp
  next
    case False
    with "2.prems" obtain qs where us: "\<not> is_low u" "code_points us = Some qs" "ps = unat u # qs"
      by (auto split: if_splits)
    then have "concat (map units qs) = us" using "2.IH"(2) False by blast
    moreover have "units (unat u) = [u]"
      using unsigned_less [of u, where 'a = nat] by (simp add: units_def)
    ultimately show ?thesis using us by simp
  qed
qed simp

lemma code_points_bound: "code_points s = Some ps \<Longrightarrow> n \<in> set ps \<Longrightarrow> n < 0x110000"
proof (induction s arbitrary: ps rule: code_points.induct)
  case (2 u us)
  have u: "unat u < 0x10000" using unsigned_less [of u, where 'a = nat] by simp
  show ?case
  proof (cases "is_high u")
    case True
    with "2.prems" obtain v vs qs where us: "us = v # vs" "is_low v" "\<not> is_low u"
        "code_points vs = Some qs"
        "ps = ((unat u - 0xD800) * 0x400 + (unat v - 0xDC00) + 0x10000) # qs"
      by (auto split: list.splits if_splits)
    moreover have "unat u \<le> 0xDBFF" "unat v \<le> 0xDFFF"
      using True us(2) by (auto simp: is_high_def is_low_def word_le_nat_alt)
    ultimately show ?thesis using "2.IH"(1) "2.prems"(2) True by auto
  next
    case False
    with "2.prems" u show ?thesis using "2.IH"(2) by (fastforce split: if_splits)
  qed
qed simp

lemma unat_byte: "n < 256 \<Longrightarrow> unat (byte_of n) = n"
  by (simp add: byte_of_def unat_of_nat take_bit_eq_mod)

text \<open>The left inverse of \<open>utf8\<close>; it makes no claim about ill-formed input.\<close>

function utf8_read :: "byte list \<Rightarrow> nat list" where
  "utf8_read bs =
     (case bs of
        [] \<Rightarrow> []
      | b # r \<Rightarrow>
          (let x = unat b; c = (\<lambda>i. unat (r ! i) - 0x80)
           in if x < 0x80 then x # utf8_read r
              else if x < 0xE0 then ((x - 0xC0) * 64 + c 0) # utf8_read (drop 1 r)
              else if x < 0xF0 then ((x - 0xE0) * 4096 + c 0 * 64 + c 1) # utf8_read (drop 2 r)
              else ((x - 0xF0) * 262144 + c 0 * 4096 + c 1 * 64 + c 2) # utf8_read (drop 3 r)))"
  by pat_completeness auto
termination by (relation "measure length") auto

declare utf8_read.simps [simp del]

lemma utf8_read_1: "a < 0x80 \<Longrightarrow> utf8_read (byte_of a # rest) = a # utf8_read rest"
  by (subst utf8_read.simps) (simp add: unat_byte Let_def)

lemma utf8_read_2:
  "0xC0 \<le> a \<Longrightarrow> a < 0xE0 \<Longrightarrow> b < 256 \<Longrightarrow>
   utf8_read (byte_of a # byte_of b # rest) = ((a - 0xC0) * 64 + (b - 0x80)) # utf8_read rest"
  by (subst utf8_read.simps) (simp add: unat_byte Let_def)

lemma utf8_read_3:
  "0xE0 \<le> a \<Longrightarrow> a < 0xF0 \<Longrightarrow> b < 256 \<Longrightarrow> c < 256 \<Longrightarrow>
   utf8_read (byte_of a # byte_of b # byte_of c # rest) =
     ((a - 0xE0) * 4096 + (b - 0x80) * 64 + (c - 0x80)) # utf8_read rest"
  by (subst utf8_read.simps) (simp add: unat_byte Let_def)

lemma utf8_read_4:
  "0xF0 \<le> a \<Longrightarrow> a < 256 \<Longrightarrow> b < 256 \<Longrightarrow> c < 256 \<Longrightarrow> d < 256 \<Longrightarrow>
   utf8_read (byte_of a # byte_of b # byte_of c # byte_of d # rest) =
     ((a - 0xF0) * 262144 + (b - 0x80) * 4096 + (c - 0x80) * 64 + (d - 0x80)) # utf8_read rest"
  by (subst utf8_read.simps) (simp add: unat_byte Let_def numeral_2_eq_2)

lemma base64_digits:
  fixes n :: nat
  shows "n div 4096 * 4096 + n div 64 mod 64 * 64 + n mod 64 = n"
    and "n div 262144 * 262144 + n div 4096 mod 64 * 4096 + n div 64 mod 64 * 64 + n mod 64 = n"
proof -
  define q1 q2 q3 where "q1 = n div 64" and "q2 = q1 div 64" and "q3 = q2 div 64"
  define r0 r1 r2 where "r0 = n mod 64" and "r1 = q1 mod 64" and "r2 = q2 mod 64"
  have d: "n div 4096 = q2" "n div 262144 = q3" "n div 64 = q1"
    by (simp_all add: q1_def q2_def q3_def flip: div_mult2_eq)
  have "q1 * 64 + r0 = n" "q2 * 64 + r1 = q1" "q3 * 64 + r2 = q2"
    unfolding q1_def q2_def q3_def r0_def r1_def r2_def by (rule div_mult_mod_eq)+
  then show "n div 4096 * 4096 + n div 64 mod 64 * 64 + n mod 64 = n"
    and "n div 262144 * 262144 + n div 4096 mod 64 * 4096 + n div 64 mod 64 * 64 + n mod 64 = n"
    unfolding d r0_def [symmetric] r1_def [symmetric] r2_def [symmetric] by linarith+
qed

lemma utf8_read_point:
  assumes "n < 0x110000"
  shows "utf8_read (utf8 n @ rest) = n # utf8_read rest"
proof -
  consider "n < 0x80" | "0x80 \<le> n" "n < 0x800" | "0x800 \<le> n" "n < 0x10000" | "0x10000 \<le> n"
    by linarith
  then show ?thesis
  proof cases
    case 1
    then show ?thesis by (simp add: utf8_def utf8_read_1)
  next
    case 2
    then have "utf8 n = [byte_of (0xC0 + n div 64), byte_of (0x80 + n mod 64)]"
      by (simp add: utf8_def)
    moreover have "0xC0 + n div 64 < 0xE0" "0x80 + n mod 64 < 256" using 2 by simp_all
    ultimately show ?thesis by (simp add: utf8_read_2)
  next
    case 3
    then have "utf8 n = [byte_of (0xE0 + n div 4096), byte_of (0x80 + n div 64 mod 64),
        byte_of (0x80 + n mod 64)]"
      by (simp add: utf8_def)
    moreover have "0xE0 + n div 4096 < 0xF0" "0x80 + n div 64 mod 64 < 256" "0x80 + n mod 64 < 256"
      using 3 by simp_all
    ultimately show ?thesis by (simp add: utf8_read_3 base64_digits)
  next
    case 4
    then have "utf8 n = [byte_of (0xF0 + n div 262144), byte_of (0x80 + n div 4096 mod 64),
        byte_of (0x80 + n div 64 mod 64), byte_of (0x80 + n mod 64)]"
      by (simp add: utf8_def)
    moreover have "0xF0 + n div 262144 < 256" "0x80 + n div 4096 mod 64 < 256"
        "0x80 + n div 64 mod 64 < 256" "0x80 + n mod 64 < 256"
      using assms by simp_all
    ultimately show ?thesis by (simp add: utf8_read_4 base64_digits)
  qed
qed

lemma utf8_read_points:
  "\<forall>n\<in>set ps. n < 0x110000 \<Longrightarrow> utf8_read (concat (map utf8 ps)) = ps"
proof (induction ps)
  case Nil
  then show ?case by (subst utf8_read.simps) simp
qed (simp add: utf8_read_point)

lemma utf8_bytes_inj:
  assumes "utf8_bytes s = Some bs" and "utf8_bytes t = Some bs"
  shows "s = t"
proof -
  obtain ps qs where ps: "code_points s = Some ps" "bs = concat (map utf8 ps)"
      and qs: "code_points t = Some qs" "bs = concat (map utf8 qs)"
    using assms by (auto simp: utf8_bytes_def)
  have "utf8_read bs = ps" "utf8_read bs = qs"
    using utf8_read_points [of ps] utf8_read_points [of qs] ps qs code_points_bound by auto
  then show ?thesis using code_points_units ps(1) qs(1) by metis
qed

lemma encode_some_iff: "encodeURIComponent s = None \<longleftrightarrow> utf8_bytes s = None"
  by (simp add: encodeURIComponent_def utf8_bytes_def)

lemma encode_decodes: "encodeURIComponent s = Some e \<Longrightarrow> percent_decode e = utf8_bytes s"
  using percent_decode_encode [of s e "[]"] by (auto simp: encodeURIComponent_def utf8_bytes_def)

lemma encode_inj:
  "encodeURIComponent s = Some e \<Longrightarrow> encodeURIComponent t = Some e \<Longrightarrow> s = t"
  using encode_decodes utf8_bytes_inj encode_some_iff by (metis not_Some_eq)

lemma slash_in_utf8: "n < 0x110000 \<Longrightarrow> (47 :: byte) \<in> set (utf8 n) \<longleftrightarrow> n = 47"
proof -
  assume n: "n < 0x110000"
  have eq: "byte_of m = 47 \<longleftrightarrow> m = 47" if "m < 256" for m
  proof -
    have "byte_of m = 47 \<longleftrightarrow> unat (byte_of m) = unat (47 :: byte)"
      by (simp add: word_unat_eq_iff)
    then show ?thesis using that by (simp add: unat_byte)
  qed
  have ne: "(47 :: byte) \<noteq> byte_of m" if "0x80 \<le> m" "m < 256" for m
    using eq [of m] that by auto
  have "(47 :: byte) \<notin> set (utf8 n)" if "0x80 \<le> n"
    using that n unfolding utf8_def by (auto simp: ne less_mult_imp_div_less)
  then show ?thesis using eq [of n] by (cases "n < 0x80") (auto simp: utf8_def)
qed

section \<open>Dot segments\<close>

text \<open>
  A browser resolves every request URL before it is sent: a single-dot path segment is
  dropped and a double-dot segment removes the segment before it (the \<open>path state\<close> of the
  WHATWG URL parser for a special scheme). Percent-encoded dots count as dots.
\<close>

definition single_dot :: "jstr \<Rightarrow> bool" where
  "single_dot s \<longleftrightarrow> s = js ''.'' \<or> lower_ascii s = js ''%2e''"

definition double_dot :: "jstr \<Rightarrow> bool" where
  "double_dot s \<longleftrightarrow> s = js ''..'' \<or> lower_ascii s = js ''.%2e'' \<or>
     lower_ascii s = js ''%2e.'' \<or> lower_ascii s = js ''%2e%2e''"

text \<open>The segments kept so far are held in reverse order.\<close>

fun resolve_segments :: "jstr list \<Rightarrow> jstr list \<Rightarrow> jstr list" where
  "resolve_segments kept [] = rev kept"
| "resolve_segments kept (s # ss) =
     (if double_dot s then
        (if ss = [] then rev ([] # tl kept) else resolve_segments (tl kept) ss)
      else if single_dot s then
        (if ss = [] then rev ([] # kept) else resolve_segments kept ss)
      else resolve_segments (s # kept) ss)"

definition resolve_path :: "jstr \<Rightarrow> jstr" where
  "resolve_path p =
     (case p of
        [] \<Rightarrow> [slash]
      | c # rest \<Rightarrow> slash # join_with slash (resolve_segments [] (split_on slash rest)))"

lemma resolve_no_dots:
  "\<forall>s\<in>set ss. \<not> single_dot s \<and> \<not> double_dot s \<Longrightarrow> resolve_segments kept ss = rev kept @ ss"
  by (induction kept ss rule: resolve_segments.induct) auto

lemma resolve_append_no_dots:
  "\<forall>s\<in>set ss. \<not> single_dot s \<and> \<not> double_dot s \<Longrightarrow>
   resolve_segments kept (ss @ ts) = resolve_segments (rev ss @ kept) ts"
  by (induction kept ss rule: resolve_segments.induct) auto

lemma lower_unit_e: "lower_unit c = 101 \<Longrightarrow> c = 101 \<or> c = 69"
  unfolding lower_unit_def
  by (auto simp: word_le_nat_alt word_unat_eq_iff unat_word_ariths split: if_splits)

lemma lower_unit_triplet:
  "lower_unit c = 37 \<longleftrightarrow> c = 37" "lower_unit c = 50 \<longleftrightarrow> c = 50" "lower_unit c = 46 \<longleftrightarrow> c = 46"
  using lower_unit_fixed_iff [of 37] lower_unit_fixed_iff [of 50] lower_unit_fixed_iff [of 46]
  by auto

lemma encoded_dots_decode:
  "lower_ascii e = js ''%2e'' \<Longrightarrow> percent_decode e = Some [46]"
  "lower_ascii e = js ''.%2e'' \<Longrightarrow> percent_decode e = Some [46, 46]"
  "lower_ascii e = js ''%2e.'' \<Longrightarrow> percent_decode e = Some [46, 46]"
  "lower_ascii e = js ''%2e%2e'' \<Longrightarrow> percent_decode e = Some [46, 46]"
  by (auto simp: lower_ascii_def map_eq_Cons_conv lower_unit_triplet hex_value_def
      dest!: lower_unit_e)

text \<open>An encoded segment is a dot segment only if the segment itself was.\<close>

lemma encode_keeps_dots:
  assumes "encodeURIComponent s = Some e"
  shows "single_dot e \<longleftrightarrow> s = js ''.''" and "double_dot e \<longleftrightarrow> s = js ''..''"
proof -
  have dec: "percent_decode e = utf8_bytes s" using assms by (rule encode_decodes)
  have enc: "encodeURIComponent (js ''.'') = Some (js ''.'')"
      "encodeURIComponent (js ''..'') = Some (js ''..'')"
    by code_simp+
  have bytes: "utf8_bytes (js ''.'') = Some [46]" "utf8_bytes (js ''..'') = Some [46, 46]"
    by code_simp+
  have one: "s = js ''.''" if "percent_decode e = Some [46]"
    by (rule utf8_bytes_inj [OF _ bytes(1)]) (simp only: that dec [symmetric])
  have two: "s = js ''..''" if "percent_decode e = Some [46, 46]"
    by (rule utf8_bytes_inj [OF _ bytes(2)]) (simp only: that dec [symmetric])
  have eq: "e = js ''.'' \<longleftrightarrow> s = js ''.''" "e = js ''..'' \<longleftrightarrow> s = js ''..''"
    using assms enc encode_inj [OF assms] by (metis option.inject)+
  show "single_dot e \<longleftrightarrow> s = js ''.''"
    unfolding single_dot_def using encoded_dots_decode(1) [of e] one eq(1) by blast
  show "double_dot e \<longleftrightarrow> s = js ''..''"
    unfolding double_dot_def using encoded_dots_decode(2-4) [of e] two eq(2) by blast
qed

end
