(* ===== verification/Api_Client.thy ===== *)
theory Api_Client
  imports Uri
begin

text \<open>
  \<open>web/src/api/client.ts\<close>: the token getter and the two axios interceptors, the builders of
  object paths, the error-message extraction and the download helpers; together with the
  server's own parsing of such a path, \<open>extractBucketAndKey\<close> of \<open>internal/webui/api.go\<close> (its
  handlers fall back on it when no multiplexer has matched the path; see \<open>Gateway_Routes\<close>).
  The interface between the path builders and the component encoding is \<open>segment_codec\<close>.
\<close>

section \<open>Interceptors\<close>

text \<open>
  \<open>token && !config.headers.Authorization\<close>: both strings are tested for truthiness, so an
  empty one counts as absent.
\<close>

definition truthy :: "jstr option \<Rightarrow> bool" where
  "truthy s \<longleftrightarrow> s \<noteq> None \<and> s \<noteq> Some []"

definition bearer :: "jstr \<Rightarrow> jstr" where
  "bearer token = js ''Bearer '' @ token"

definition request_interceptor :: "jstr option \<Rightarrow> jstr option \<Rightarrow> jstr option" where
  "request_interceptor token authorization =
     (if truthy token \<and> \<not> truthy authorization then Some (bearer (the token)) else authorization)"

text \<open>
  The rejected branch of the response interceptor: the page navigates to \<open>/login\<close> (the
  result) on a 401, unless it is already on an auth route; the error is passed on in any case.
\<close>

definition response_interceptor :: "nat option \<Rightarrow> jstr \<Rightarrow> jstr option" where
  "response_interceptor status pathname =
     (if status = Some 401 then
        (if pathname \<noteq> js ''/login'' \<and> pathname \<noteq> js ''/callback'' then Some (js ''/login'')
         else None)
      else None)"

section \<open>Object paths\<close>

definition encodeKey :: "jstr \<Rightarrow> jstr option" where
  "encodeKey key = map_option (join_with slash) (those (map encodeURIComponent (split_on slash key)))"

definition api_path :: "string \<Rightarrow> jstr \<Rightarrow> jstr \<Rightarrow> jstr option" where
  "api_path route bucket key =
     (case encodeURIComponent bucket of
        None \<Rightarrow> None
      | Some eb \<Rightarrow>
          (case encodeKey key of
             None \<Rightarrow> None
           | Some ek \<Rightarrow> Some (js ''/api/v1/buckets/'' @ eb @ slash # js route @ slash # ek)))"

definition buildObjectPath :: "jstr \<Rightarrow> jstr \<Rightarrow> jstr option" where
  "buildObjectPath bucket key = api_path ''objects'' bucket key"

definition buildMetaPath :: "jstr \<Rightarrow> jstr \<Rightarrow> jstr option" where
  "buildMetaPath bucket key = api_path ''meta'' bucket key"

section \<open>Errors and downloads\<close>

record http_error =
  err_status :: nat
  err_message :: "jstr option"

text \<open>What a rejected request is rejected with; an axios error may carry no response.\<close>

datatype client_error =
  Axios_Error "http_error option"
| Plain_Error jstr

definition errorMessage :: "client_error \<Rightarrow> jstr \<Rightarrow> jstr" where
  "errorMessage err fallback =
     (case err of
        Axios_Error (Some r) \<Rightarrow>
          (if truthy (err_message r) then the (err_message r) else fallback)
      | _ \<Rightarrow> fallback)"

text \<open>
  \<open>fetchObjectBlob\<close>. The network is a parameter: from the URL and the Authorization header to
  a failure, or a status with a body.
\<close>

datatype fetch_error = URI_Error | Network_Error | Request_Failed nat

type_synonym 'blob network = "jstr \<Rightarrow> jstr option \<Rightarrow> (nat \<times> 'blob) option"

definition response_ok :: "nat \<Rightarrow> bool" where
  "response_ok status \<longleftrightarrow> 200 \<le> status \<and> status \<le> 299"

definition fetchObjectBlob ::
  "jstr option \<Rightarrow> 'blob network \<Rightarrow> jstr \<Rightarrow> jstr \<Rightarrow> fetch_error + 'blob" where
  "fetchObjectBlob token net bucket key =
     (let authorization = (if truthy token then Some (bearer (the token)) else None)
      in case buildObjectPath bucket key of
           None \<Rightarrow> Inl URI_Error
         | Some url \<Rightarrow>
             (case net url authorization of
                None \<Rightarrow> Inl Network_Error
              | Some (status, blob) \<Rightarrow>
                  if response_ok status then Inr blob else Inl (Request_Failed status)))"

text \<open>
  \<open>downloadObject\<close> as the sequence of its effects on the document. Any call may throw
  (\<open>throws\<close>); what follows \<open>try\<close> stops there, and \<open>finally\<close> still runs.
\<close>

datatype dom_call =
  Create_Object_URL | Create_Anchor | Set_Href | Set_Download jstr | Append_Child | Click
| Remove_Child | Revoke_Object_URL

fun run_until :: "(dom_call \<Rightarrow> bool) \<Rightarrow> dom_call list \<Rightarrow> dom_call list" where
  "run_until throws [] = []"
| "run_until throws (c # cs) = (if throws c then [] else c # run_until throws cs)"

definition try_body :: "jstr \<Rightarrow> dom_call list" where
  "try_body file_name = [Create_Anchor, Set_Href, Set_Download file_name, Append_Child, Click, Remove_Child]"

definition downloadObject ::
  "jstr option \<Rightarrow> 'blob network \<Rightarrow> (dom_call \<Rightarrow> bool) \<Rightarrow> jstr \<Rightarrow> jstr \<Rightarrow> jstr \<Rightarrow> dom_call list" where
  "downloadObject token net throws bucket key file_name =
     (case fetchObjectBlob token net bucket key of
        Inl _ \<Rightarrow> []
      | Inr _ \<Rightarrow>
          (if throws Create_Object_URL then []
           else Create_Object_URL # run_until throws (try_body file_name) @ [Revoke_Object_URL]))"

section \<open>The server's reading of a path\<close>

text \<open>
  \<open>strings.SplitN(s, sep, 2)\<close> on bytes: the parts around the first occurrence, if any.
\<close>

fun cut_first :: "byte list \<Rightarrow> byte list \<Rightarrow> (byte list \<times> byte list) option" where
  "cut_first sep [] = (if sep = [] then Some ([], []) else None)"
| "cut_first sep (b # bs) =
     (if prefix sep (b # bs) then Some ([], drop (length sep) (b # bs))
      else map_option (\<lambda>(x, y). (b # x, y)) (cut_first sep bs))"

definition bytes :: "string \<Rightarrow> byte list" where
  "bytes s = map of_char s"

definition extract_by :: "string \<Rightarrow> byte list \<Rightarrow> byte list \<times> byte list" where
  "extract_by sep path =
     (let pre = bytes ''/api/v1/buckets/''
      in if prefix pre path then
           (case cut_first (bytes sep) (drop (length pre) path) of
              Some (b, k) \<Rightarrow> (b, k)
            | None \<Rightarrow> ([], []))
         else ([], []))"

definition extractBucketAndKey :: "byte list \<Rightarrow> byte list \<times> byte list" where
  "extractBucketAndKey path = extract_by ''/objects/'' path"

definition extractBucketAndKeyMeta :: "byte list \<Rightarrow> byte list \<times> byte list" where
  "extractBucketAndKeyMeta path = extract_by ''/meta/'' path"

section \<open>The interface of the component encoding\<close>

lemma those_map_Some: "those (map f xs) = Some ys \<longleftrightarrow> map f xs = map Some ys"
proof (induction xs arbitrary: ys)
  case (Cons x xs)
  then show ?case by (cases ys) (auto split: option.splits)
qed auto

locale segment_codec =
  fixes enc :: "jstr \<Rightarrow> jstr option"
  assumes enc_no_slash: "enc s = Some e \<Longrightarrow> slash \<notin> set e"
    and enc_inj: "enc s = Some e \<Longrightarrow> enc t = Some e \<Longrightarrow> s = t"
begin

lemma those_ne: "those (map enc ps) = Some es \<Longrightarrow> ps \<noteq> [] \<Longrightarrow> es \<noteq> []"
  unfolding those_map_Some by auto

lemma those_images: "those (map enc ps) = Some es \<Longrightarrow> enc ` set ps = Some ` set es"
  unfolding those_map_Some by (metis set_map)

lemma those_no_slash: "those (map enc ps) = Some es \<Longrightarrow> \<forall>e\<in>set es. slash \<notin> set e"
proof
  fix e
  assume "those (map enc ps) = Some es" and "e \<in> set es"
  then have "Some e \<in> enc ` set ps" using those_images by blast
  then obtain p where "enc p = Some e" by (metis imageE)
  then show "slash \<notin> set e" by (rule enc_no_slash)
qed

lemma those_inj:
  assumes "those (map enc ps) = Some es" and "those (map enc qs) = Some es"
  shows "ps = qs"
proof (rule map_inj_on)
  show "map enc ps = map enc qs" using assms unfolding those_map_Some by simp
  have "\<exists>e. enc p = Some e" if "p \<in> set ps \<union> set qs" for p
    using assms [THEN those_images] that by blast
  then show "inj_on enc (set ps \<union> set qs)"
    by (intro inj_onI) (metis enc_inj)
qed

text \<open>A path of encoded segments after slash-free heads determines them all.\<close>

lemma joined_inj:
  assumes "those (map enc ps) = Some es" and "those (map enc qs) = Some fs"
    and "ps \<noteq> []" and "qs \<noteq> []"
    and "\<forall>h\<in>set hs. slash \<notin> set h"
    and "join_with slash (hs @ es) = join_with slash (hs @ fs)"
  shows "ps = qs"
proof -
  have es: "hs @ es \<noteq> []" "\<forall>p\<in>set (hs @ es). slash \<notin> set p"
    using those_ne [OF assms(1,3)] those_no_slash [OF assms(1)] assms(5) by auto
  have fs: "hs @ fs \<noteq> []" "\<forall>p\<in>set (hs @ fs). slash \<notin> set p"
    using those_ne [OF assms(2,4)] those_no_slash [OF assms(2)] assms(5) by auto
  have "split_on slash (join_with slash (hs @ es)) = hs @ es"
    using es by (rule split_join)
  moreover have "split_on slash (join_with slash (hs @ fs)) = hs @ fs"
    using fs by (rule split_join)
  ultimately have "hs @ es = hs @ fs" unfolding assms(6) by (rule trans [OF sym])
  then have "es = fs" by simp
  then show ?thesis using assms(1,2) those_inj by blast
qed

end

interpretation uri: segment_codec encodeURIComponent
  by unfold_locales (auto dest: encode_no_slash encode_inj)

section \<open>Object paths as segments\<close>

definition route_parts :: "string \<Rightarrow> jstr \<Rightarrow> jstr \<Rightarrow> jstr list" where
  "route_parts route bucket key = bucket # js route # split_on slash key"

abbreviation api_head :: "jstr list" where
  "api_head \<equiv> [js ''api'', js ''v1'', js ''buckets'']"

lemma encode_routes:
  "encodeURIComponent (js ''objects'') = Some (js ''objects'')"
  "encodeURIComponent (js ''meta'') = Some (js ''meta'')"
  by code_simp+

lemma api_path_segments:
  assumes "encodeURIComponent (js route) = Some (js route)"
  shows "api_path route b k = Some p \<longleftrightarrow>
    (\<exists>es. those (map encodeURIComponent (route_parts route b k)) = Some es \<and>
       p = slash # join_with slash (api_head @ es))"
proof -
  have join: "slash # join_with slash (api_head @ eb # js route # es) =
      js ''/api/v1/buckets/'' @ eb @ slash # js route @ slash # join_with slash es"
    if "es \<noteq> []" for eb es
    using that by (simp add: join_with_Cons)
  have ne: "es \<noteq> []" if "those (map encodeURIComponent (split_on slash k)) = Some es" for es
    using uri.those_ne [OF that] by simp
  show ?thesis
    unfolding api_path_def encodeKey_def route_parts_def
    using assms ne join by (auto split: option.splits)
qed

lemma api_path_inj:
  assumes "encodeURIComponent (js r) = Some (js r)" and "encodeURIComponent (js r') = Some (js r')"
    and "api_path r b k = Some p" and "api_path r' b' k' = Some p"
  shows "js r = js r' \<and> b = b' \<and> k = k'"
proof -
  obtain es where es: "those (map encodeURIComponent (route_parts r b k)) = Some es"
      "p = slash # join_with slash (api_head @ es)"
    using assms(3) unfolding api_path_segments [OF assms(1)] by blast
  obtain fs where fs: "those (map encodeURIComponent (route_parts r' b' k')) = Some fs"
      "p = slash # join_with slash (api_head @ fs)"
    using assms(4) unfolding api_path_segments [OF assms(2)] by blast
  have "route_parts r b k = route_parts r' b' k'"
  proof (rule uri.joined_inj [OF es(1) fs(1)])
    show "join_with slash (api_head @ es) = join_with slash (api_head @ fs)"
      using es(2) fs(2) by blast
  qed (simp_all add: route_parts_def)
  then have "b = b'" "js r = js r'" "split_on slash k = split_on slash k'"
    by (simp_all add: route_parts_def)
  then show ?thesis by (metis join_split)
qed

section \<open>Decoding a path\<close>

lemma percent_decode_append:
  "percent_decode s = Some bs \<Longrightarrow> percent_decode (s @ rest) = map_option ((@) bs) (percent_decode rest)"
proof (induction s arbitrary: bs rule: percent_decode.induct)
  case 1
  then show ?case by (simp add: option.map_ident)
next
  case (2 c cs)
  show ?case
  proof (cases "c = percent")
    case True
    then obtain h l r a b bs' where "cs = h # l # r" "hex_value h = Some a" "hex_value l = Some b"
        "percent_decode r = Some bs'" "bs = of_nat (16 * a + b) # bs'"
      using "2.prems" by (auto split: list.splits option.splits)
    then show ?thesis
      using True "2.IH"(1) by (cases "percent_decode rest") auto
  next
    case False
    then obtain bs' where "c < 128" "percent_decode cs = Some bs'" "bs = of_nat (unat c) # bs'"
      using "2.prems" by (auto split: if_splits)
    then show ?thesis
      using False "2.IH"(2) by (cases "percent_decode rest") auto
  qed
qed

lemma code_points_sep:
  "code_points s = Some ps \<Longrightarrow> code_points t = Some qs \<Longrightarrow>
   code_points (s @ slash # t) = Some (ps @ 47 # qs)"
proof (induction s arbitrary: ps rule: code_points.induct)
  case 1
  then show ?case by (simp add: is_low_def is_high_def)
next
  case (2 u us)
  show ?case
  proof (cases "is_high u")
    case True
    then obtain v vs rs where "us = v # vs" "is_low v" "\<not> is_low u" "code_points vs = Some rs"
        "ps = ((unat u - 0xD800) * 0x400 + (unat v - 0xDC00) + 0x10000) # rs"
      using "2.prems"(1) by (auto split: list.splits if_splits)
    then show ?thesis using True "2.IH"(1) "2.prems"(2) by simp
  next
    case False
    then obtain rs where "\<not> is_low u" "code_points us = Some rs" "ps = unat u # rs"
      using "2.prems"(1) by (auto split: if_splits)
    then show ?thesis using False "2.IH"(2) "2.prems"(2) by simp
  qed
qed

lemma utf8_bytes_sep:
  "utf8_bytes s = Some a \<Longrightarrow> utf8_bytes t = Some b \<Longrightarrow> utf8_bytes (s @ slash # t) = Some (a @ 47 # b)"
  by (auto simp: utf8_bytes_def code_points_sep utf8_def byte_of_def)

lemma encode_defined: "encodeURIComponent s = Some e \<Longrightarrow> \<exists>b. utf8_bytes s = Some b"
  using encode_some_iff by (metis option.distinct(1) option.exhaust)

lemma joined_decodes:
  "ps \<noteq> [] \<Longrightarrow> those (map encodeURIComponent ps) = Some es \<Longrightarrow>
   \<exists>b. utf8_bytes (join_with slash ps) = Some b \<and> percent_decode (join_with slash es) = Some b"
proof (induction ps arbitrary: es rule: list_nonempty_induct)
  case (single p)
  then obtain e where "encodeURIComponent p = Some e" "es = [e]"
    by (auto split: option.splits)
  then show ?case using encode_decodes encode_defined by fastforce
next
  case (cons p ps)
  from cons.prems obtain e fs where e: "encodeURIComponent p = Some e" "es = e # fs"
      and fs: "those (map encodeURIComponent ps) = Some fs"
    by (auto split: option.splits)
  obtain b where b: "utf8_bytes (join_with slash ps) = Some b"
      "percent_decode (join_with slash fs) = Some b"
    using cons.IH [OF fs] by blast
  obtain a where a: "utf8_bytes p = Some a" using e encode_defined by blast
  have "fs \<noteq> []" using uri.those_ne [OF fs cons.hyps(1)] .
  then have "percent_decode (join_with slash es) = Some (a @ 47 # b)"
    using e a b percent_decode_encode [OF e(1), of "slash # join_with slash fs"]
    by (simp add: join_with_Cons)
  moreover have "utf8_bytes (join_with slash (p # ps)) = Some (a @ 47 # b)"
    using utf8_bytes_sep [OF a b(1)] cons.hyps(1) by (simp add: join_with_Cons)
  ultimately show ?case by blast
qed

lemma encodeKey_decodes:
  "encodeKey k = Some ek \<Longrightarrow> \<exists>b. utf8_bytes k = Some b \<and> percent_decode ek = Some b"
  using joined_decodes [of "split_on slash k"] by (auto simp: encodeKey_def)

lemma slash_not_in_utf8: "utf8_bytes s = Some b \<Longrightarrow> slash \<notin> set s \<Longrightarrow> (47 :: byte) \<notin> set b"
proof -
  assume "utf8_bytes s = Some b" and s: "slash \<notin> set s"
  then obtain ps where ps: "code_points s = Some ps" "b = concat (map utf8 ps)"
    by (auto simp: utf8_bytes_def)
  have "47 \<notin> set ps"
  proof
    assume "47 \<in> set ps"
    then have "set (units 47) \<subseteq> set (concat (map units ps))" by auto
    then have "slash \<in> set s"
      using code_points_units [OF ps(1)] by (simp add: units_def)
    with s show False ..
  qed
  then show ?thesis
    using ps code_points_bound [OF ps(1)] slash_in_utf8 by fastforce
qed

lemma cut_first_found:
  assumes "sep = c # cs" and "c \<notin> set b"
  shows "cut_first sep (b @ sep @ k) = Some (b, k)"
  using assms(2)
proof (induction b)
  case Nil
  have "cut_first sep (sep @ k) = Some ([], drop (length sep) (sep @ k))"
    using assms(1) by simp
  then show ?case by simp
next
  case (Cons x b)
  then have "\<not> prefix sep (x # b @ sep @ k)" using assms(1) by simp
  then show ?case using Cons by simp
qed

lemma extract_by_built:
  assumes "slash \<notin> set b" and "api_path route b k = Some p"
    and "percent_decode (slash # js route @ [slash]) = Some (bytes sep)" and "bytes sep = 47 # cs"
  shows "\<exists>path bb kb. percent_decode p = Some path \<and> utf8_bytes b = Some bb \<and> utf8_bytes k = Some kb \<and>
    extract_by sep path = (bb, kb)"
proof -
  obtain eb ek where eb: "encodeURIComponent b = Some eb" and ek: "encodeKey k = Some ek"
      and p: "p = js ''/api/v1/buckets/'' @ eb @ (slash # js route @ [slash]) @ ek"
    using assms(2) by (auto simp: api_path_def split: option.splits)
  obtain bb where bb: "utf8_bytes b = Some bb" using encode_defined eb by blast
  obtain kb where kb: "utf8_bytes k = Some kb" "percent_decode ek = Some kb"
    using encodeKey_decodes ek by blast
  have pre: "percent_decode (js ''/api/v1/buckets/'') = Some (bytes ''/api/v1/buckets/'')"
    by code_simp
  have "percent_decode eb = Some bb" using encode_decodes eb bb by simp
  then have "percent_decode p = Some (bytes ''/api/v1/buckets/'' @ bb @ bytes sep @ kb)"
    unfolding p by (simp only: percent_decode_append pre assms(3) kb option.map)
  moreover have "cut_first (bytes sep) (bb @ bytes sep @ kb) = Some (bb, kb)"
    using slash_not_in_utf8 [OF bb assms(1)] assms(4) by (intro cut_first_found) simp_all
  ultimately show ?thesis
    using bb kb by (simp add: extract_by_def Let_def)
qed

section \<open>What the browser requests\<close>

definition dot_name :: "jstr \<Rightarrow> bool" where
  "dot_name s \<longleftrightarrow> s = js ''.'' \<or> s = js ''..''"

lemma those_append:
  "those (map f (xs @ ys)) = Some zs \<Longrightarrow>
   \<exists>as bs. zs = as @ bs \<and> those (map f xs) = Some as \<and> those (map f ys) = Some bs"
  unfolding those_map_Some by (auto simp: append_eq_map_conv)

lemma api_head_no_dots: "\<forall>s\<in>set api_head. \<not> single_dot s \<and> \<not> double_dot s \<and> slash \<notin> set s"
  by (simp add: single_dot_def double_dot_def lower_unit_def)

lemma encoded_no_dots:
  assumes "those (map encodeURIComponent ps) = Some es" and "\<forall>s\<in>set ps. \<not> dot_name s"
  shows "\<forall>e\<in>set es. \<not> single_dot e \<and> \<not> double_dot e"
proof
  fix e
  assume "e \<in> set es"
  then have "Some e \<in> encodeURIComponent ` set ps" using uri.those_images [OF assms(1)] by simp
  then obtain s where "s \<in> set ps" "encodeURIComponent s = Some e" by (metis imageE)
  then show "\<not> single_dot e \<and> \<not> double_dot e"
    using assms(2) encode_keeps_dots unfolding dot_name_def by blast
qed

lemma split_api_path:
  assumes "those (map encodeURIComponent ps) = Some es" and "ps \<noteq> []"
  shows "split_on slash (join_with slash (api_head @ es)) = api_head @ es"
  using uri.those_no_slash [OF assms(1)] api_head_no_dots by (intro split_join) auto

lemma route_not_dot: "encodeURIComponent (js r) = Some (js r) \<Longrightarrow> r \<in> {''objects'', ''meta''} \<Longrightarrow>
   \<not> dot_name (js r)"
  by (auto simp: dot_name_def)

lemma built_path_kept:
  assumes "encodeURIComponent (js route) = Some (js route)" and "\<not> dot_name (js route)"
    and "api_path route b k = Some p" and "\<not> dot_name b" and "\<forall>s\<in>set (split_on slash k). \<not> dot_name s"
  shows "resolve_path p = p"
proof -
  obtain es where es: "those (map encodeURIComponent (route_parts route b k)) = Some es"
      and p: "p = slash # join_with slash (api_head @ es)"
    using assms(3) unfolding api_path_segments [OF assms(1)] by blast
  have "\<forall>s\<in>set (route_parts route b k). \<not> dot_name s"
    using assms(2,4,5) by (simp add: route_parts_def)
  then have "\<forall>e\<in>set (api_head @ es). \<not> single_dot e \<and> \<not> double_dot e"
    using encoded_no_dots [OF es] api_head_no_dots by auto
  then have "resolve_segments [] (api_head @ es) = api_head @ es"
    by (subst resolve_no_dots) simp_all
  moreover have "split_on slash (join_with slash (api_head @ es)) = api_head @ es"
    using split_api_path [OF es] by (simp add: route_parts_def)
  ultimately show ?thesis
    unfolding p resolve_path_def by (simp only: list.case)
qed

text \<open>
  What the fallback reads of a path the browser was given: resolved, decoded, and cut at the
  separator of its route.
\<close>

definition server_object :: "jstr \<Rightarrow> (byte list \<times> byte list) option" where
  "server_object p = map_option extractBucketAndKey (percent_decode (resolve_path p))"

definition server_meta :: "jstr \<Rightarrow> (byte list \<times> byte list) option" where
  "server_meta p = map_option extractBucketAndKeyMeta (percent_decode (resolve_path p))"

lemma route_separators:
  "percent_decode (slash # js ''objects'' @ [slash]) = Some (bytes ''/objects/'')"
  "percent_decode (slash # js ''meta'' @ [slash]) = Some (bytes ''/meta/'')"
  "bytes ''/objects/'' = 47 # bytes ''objects/''" "bytes ''/meta/'' = 47 # bytes ''meta/''"
  by code_simp+

lemma requests_reach:
  assumes "slash \<notin> set b" and "\<not> dot_name b" and "\<forall>s\<in>set (split_on slash k). \<not> dot_name s"
  shows "buildObjectPath b k = Some p \<Longrightarrow>
      \<exists>bb kb. utf8_bytes b = Some bb \<and> utf8_bytes k = Some kb \<and> server_object p = Some (bb, kb)"
    and "buildMetaPath b k = Some p \<Longrightarrow>
      \<exists>bb kb. utf8_bytes b = Some bb \<and> utf8_bytes k = Some kb \<and> server_meta p = Some (bb, kb)"
proof -
  assume "buildObjectPath b k = Some p"
  then have path: "api_path ''objects'' b k = Some p" by (simp add: buildObjectPath_def)
  have "resolve_path p = p"
    by (rule built_path_kept [OF encode_routes(1) _ path assms(2,3)]) (simp add: dot_name_def)
  then show "\<exists>bb kb. utf8_bytes b = Some bb \<and> utf8_bytes k = Some kb \<and> server_object p = Some (bb, kb)"
    using extract_by_built [OF assms(1) path route_separators(1,3)]
    by (auto simp: server_object_def extractBucketAndKey_def)
next
  assume "buildMetaPath b k = Some p"
  then have path: "api_path ''meta'' b k = Some p" by (simp add: buildMetaPath_def)
  have "resolve_path p = p"
    by (rule built_path_kept [OF encode_routes(2) _ path assms(2,3)]) (simp add: dot_name_def)
  then show "\<exists>bb kb. utf8_bytes b = Some bb \<and> utf8_bytes k = Some kb \<and> server_meta p = Some (bb, kb)"
    using extract_by_built [OF assms(1) path route_separators(2,4)]
    by (auto simp: server_meta_def extractBucketAndKeyMeta_def)
qed

section \<open>Properties\<close>

text \<open>
  The path of an object determines its bucket and its key, and object paths and metadata
  paths never coincide, whatever characters the names contain.
\<close>

theorem object_paths_unambiguous:
  assumes "buildObjectPath b k = Some p"
  shows "(buildObjectPath b' k' = Some p \<longleftrightarrow> b' = b \<and> k' = k) \<and> buildMetaPath b' k' \<noteq> Some p"
proof
  show "buildObjectPath b' k' = Some p \<longleftrightarrow> b' = b \<and> k' = k"
    using assms api_path_inj [OF encode_routes(1) encode_routes(1)]
    unfolding buildObjectPath_def by blast
  have "js ''objects'' \<noteq> js ''meta''" unfolding js_inject by simp
  then show "buildMetaPath b' k' \<noteq> Some p"
    using assms api_path_inj [OF encode_routes(1) encode_routes(2)]
    unfolding buildObjectPath_def buildMetaPath_def by blast
qed

theorem object_paths_unambiguous_witness:
  "buildObjectPath (js ''b'') (js ''x/objects/y'') \<noteq> buildObjectPath (js ''b/objects/x'') (js ''y'')"
proof -
  have built: "buildObjectPath (js ''b'') (js ''x/objects/y'') =
      Some (js ''/api/v1/buckets/b/objects/x/objects/y'')" by code_simp
  have "js ''b/objects/x'' \<noteq> js ''b''" unfolding js_inject by simp
  then show ?thesis
    using object_paths_unambiguous [OF built, of "js ''b/objects/x''" "js ''y''"] built by metis
qed

text \<open>
  The server's own parsing of a path, the fallback of its handlers for requests that did not
  come through the multiplexer, recovers exactly the UTF-8 bytes of the bucket and key the client
  encoded, on the object route and on the metadata route, for every bucket name without a slash and
  every key, including keys that contain \<open>/objects/\<close> or \<open>/meta/\<close> themselves.
\<close>

theorem server_reads_client_path:
  assumes "slash \<notin> set b"
  shows "(buildObjectPath b k = Some p \<longrightarrow>
      (\<exists>path bb kb. percent_decode p = Some path \<and> utf8_bytes b = Some bb \<and> utf8_bytes k = Some kb \<and>
        extractBucketAndKey path = (bb, kb))) \<and>
    (buildMetaPath b k = Some p \<longrightarrow>
      (\<exists>path bb kb. percent_decode p = Some path \<and> utf8_bytes b = Some bb \<and> utf8_bytes k = Some kb \<and>
        extractBucketAndKeyMeta path = (bb, kb)))"
proof -
  show ?thesis
    unfolding buildObjectPath_def buildMetaPath_def extractBucketAndKey_def
      extractBucketAndKeyMeta_def
    using extract_by_built [OF assms _ route_separators(1,3)] extract_by_built [OF assms _ route_separators(2,4)]
    by blast
qed

theorem server_reads_client_path_witness:
  "\<exists>path. percent_decode (js ''/api/v1/buckets/b/objects/a%20b/objects/c'') = Some path \<and>
     extractBucketAndKey path = (bytes ''b'', bytes ''a b/objects/c'')"
proof -
  have b: "slash \<notin> set (js ''b'')" by simp
  have "buildObjectPath (js ''b'') (js ''a b/objects/c'') =
      Some (js ''/api/v1/buckets/b/objects/a%20b/objects/c'')" by code_simp
  moreover have "utf8_bytes (js ''b'') = Some (bytes ''b'')"
      "utf8_bytes (js ''a b/objects/c'') = Some (bytes ''a b/objects/c'')" by code_simp+
  ultimately show ?thesis
    using server_reads_client_path [OF b, of "js ''a b/objects/c''"
        "js ''/api/v1/buckets/b/objects/a%20b/objects/c''"]
    by (simp only: option.inject) blast
qed

text \<open>
  For a bucket and a key without dot segments, the browser requests the path that was
  built: resolving the URL leaves it unchanged.
\<close>

theorem browser_keeps_object_path:
  assumes "buildObjectPath b k = Some p"
    and "\<not> dot_name b" and "\<forall>s\<in>set (split_on slash k). \<not> dot_name s"
  shows "resolve_path p = p"
  using assms by (intro built_path_kept [OF encode_routes(1)]) (simp_all add: buildObjectPath_def dot_name_def)

theorem browser_keeps_object_path_witness:
  "resolve_path (js ''/api/v1/buckets/b/objects/a/..b/c%20d'') = js ''/api/v1/buckets/b/objects/a/..b/c%20d''"
proof (rule browser_keeps_object_path)
  show "buildObjectPath (js ''b'') (js ''a/..b/c d'') = Some (js ''/api/v1/buckets/b/objects/a/..b/c%20d'')"
    by code_simp
qed (simp_all add: dot_name_def)

lemma encode_around_dots:
  assumes "those (map encodeURIComponent (xs @ [js ''..'', js ''..''] @ ys)) = Some es"
    and "those (map encodeURIComponent ys) = Some fs"
  shows "\<exists>hs. those (map encodeURIComponent xs) = Some hs \<and> es = hs @ [js ''..'', js ''..''] @ fs"
proof -
  have dots: "those (map encodeURIComponent [js ''..'', js ''..'']) = Some [js ''..'', js ''..'']"
    by code_simp
  obtain hs rs where hs: "es = hs @ rs" "those (map encodeURIComponent xs) = Some hs"
      and rs: "those (map encodeURIComponent ([js ''..'', js ''..''] @ ys)) = Some rs"
    using those_append [OF assms(1)] by blast
  obtain ds fs' where "rs = ds @ fs'"
      "those (map encodeURIComponent [js ''..'', js ''..'']) = Some ds"
      "those (map encodeURIComponent ys) = Some fs'"
    using those_append [OF rs] by blast
  then have "rs = [js ''..'', js ''..''] @ fs" unfolding dots assms(2) option.inject by blast
  then show ?thesis using hs by blast
qed

text \<open>
  Dot segments in a key are not escaped, so the request for the key \<open>../../B/objects/K\<close> of
  one bucket is, after the browser has resolved it, the request for the key \<open>K\<close> of bucket
  \<open>B\<close>: the object addressed is not the object shown.
\<close>

theorem dot_segments_reach_other_bucket:
  assumes "buildObjectPath b (js ''../../'' @ b' @ js ''/objects/'' @ k') = Some p"
    and "buildObjectPath b' k' = Some p'"
    and "\<not> dot_name b" and "\<not> dot_name b'" and "slash \<notin> set b'"
    and "\<forall>s\<in>set (split_on slash k'). \<not> dot_name s"
  shows "resolve_path p = p'"
proof -
  let ?key = "js ''../../'' @ b' @ js ''/objects/'' @ k'"
  have "split_on slash ?key = js ''..'' # js ''..'' # b' # js ''objects'' # split_on slash k'"
    using assms(5) split_on_append_sep [of slash b' "js ''objects/'' @ k'"] by simp
  then have parts: "route_parts ''objects'' b ?key =
      [b, js ''objects''] @ [js ''..'', js ''..''] @ route_parts ''objects'' b' k'"
    by (simp add: route_parts_def)
  obtain es where es: "those (map encodeURIComponent (route_parts ''objects'' b ?key)) = Some es"
      and p: "p = slash # join_with slash (api_head @ es)"
    using assms(1) unfolding buildObjectPath_def api_path_segments [OF encode_routes(1)] by blast
  obtain fs where fs: "those (map encodeURIComponent (route_parts ''objects'' b' k')) = Some fs"
      and p': "p' = slash # join_with slash (api_head @ fs)"
    using assms(2) unfolding buildObjectPath_def api_path_segments [OF encode_routes(1)] by blast
  from encode_around_dots [OF es [unfolded parts] fs]
  obtain hs where hs: "those (map encodeURIComponent [b, js ''objects'']) = Some hs"
      and es': "es = hs @ [js ''..'', js ''..''] @ fs"
    by blast
  have "\<forall>s\<in>set [b, js ''objects'']. \<not> dot_name s" using assms(3) by (simp add: dot_name_def)
  then have clean_hs: "\<forall>e\<in>set (api_head @ hs). \<not> single_dot e \<and> \<not> double_dot e"
    using encoded_no_dots [OF hs] api_head_no_dots by auto
  have "\<forall>s\<in>set (route_parts ''objects'' b' k'). \<not> dot_name s"
    using assms(4,6) by (simp add: route_parts_def dot_name_def)
  then have clean_fs: "\<forall>e\<in>set fs. \<not> single_dot e \<and> \<not> double_dot e"
    using encoded_no_dots [OF fs] by simp
  have len: "length hs = 2" using hs unfolding those_map_Some by (auto dest: arg_cong [of _ _ length])
  have ne: "fs \<noteq> []" using uri.those_ne [OF fs] by (simp add: route_parts_def)
  have "resolve_segments [] ((api_head @ hs) @ [js ''..'', js ''..''] @ fs) =
      resolve_segments (rev (api_head @ hs)) ([js ''..'', js ''..''] @ fs)"
    using resolve_append_no_dots [OF clean_hs, of "[]"] by simp
  also have "\<dots> = resolve_segments (tl (tl (rev (api_head @ hs)))) fs"
    using ne by (simp add: double_dot_def)
  also have "tl (tl (rev (api_head @ hs))) = rev api_head"
    using len by (auto simp: numeral_2_eq_2 length_Suc_conv)
  also have "resolve_segments (rev api_head) fs = api_head @ fs"
    using resolve_no_dots [OF clean_fs, of "rev api_head"] by simp
  finally have "resolve_segments [] (api_head @ es) = api_head @ fs" unfolding es' by simp
  then show ?thesis
    unfolding p p' resolve_path_def using split_api_path [OF es] parts by simp
qed

theorem dot_segments_reach_other_bucket_witness:
  "resolve_path (js ''/api/v1/buckets/inbox/objects/../../payroll/objects/2024.csv'') =
     js ''/api/v1/buckets/payroll/objects/2024.csv''"
proof (rule dot_segments_reach_other_bucket)
  show "buildObjectPath (js ''inbox'') (js ''../../'' @ js ''payroll'' @ js ''/objects/'' @ js ''2024.csv'') =
      Some (js ''/api/v1/buckets/inbox/objects/../../payroll/objects/2024.csv'')" by code_simp
  show "buildObjectPath (js ''payroll'') (js ''2024.csv'') =
      Some (js ''/api/v1/buckets/payroll/objects/2024.csv'')" by code_simp
qed (simp_all add: dot_name_def)

text \<open>
  A download never leaks its object URL: whichever call of the document throws, the URL is
  revoked exactly as often as it was created, nothing follows the revocation, and nothing is
  created unless the object was fetched.
\<close>

theorem download_releases_object_url:
  "let calls = downloadObject token net throws b k file_name
   in count_list calls Create_Object_URL = count_list calls Revoke_Object_URL \<and>
      (calls \<noteq> [] \<longrightarrow> last calls = Revoke_Object_URL) \<and>
      (Click \<in> set calls \<longrightarrow> (\<exists>blob. fetchObjectBlob token net b k = Inr blob))"
proof -
  have body: "set (run_until throws cs) \<subseteq> set cs" for cs
    by (induction cs) auto
  have "Create_Object_URL \<notin> set (run_until throws (try_body file_name))"
      "Revoke_Object_URL \<notin> set (run_until throws (try_body file_name))"
    using body [of "try_body file_name"] by (auto simp: try_body_def)
  then show ?thesis
    by (auto simp: downloadObject_def Let_def split: sum.splits)
qed

theorem download_releases_object_url_witness:
  "last (downloadObject (Some (js ''t'')) (\<lambda>_ _. Some (200, ())) (\<lambda>c. c = Click) (js ''b'') (js ''k'') (js ''k'')) =
     Revoke_Object_URL"
proof -
  have "downloadObject (Some (js ''t'')) (\<lambda>_ _. Some (200, ())) (\<lambda>c. c = Click) (js ''b'') (js ''k'') (js ''k'') \<noteq> []"
    by code_simp
  then show ?thesis
    using download_releases_object_url [of "Some (js ''t'')" "\<lambda>_ _. Some (200, ())" "\<lambda>c. c = Click"
        "js ''b''" "js ''k''" "js ''k''"] unfolding Let_def by blast
qed

end
