(* ===== verification/Reachability.thy ===== *)
theory Reachability
  imports Prelude
begin

text \<open>
  The frame the stateful components share: the states a step relation reaches from a start
  state, and the interface of an invariant (\<open>transition_invariant\<close>): it holds at the start
  and every step keeps it, so it holds wherever the component can get to.
\<close>

inductive reach :: "'s \<Rightarrow> ('s \<Rightarrow> 's \<Rightarrow> bool) \<Rightarrow> 's \<Rightarrow> bool"
  for s0 :: 's and step :: "'s \<Rightarrow> 's \<Rightarrow> bool" where
  reach_start: "reach s0 step s0"
| reach_next: "reach s0 step s \<Longrightarrow> step s s' \<Longrightarrow> reach s0 step s'"

lemma reach_trans: "reach s1 step s2 \<Longrightarrow> reach s0 step s1 \<Longrightarrow> reach s0 step s2"
  by (induction rule: reach.induct) (auto intro: reach.intros)

lemma reach_one: "step s0 s \<Longrightarrow> reach s0 step s"
  by (rule reach_next [OF reach_start])

locale transition_invariant =
  fixes s0 :: "'s"
    and step :: "'s \<Rightarrow> 's \<Rightarrow> bool"
    and inv :: "'s \<Rightarrow> bool"
  assumes inv_start: "inv s0"
    and inv_step: "step s s' \<Longrightarrow> inv s \<Longrightarrow> inv s'"
begin

lemma always: "reach s0 step s \<Longrightarrow> inv s"
  by (induction rule: reach.induct) (simp_all add: inv_start inv_step)

lemma until: "reach s step s' \<Longrightarrow> inv s \<Longrightarrow> inv s'"
  by (induction rule: reach.induct) (simp_all add: inv_step)

end

end
