(* ===== verification/Browser_Store.thy ===== *)
theory Browser_Store
  imports Api_Client Reachability
begin

text \<open>
  \<open>web/src/store/browser.ts\<close>: the object listing of the current bucket and folder. Each
  asynchronous action is split at its \<open>await\<close>: the part before it changes the store and
  leaves a pending request that carries what the continuation has captured, the part after
  it runs when the reply is delivered. A store with its pending requests is a \<open>br_sys\<close>, and
  replies may be delivered in any order.
\<close>

section \<open>State\<close>

record object_info =
  obj_key :: jstr
  obj_size :: int
  obj_last_modified :: jstr
  obj_etag :: jstr
  obj_is_prefix :: bool

record list_response =
  resp_objects :: "object_info list option"
  resp_prefixes :: "jstr list option"
  resp_next_page_token :: "jstr option"
  resp_truncated :: "bool option"

record browser_state =
  br_bucket :: jstr
  br_prefix :: jstr
  br_objects :: "object_info list"
  br_prefixes :: "jstr list"
  br_loading :: bool
  br_error :: "jstr option"
  br_next :: "jstr option"
  br_truncated :: bool

definition br_init :: browser_state where
  "br_init = \<lparr>br_bucket = [], br_prefix = [], br_objects = [], br_prefixes = [],
     br_loading = False, br_error = None, br_next = None, br_truncated = False\<rparr>"

text \<open>
  A request in flight: its query, and for \<open>loadMore\<close> the listing captured before the call.
\<close>

datatype list_pending =
  Fetch_Pending jstr jstr
| More_Pending jstr jstr jstr "object_info list" "jstr list"

text \<open>The GET request a pending action has sent: its URL and its query parameters.\<close>

record list_request =
  rq_url :: jstr
  rq_prefix :: jstr
  rq_delimiter :: jstr
  rq_page_token :: "jstr option"

definition list_url :: "jstr \<Rightarrow> jstr option" where
  "list_url bucket =
     map_option (\<lambda>eb. js ''/api/v1/buckets/'' @ eb @ js ''/objects'') (encodeURIComponent bucket)"

definition request_of :: "list_pending \<Rightarrow> list_request option" where
  "request_of p =
     (case p of
        Fetch_Pending b q \<Rightarrow>
          map_option (\<lambda>u. \<lparr>rq_url = u, rq_prefix = q, rq_delimiter = [slash],
            rq_page_token = None\<rparr>) (list_url b)
      | More_Pending b q tok _ _ \<Rightarrow>
          map_option (\<lambda>u. \<lparr>rq_url = u, rq_prefix = q, rq_delimiter = [slash],
            rq_page_token = Some tok\<rparr>) (list_url b))"

type_synonym br_sys = "browser_state \<times> list_pending list"

section \<open>Actions\<close>

definition nullish :: "'a option \<Rightarrow> 'a \<Rightarrow> 'a" where
  "nullish x d = (case x of Some v \<Rightarrow> v | None \<Rightarrow> d)"

definition setBucket :: "jstr \<Rightarrow> browser_state \<Rightarrow> browser_state" where
  "setBucket bucket st =
     st\<lparr>br_bucket := bucket, br_prefix := [], br_objects := [], br_prefixes := []\<rparr>"

definition setPrefix :: "jstr \<Rightarrow> browser_state \<Rightarrow> browser_state" where
  "setPrefix pfx st = st\<lparr>br_prefix := pfx\<rparr>"

text \<open>
  \<open>fetchObjects\<close> up to its request. Building the URL can throw (\<open>URIError\<close>); that is inside
  the \<open>try\<close>, so it ends in the \<open>catch\<close> with no request sent.
\<close>

definition fetch_failed :: "client_error \<Rightarrow> browser_state \<Rightarrow> browser_state" where
  "fetch_failed err st =
     st\<lparr>br_error := Some (errorMessage err (js ''Failed to load objects'')), br_loading := False\<rparr>"

definition fetchObjects :: "jstr \<Rightarrow> jstr \<Rightarrow> br_sys \<Rightarrow> br_sys" where
  "fetchObjects bucket pfx sys =
     (let (st, pend) = sys;
          st1 = st\<lparr>br_loading := True, br_error := None, br_bucket := bucket, br_prefix := pfx,
                   br_objects := [], br_prefixes := [], br_next := None, br_truncated := False\<rparr>
      in case list_url bucket of
           None \<Rightarrow> (fetch_failed (Plain_Error (js ''URI malformed'')) st1, pend)
         | Some _ \<Rightarrow> (st1, pend @ [Fetch_Pending bucket pfx]))"

definition fetch_reply :: "client_error + list_response \<Rightarrow> browser_state \<Rightarrow> browser_state" where
  "fetch_reply reply st =
     (case reply of
        Inr data \<Rightarrow>
          st\<lparr>br_objects := nullish (resp_objects data) [],
             br_prefixes := nullish (resp_prefixes data) [],
             br_next := resp_next_page_token data,
             br_truncated := nullish (resp_truncated data) False,
             br_loading := False\<rparr>
      | Inl err \<Rightarrow> fetch_failed err st)"

definition more_failed :: "client_error \<Rightarrow> browser_state \<Rightarrow> browser_state" where
  "more_failed err st =
     st\<lparr>br_error := Some (errorMessage err (js ''Failed to load more'')), br_loading := False\<rparr>"

definition loadMore :: "br_sys \<Rightarrow> br_sys" where
  "loadMore sys =
     (let (st, pend) = sys
      in if \<not> truthy (br_next st) then sys
         else
           (let st1 = st\<lparr>br_loading := True\<rparr>
            in case list_url (br_bucket st) of
                 None \<Rightarrow> (more_failed (Plain_Error (js ''URI malformed'')) st1, pend)
               | Some _ \<Rightarrow>
                   (st1, pend @ [More_Pending (br_bucket st) (br_prefix st) (the (br_next st))
                                   (br_objects st) (br_prefixes st)])))"

definition more_reply ::
  "object_info list \<Rightarrow> jstr list \<Rightarrow> client_error + list_response \<Rightarrow> browser_state \<Rightarrow> browser_state"
  where
  "more_reply objects pfxs reply st =
     (case reply of
        Inr data \<Rightarrow>
          st\<lparr>br_objects := objects @ nullish (resp_objects data) [],
             br_prefixes := pfxs @ nullish (resp_prefixes data) [],
             br_next := resp_next_page_token data,
             br_truncated := nullish (resp_truncated data) False,
             br_loading := False\<rparr>
      | Inl err \<Rightarrow> more_failed err st)"

definition deliver :: "list_pending \<Rightarrow> client_error + list_response \<Rightarrow> browser_state \<Rightarrow> browser_state"
  where
  "deliver p reply st =
     (case p of
        Fetch_Pending _ _ \<Rightarrow> fetch_reply reply st
      | More_Pending _ _ _ objects pfxs \<Rightarrow> more_reply objects pfxs reply st)"

section \<open>Interleavings\<close>

text \<open>
  The steps of a store that serves a user who may act at any time and a network that may
  answer in any order.
\<close>

inductive br_step :: "br_sys \<Rightarrow> br_sys \<Rightarrow> bool" where
  step_fetch: "br_step sys (fetchObjects bucket pfx sys)"
| step_more: "br_step sys (loadMore sys)"
| step_bucket: "br_step (st, pend) (setBucket bucket st, pend)"
| step_prefix: "br_step (st, pend) (setPrefix pfx st, pend)"
| step_reply: "br_step (st, ps @ p # qs) (deliver p reply st, ps @ qs)"

abbreviation br_reachable :: "br_sys \<Rightarrow> bool" where
  "br_reachable \<equiv> reach (br_init, []) br_step"

text \<open>
  Serial use: an action starts only when nothing is pending, and a reply holds only objects
  that belong (\<open>owns\<close>) to the bucket and prefix the request named.
\<close>

definition request_scope :: "list_pending \<Rightarrow> jstr \<times> jstr" where
  "request_scope p =
     (case p of Fetch_Pending b q \<Rightarrow> (b, q) | More_Pending b q _ _ _ \<Rightarrow> (b, q))"

definition reply_in_scope ::
  "(jstr \<Rightarrow> jstr \<Rightarrow> object_info \<Rightarrow> bool) \<Rightarrow> list_pending \<Rightarrow> client_error + list_response \<Rightarrow> bool" where
  "reply_in_scope owns p reply =
     (case reply of
        Inl _ \<Rightarrow> True
      | Inr data \<Rightarrow>
          list_all (owns (fst (request_scope p)) (snd (request_scope p)))
            (nullish (resp_objects data) []))"

inductive br_serial :: "(jstr \<Rightarrow> jstr \<Rightarrow> object_info \<Rightarrow> bool) \<Rightarrow> br_sys \<Rightarrow> bool"
  for owns :: "jstr \<Rightarrow> jstr \<Rightarrow> object_info \<Rightarrow> bool" where
  serial_init: "br_serial owns (br_init, [])"
| serial_fetch: "br_serial owns (st, []) \<Longrightarrow> br_serial owns (fetchObjects bucket pfx (st, []))"
| serial_more: "br_serial owns (st, []) \<Longrightarrow> br_serial owns (loadMore (st, []))"
| serial_bucket: "br_serial owns (st, []) \<Longrightarrow> br_serial owns (setBucket bucket st, [])"
| serial_reply: "br_serial owns (st, [p]) \<Longrightarrow> reply_in_scope owns p reply \<Longrightarrow>
    br_serial owns (deliver p reply st, [])"

inductive_cases br_stepE: "br_step sys sys'"

lemmas br_step_defs = fetchObjects_def loadMore_def setBucket_def setPrefix_def deliver_def
  fetch_reply_def more_reply_def fetch_failed_def more_failed_def

section \<open>Invariants\<close>

text \<open>A store that shows its spinner is waiting for something.\<close>

definition spinner_justified :: "br_sys \<Rightarrow> bool" where
  "spinner_justified sys \<longleftrightarrow> (br_loading (fst sys) \<longrightarrow> snd sys \<noteq> [])"

lemma deliver_not_loading: "\<not> br_loading (deliver p reply st)"
  by (simp add: br_step_defs split: list_pending.split sum.split)

lemma br_step_spinner: "br_step sys sys' \<Longrightarrow> spinner_justified sys \<Longrightarrow> spinner_justified sys'"
  by (erule br_stepE)
     (auto simp: spinner_justified_def deliver_not_loading fetchObjects_def loadMore_def
       setBucket_def setPrefix_def fetch_failed_def more_failed_def Let_def
       split: option.splits prod.splits if_splits)

interpretation spinner: transition_invariant "(br_init, [])" br_step spinner_justified
  by unfold_locales (simp add: spinner_justified_def br_init_def, rule br_step_spinner)

text \<open>
  In serial use at most one request is pending, it was sent for the bucket and prefix the
  store names, and every object held belongs to them.
\<close>

definition in_scope :: "(jstr \<Rightarrow> jstr \<Rightarrow> object_info \<Rightarrow> bool) \<Rightarrow> br_sys \<Rightarrow> bool" where
  "in_scope owns sys \<longleftrightarrow>
     (let (st, pend) = sys; scope = (br_bucket st, br_prefix st)
      in list_all (owns (fst scope) (snd scope)) (br_objects st) \<and>
         (pend = [] \<or>
          (\<exists>p. pend = [p] \<and> request_scope p = scope \<and>
             (case p of Fetch_Pending _ _ \<Rightarrow> True
              | More_Pending _ _ _ objects _ \<Rightarrow> objects = br_objects st))))"

lemma in_scope_fetch: "in_scope owns (fetchObjects b q (st, []))"
  by (auto simp: in_scope_def fetchObjects_def fetch_failed_def request_scope_def Let_def
      split: option.split)

lemma in_scope_more: "in_scope owns (st, []) \<Longrightarrow> in_scope owns (loadMore (st, []))"
  by (auto simp: in_scope_def loadMore_def more_failed_def request_scope_def Let_def
      split: option.split)

lemma in_scope_reply:
  "in_scope owns (st, [p]) \<Longrightarrow> reply_in_scope owns p reply \<Longrightarrow> in_scope owns (deliver p reply st, [])"
  by (auto simp: in_scope_def deliver_def fetch_reply_def more_reply_def fetch_failed_def
      more_failed_def reply_in_scope_def request_scope_def Let_def
      split: list_pending.splits sum.splits)

lemma br_serial_in_scope: "br_serial owns sys \<Longrightarrow> in_scope owns sys"
proof (induction rule: br_serial.induct)
  case serial_init
  show ?case by (simp add: in_scope_def br_init_def)
next
  case (serial_bucket st bucket)
  show ?case by (simp add: in_scope_def setBucket_def)
qed (simp_all add: in_scope_fetch in_scope_more in_scope_reply)

section \<open>Paging\<close>

text \<open>
  A server that answers a listing page by page: the reply to the token of one page is the
  next page, and only the last page has no usable token.
\<close>

fun serves_pages :: "(jstr option \<Rightarrow> list_response) \<Rightarrow> jstr option \<Rightarrow> list_response list \<Rightarrow> bool" where
  "serves_pages srv tok [] = False"
| "serves_pages srv tok [pg] = (srv tok = pg \<and> \<not> truthy (resp_next_page_token pg))"
| "serves_pages srv tok (pg # pg' # pgs) =
     (srv tok = pg \<and> truthy (resp_next_page_token pg) \<and>
      serves_pages srv (resp_next_page_token pg) (pg' # pgs))"

text \<open>One action, answered at once by the server.\<close>

definition answer :: "(jstr option \<Rightarrow> list_response) \<Rightarrow> br_sys \<Rightarrow> browser_state" where
  "answer srv sys =
     (case snd sys of
        [] \<Rightarrow> fst sys
      | p # _ \<Rightarrow>
          deliver p (Inr (srv (case p of Fetch_Pending _ _ \<Rightarrow> None | More_Pending _ _ tok _ _ \<Rightarrow> Some tok)))
            (fst sys))"

fun load_rounds :: "(jstr option \<Rightarrow> list_response) \<Rightarrow> nat \<Rightarrow> browser_state \<Rightarrow> browser_state" where
  "load_rounds srv 0 st = st"
| "load_rounds srv (Suc n) st = load_rounds srv n (answer srv (loadMore (st, [])))"

definition page_objects :: "list_response \<Rightarrow> object_info list" where
  "page_objects pg = nullish (resp_objects pg) []"

definition page_prefixes :: "list_response \<Rightarrow> jstr list" where
  "page_prefixes pg = nullish (resp_prefixes pg) []"

text \<open>The store after it has taken in a page on top of what it held.\<close>

definition with_page :: "list_response \<Rightarrow> browser_state \<Rightarrow> browser_state" where
  "with_page pg st =
     st\<lparr>br_objects := br_objects st @ page_objects pg,
        br_prefixes := br_prefixes st @ page_prefixes pg,
        br_next := resp_next_page_token pg,
        br_truncated := nullish (resp_truncated pg) False,
        br_loading := False\<rparr>"

lemma answer_more:
  assumes "br_next st = Some tok" "tok \<noteq> []" "list_url (br_bucket st) \<noteq> None"
  shows "answer srv (loadMore (st, [])) = with_page (srv (Some tok)) st"
  using assms
  by (auto simp: answer_def loadMore_def truthy_def deliver_def more_reply_def with_page_def
      page_objects_def page_prefixes_def)

lemma answer_fetch:
  assumes "list_url b \<noteq> None"
  shows "answer srv (fetchObjects b q (st, [])) =
    with_page (srv None) (fst (fetchObjects b q (st, [])))"
  using assms
  by (auto simp: answer_def fetchObjects_def deliver_def fetch_reply_def with_page_def
      page_objects_def page_prefixes_def)

lemma load_rounds_pages:
  assumes "serves_pages srv tok (pg # pgs)" and "list_url (br_bucket st) \<noteq> None"
    and "st = with_page pg st0"
  shows "load_rounds srv (length pgs) st = foldl (\<lambda>s p. with_page p s) st pgs"
  using assms
proof (induction pgs arbitrary: tok pg st st0)
  case (Cons pg' pgs)
  from Cons.prems(1) have pg: "truthy (resp_next_page_token pg)"
      and rest: "serves_pages srv (resp_next_page_token pg) (pg' # pgs)"
    by simp_all
  then obtain t where t: "resp_next_page_token pg = Some t" "t \<noteq> []"
    by (auto simp: truthy_def)
  have "srv (Some t) = pg'" using rest t by (cases pgs) auto
  then have step: "answer srv (loadMore (st, [])) = with_page pg' st"
    using Cons.prems(2,3) t by (subst answer_more [of _ t]) (simp_all add: with_page_def)
  have "load_rounds srv (length pgs) (with_page pg' st) =
      foldl (\<lambda>s p. with_page p s) (with_page pg' st) pgs"
    using Cons.IH [OF rest _ refl] Cons.prems(2) by (simp add: with_page_def)
  then show ?case by (simp add: step)
qed simp

lemma foldl_with_page:
  "br_objects (foldl (\<lambda>s p. with_page p s) st pgs) = br_objects st @ concat (map page_objects pgs)"
  "br_prefixes (foldl (\<lambda>s p. with_page p s) st pgs) = br_prefixes st @ concat (map page_prefixes pgs)"
  "br_error (foldl (\<lambda>s p. with_page p s) st pgs) = br_error st"
  "br_bucket (foldl (\<lambda>s p. with_page p s) st pgs) = br_bucket st"
  "br_prefix (foldl (\<lambda>s p. with_page p s) st pgs) = br_prefix st"
  by (induction pgs arbitrary: st) (simp_all add: with_page_def)

lemma with_page_fields:
  "br_objects (with_page pg st) = br_objects st @ page_objects pg"
  "br_prefixes (with_page pg st) = br_prefixes st @ page_prefixes pg"
  "br_error (with_page pg st) = br_error st"
  "br_bucket (with_page pg st) = br_bucket st"
  "br_prefix (with_page pg st) = br_prefix st"
  by (simp_all add: with_page_def)

lemma foldl_with_page_last:
  "pgs \<noteq> [] \<Longrightarrow> br_next (foldl (\<lambda>s p. with_page p s) st pgs) = resp_next_page_token (last pgs)"
  "pgs \<noteq> [] \<Longrightarrow> \<not> br_loading (foldl (\<lambda>s p. with_page p s) st pgs)"
  by (induction pgs arbitrary: st rule: rev_induct) (simp_all add: with_page_def)

lemma serves_pages_last: "serves_pages srv tok pgs \<Longrightarrow> \<not> truthy (resp_next_page_token (last pgs))"
  by (induction srv tok pgs rule: serves_pages.induct) auto

lemma loadMore_done: "\<not> truthy (br_next st) \<Longrightarrow> loadMore (st, pend) = (st, pend)"
  by (simp add: loadMore_def)

lemma overlapped_reachable:
  assumes "list_url a \<noteq> None" and "list_url b \<noteq> None"
  shows "br_reachable (fst (fetchObjects b qb (fetchObjects a qa (br_init, []))),
    [Fetch_Pending a qa, Fetch_Pending b qb])"
proof -
  let ?sys = "fetchObjects b qb (fetchObjects a qa (br_init, []))"
  have "br_reachable ?sys"
    by (rule reach_next, rule reach_one, rule step_fetch, rule step_fetch)
  moreover have "snd ?sys = [Fetch_Pending a qa, Fetch_Pending b qb]"
    using assms by (auto simp: fetchObjects_def)
  ultimately show ?thesis by (metis prod.collapse)
qed

section \<open>Properties\<close>

text \<open>
  C40. However user actions and replies interleave, the listing never shows a spinner for
  nothing: while it is loading some reply is still due, and every reply ends the loading state.
\<close>

theorem no_stuck_spinner:
  assumes "br_reachable sys"
  shows "(br_loading (fst sys) \<longrightarrow> snd sys \<noteq> []) \<and> (\<forall>p reply. \<not> br_loading (deliver p reply (fst sys)))"
  using spinner.always [OF assms] by (simp add: spinner_justified_def deliver_not_loading)

theorem no_stuck_spinner_witness:
  "snd (fetchObjects (js ''b'') [] (br_init, [])) \<noteq> []"
proof -
  have "br_reachable (fetchObjects (js ''b'') [] (br_init, []))"
    by (rule reach_one, rule step_fetch)
  moreover have "br_loading (fst (fetchObjects (js ''b'') [] (br_init, [])))" by code_simp
  ultimately show ?thesis using no_stuck_spinner by blast
qed

text \<open>
  C10. Used serially, the store never mixes listings: every object it holds belongs to the
  bucket and the folder it names, through fetches, pages, failures and bucket switches.
\<close>

theorem serial_listing_in_scope:
  assumes "br_serial owns sys"
  shows "list_all (owns (br_bucket (fst sys)) (br_prefix (fst sys))) (br_objects (fst sys))"
  using br_serial_in_scope [OF assms] by (cases sys) (simp add: in_scope_def Let_def)

definition sample_object :: "jstr \<Rightarrow> object_info" where
  "sample_object k = \<lparr>obj_key = k, obj_size = 1, obj_last_modified = [], obj_etag = [],
     obj_is_prefix = False\<rparr>"

definition sample_page :: "jstr \<Rightarrow> jstr option \<Rightarrow> list_response" where
  "sample_page k tok = \<lparr>resp_objects = Some [sample_object k], resp_prefixes = None,
     resp_next_page_token = tok, resp_truncated = Some (tok \<noteq> None)\<rparr>"

theorem serial_listing_in_scope_witness:
  "list_all (\<lambda>ob. starts_with (obj_key ob) (js ''d/''))
     (br_objects (answer (\<lambda>_. sample_page (js ''d/x'') None) (fetchObjects (js ''b'') (js ''d/'') (br_init, []))))"
proof -
  let ?owns = "\<lambda>b q ob. starts_with (obj_key ob) q"
  let ?sys = "fetchObjects (js ''b'') (js ''d/'') (br_init, [])"
  let ?st = "deliver (Fetch_Pending (js ''b'') (js ''d/'')) (Inr (sample_page (js ''d/x'') None)) (fst ?sys)"
  have url: "list_url (js ''b'') \<noteq> None" by code_simp
  then have sys: "?sys = (fst ?sys, [Fetch_Pending (js ''b'') (js ''d/'')])"
    by (auto simp: fetchObjects_def)
  have "br_serial ?owns ?sys" by (rule serial_fetch [OF serial_init])
  then have "br_serial ?owns (fst ?sys, [Fetch_Pending (js ''b'') (js ''d/'')])" by (metis sys)
  moreover have "reply_in_scope ?owns (Fetch_Pending (js ''b'') (js ''d/'')) (Inr (sample_page (js ''d/x'') None))"
    by (simp add: reply_in_scope_def request_scope_def nullish_def sample_page_def sample_object_def)
  ultimately have "br_serial ?owns (?st, [])" by (rule serial_reply)
  from serial_listing_in_scope [OF this]
  show ?thesis using url
    by (auto simp: answer_def fetchObjects_def deliver_def fetch_reply_def)
qed

text \<open>
  C23. Paging is complete: against a server that hands out a listing page by page, opening a
  folder and loading more once per further page yields every object and every prefix of all
  pages, in order and without repetition, and then there is nothing left to load.
\<close>

theorem paging_complete:
  assumes "serves_pages srv None pgs" and "list_url b \<noteq> None"
  shows "let st' = load_rounds srv (length pgs - 1) (answer srv (fetchObjects b q (st, [])))
    in br_bucket st' = b \<and> br_prefix st' = q \<and>
       br_objects st' = concat (map page_objects pgs) \<and>
       br_prefixes st' = concat (map page_prefixes pgs) \<and>
       br_error st' = None \<and> \<not> br_loading st' \<and> loadMore (st', []) = (st', [])"
proof -
  obtain pg rest where pgs: "pgs = pg # rest" using assms(1) by (cases pgs) auto
  then have pg: "srv None = pg" using assms(1) by (cases rest) auto
  let ?st0 = "fst (fetchObjects b q (st, []))"
  let ?st1 = "with_page pg ?st0"
  have st0: "br_objects ?st0 = []" "br_prefixes ?st0 = []" "br_error ?st0 = None"
      "br_bucket ?st0 = b" "br_prefix ?st0 = q"
    using assms(2) by (auto simp: fetchObjects_def)
  have "load_rounds srv (length rest) ?st1 = foldl (\<lambda>s p. with_page p s) ?st1 rest"
    using assms st0 pgs by (intro load_rounds_pages [OF _ _ refl, of _ None]) (simp_all add: with_page_def)
  then have final: "load_rounds srv (length pgs - 1) (answer srv (fetchObjects b q (st, []))) =
      foldl (\<lambda>s p. with_page p s) ?st0 pgs"
    using pgs pg answer_fetch [OF assms(2)] by simp
  have "\<not> truthy (br_next (foldl (\<lambda>s p. with_page p s) ?st0 pgs))"
    using pgs foldl_with_page_last(1) [of pgs] serves_pages_last [OF assms(1)] by simp
  then show ?thesis
    unfolding final Let_def
    using pgs st0 foldl_with_page_last(2) [of pgs] loadMore_done
    by (simp add: foldl_with_page with_page_fields)
qed

theorem paging_complete_witness:
  "map obj_key (br_objects (load_rounds
     (\<lambda>tok. if tok = None then sample_page (js ''a'') (Some (js ''t'')) else sample_page (js ''c'') None)
     1 (answer (\<lambda>tok. if tok = None then sample_page (js ''a'') (Some (js ''t''))
                        else sample_page (js ''c'') None)
         (fetchObjects (js ''b'') [] (br_init, []))))) = [js ''a'', js ''c'']"
proof -
  let ?srv = "\<lambda>tok. if tok = None then sample_page (js ''a'') (Some (js ''t''))
    else sample_page (js ''c'') None"
  let ?pgs = "[sample_page (js ''a'') (Some (js ''t'')), sample_page (js ''c'') None]"
  have "serves_pages ?srv None ?pgs" by (simp add: sample_page_def truthy_def)
  moreover have "list_url (js ''b'') \<noteq> None" by code_simp
  ultimately have "br_objects (load_rounds ?srv (length ?pgs - 1)
      (answer ?srv (fetchObjects (js ''b'') [] (br_init, [])))) = concat (map page_objects ?pgs)"
    using paging_complete [of ?srv ?pgs "js ''b''" "[]" br_init] unfolding Let_def by blast
  then show ?thesis
    by (simp add: page_objects_def nullish_def sample_page_def sample_object_def)
qed

text \<open>
  C29. Replies are not matched with the listing they were asked for. When a second folder is
  opened before the first has answered, a late answer of the first replaces the listing of the
  second; and when the first answers in time but the second fails, the failed listing shows
  the objects of the first.
\<close>

theorem stale_reply_shows_other_listing:
  assumes "list_url a \<noteq> None" and "list_url b \<noteq> None"
  shows "let st0 = fst (fetchObjects b qb (fetchObjects a qa (br_init, [])));
      late = deliver (Fetch_Pending a qa) (Inr ra) (deliver (Fetch_Pending b qb) (Inr rb) st0);
      failed = deliver (Fetch_Pending b qb) (Inl err) (deliver (Fetch_Pending a qa) (Inr ra) st0)
    in br_reachable (late, []) \<and> br_bucket late = b \<and> br_prefix late = qb \<and>
         br_objects late = page_objects ra \<and> br_error late = None \<and> \<not> br_loading late \<and>
       br_reachable (failed, []) \<and> br_bucket failed = b \<and> br_prefix failed = qb \<and>
         br_objects failed = page_objects ra \<and> br_error failed \<noteq> None"
proof -
  let ?pa = "Fetch_Pending a qa"
  let ?pb = "Fetch_Pending b qb"
  let ?st0 = "fst (fetchObjects b qb (fetchObjects a qa (br_init, [])))"
  have r: "br_reachable (?st0, [?pa, ?pb])"
    by (rule overlapped_reachable [OF assms])
  have "br_reachable (deliver ?pb rb' ?st0, [?pa])" for rb'
    by (rule reach_next, rule r, rule step_reply [of _ "[?pa]" ?pb "[]", simplified])
  then have late: "br_reachable (deliver ?pa ra' (deliver ?pb rb' ?st0), [])" for ra' rb'
    by (rule reach_next) (rule step_reply [of _ "[]" ?pa "[]", simplified])
  have "br_reachable (deliver ?pa ra' ?st0, [?pb])" for ra'
    by (rule reach_next, rule r, rule step_reply [of _ "[]" ?pa "[?pb]", simplified])
  then have failed: "br_reachable (deliver ?pb rb' (deliver ?pa ra' ?st0), [])" for ra' rb'
    by (rule reach_next) (rule step_reply [of _ "[]" ?pb "[]", simplified])
  have "br_bucket ?st0 = b" "br_prefix ?st0 = qb" "br_error ?st0 = None"
    using assms by (auto simp: fetchObjects_def)
  then show ?thesis
    unfolding Let_def
    by (intro conjI late failed)
       (simp_all add: deliver_def fetch_reply_def fetch_failed_def page_objects_def)
qed

theorem stale_reply_shows_other_listing_witness:
  "\<exists>st. br_reachable (st, []) \<and> br_bucket st = js ''new'' \<and>
     map obj_key (br_objects st) = [js ''old.txt''] \<and> br_error st = None"
proof -
  have url: "list_url (js ''old'') \<noteq> None" "list_url (js ''new'') \<noteq> None" by code_simp+
  have "map obj_key (page_objects (sample_page (js ''old.txt'') None)) = [js ''old.txt'']"
    by (simp add: page_objects_def nullish_def sample_page_def sample_object_def)
  then show ?thesis
    using stale_reply_shows_other_listing [OF url, of "[]" "[]" "sample_page (js ''old.txt'') None"
        "sample_page (js ''new.txt'') None"] by metis
qed

text \<open>
  Two overlapping clicks on "load more" are harmless: both requests capture the same
  listing and token, so taking in both answers equals taking in one.
\<close>

theorem overlapping_load_more_idempotent:
  assumes "truthy (br_next st)" and "list_url (br_bucket st) \<noteq> None"
  shows "\<exists>p. loadMore (loadMore (st, [])) = (fst (loadMore (st, [])), [p, p]) \<and>
    snd (loadMore (st, [])) = [p] \<and>
    deliver p (Inr pg) (deliver p (Inr pg) (fst (loadMore (st, [])))) =
      deliver p (Inr pg) (fst (loadMore (st, [])))"
  using assms by (auto simp: loadMore_def deliver_def more_reply_def)

theorem overlapping_load_more_idempotent_witness:
  "\<exists>p. snd (loadMore (loadMore (with_page (sample_page (js ''a'') (Some (js ''t'')))
     (br_init\<lparr>br_bucket := js ''b''\<rparr>), []))) = [p, p]"
proof -
  let ?st = "with_page (sample_page (js ''a'') (Some (js ''t''))) (br_init\<lparr>br_bucket := js ''b''\<rparr>)"
  have "truthy (br_next ?st)" "list_url (br_bucket ?st) \<noteq> None" by code_simp+
  from overlapping_load_more_idempotent [OF this] show ?thesis by (metis snd_conv)
qed

text \<open>
  Loading more never clears the error banner: after a failed page, a successful retry
  leaves the old message in place (only opening a folder clears it).
\<close>

theorem load_more_keeps_error:
  assumes "br_next st = Some tok" and "tok \<noteq> []" and "list_url (br_bucket st) \<noteq> None"
  shows "let st1 = deliver (hd (snd (loadMore (st, [])))) (Inl err) (fst (loadMore (st, [])));
      st2 = answer srv (loadMore (st1, []))
    in br_error st2 = Some (errorMessage err (js ''Failed to load more'')) \<and>
       br_objects st2 = br_objects st @ page_objects (srv (Some tok))"
proof -
  let ?st1 = "deliver (hd (snd (loadMore (st, [])))) (Inl err) (fst (loadMore (st, [])))"
  have st1: "?st1 = more_failed err (st\<lparr>br_loading := True\<rparr>)"
    using assms by (auto simp: loadMore_def truthy_def deliver_def more_reply_def)
  have "answer srv (loadMore (?st1, [])) = with_page (srv (Some tok)) ?st1"
    unfolding st1 using assms by (intro answer_more) (simp_all add: more_failed_def)
  then show ?thesis unfolding Let_def by (simp add: st1 with_page_def more_failed_def)
qed

theorem load_more_keeps_error_witness:
  "br_error (answer (\<lambda>_. sample_page (js ''z'') None)
     (loadMore (more_failed (Axios_Error None)
        (with_page (sample_page (js ''a'') (Some (js ''t''))) (br_init\<lparr>br_bucket := js ''b''\<rparr>)), [])))
   = Some (js ''Failed to load more'')"
proof -
  let ?st = "with_page (sample_page (js ''a'') (Some (js ''t''))) (br_init\<lparr>br_bucket := js ''b''\<rparr>)"
  have h: "br_next ?st = Some (js ''t'')" "js ''t'' \<noteq> []" "list_url (br_bucket ?st) \<noteq> None"
    by code_simp+
  have "deliver (hd (snd (loadMore (?st, [])))) (Inl (Axios_Error None)) (fst (loadMore (?st, []))) =
      more_failed (Axios_Error None) ?st"
    by code_simp
  then show ?thesis
    using load_more_keeps_error [OF h, of "Axios_Error None" "\<lambda>_. sample_page (js ''z'') None"]
    unfolding Let_def by (simp add: errorMessage_def)
qed

end
