(* ===== verification/Keyed_List.thy ===== *)
theory Keyed_List
  imports Prelude
begin

text \<open>
  Lists whose entries are updated by key, \<open>xs.map(x => x.key === k ? upd(x) : x)\<close>, as the
  bucket list and the upload list are. The interface \<open>keyed_update\<close> asks only that an update
  keeps the key; what several updates do in any order follows from it.
\<close>

definition update_at :: "('a \<Rightarrow> 'k) \<Rightarrow> 'k \<Rightarrow> ('a \<Rightarrow> 'a) \<Rightarrow> 'a list \<Rightarrow> 'a list" where
  "update_at key k f xs = map (\<lambda>x. if key x = k then f x else x) xs"

lemma update_at_simps [simp]:
  "update_at key k f [] = []"
  "update_at key k f (x # xs) = (if key x = k then f x else x) # update_at key k f xs"
  "length (update_at key k f xs) = length xs"
  by (simp_all add: update_at_def)

locale keyed_update =
  fixes key :: "'a \<Rightarrow> 'k"
    and upd :: "'r \<Rightarrow> 'a \<Rightarrow> 'a"
  assumes key_upd: "key (upd r x) = key x"
begin

lemma keys: "map key (update_at key k (upd r) xs) = map key xs"
  by (simp add: update_at_def key_upd)

lemma others: "x \<in> set xs \<Longrightarrow> key x \<noteq> k \<Longrightarrow> x \<in> set (update_at key k f xs)"
  by (force simp: update_at_def)

lemma untouched: "k \<notin> key ` set xs \<Longrightarrow> update_at key k f xs = xs"
  by (induction xs) auto

lemma commute:
  "k \<noteq> l \<Longrightarrow> update_at key k (upd r) (update_at key l (upd s) xs) =
     update_at key l (upd s) (update_at key k (upd r) xs)"
  by (induction xs) (auto simp: key_upd)

lemma fold_updates:
  assumes "distinct ks"
  shows "fold (\<lambda>k. update_at key k (upd (r k))) ks xs =
    map (\<lambda>x. if key x \<in> set ks then upd (r (key x)) x else x) xs"
  using assms
proof (induction ks arbitrary: xs)
  case (Cons k ks)
  then have "fold (\<lambda>k. update_at key k (upd (r k))) (k # ks) xs =
      map (\<lambda>x. if key x \<in> set ks then upd (r (key x)) x else x) (update_at key k (upd (r k)) xs)"
    by simp
  also have "\<dots> = map (\<lambda>x. if key x \<in> set (k # ks) then upd (r (key x)) x else x) xs"
    using Cons.prems by (auto simp: update_at_def key_upd)
  finally show ?case .
qed (simp add: update_at_def)

end

end
