(* ===== verification/Buckets_Store.thy ===== *)
theory Buckets_Store
  imports Api_Client Reachability Keyed_List "HOL-Library.Multiset"
begin

text \<open>
  \<open>web/src/store/buckets.ts\<close>: the bucket listing and the statistics fetched for it by a small
  pool of workers. A call of \<open>fetchBucketStats\<close> is a \<open>stats_pool\<close>: the queue its workers
  share, and the names whose requests are in flight (one per worker that is at its \<open>await\<close>).
\<close>

section \<open>State\<close>

record bucket_perms =
  perm_read :: bool
  perm_write :: bool
  perm_delete :: "bool option"

record bucket_info =
  bi_name :: jstr
  bi_permissions :: bucket_perms
  bi_object_count :: "int option"
  bi_size_bytes :: "int option"
  bi_stats_truncated :: "bool option"
  bi_quota_bytes :: "int option"

record bucket_stats =
  bs_bucket :: jstr
  bs_object_count :: int
  bs_size_bytes :: int
  bs_truncated :: bool
  bs_quota_bytes :: "int option"

text \<open>The store, with the module's \<open>statsRequested\<close> set.\<close>

record buckets_state =
  bk_buckets :: "bucket_info list"
  bk_loading :: bool
  bk_error :: "jstr option"
  bk_requested :: "jstr set"

definition bk_init :: buckets_state where
  "bk_init = \<lparr>bk_buckets = [], bk_loading = False, bk_error = None, bk_requested = {}\<rparr>"

definition STATS_CONCURRENCY :: nat where "STATS_CONCURRENCY = 4"

record stats_pool =
  pool_queue :: "jstr list"
  pool_inflight :: "jstr list"

section \<open>Actions\<close>

definition fetchBuckets :: "buckets_state \<Rightarrow> buckets_state" where
  "fetchBuckets st = st\<lparr>bk_loading := True, bk_error := None\<rparr>"

definition buckets_reply :: "client_error + bucket_info list \<Rightarrow> buckets_state \<Rightarrow> buckets_state" where
  "buckets_reply reply st =
     (case reply of
        Inr buckets \<Rightarrow> st\<lparr>bk_requested := {}, bk_buckets := buckets, bk_loading := False\<rparr>
      | Inl err \<Rightarrow>
          st\<lparr>bk_error := Some (errorMessage err (js ''Failed to load buckets'')), bk_loading := False\<rparr>)"

definition stats_url :: "jstr \<Rightarrow> jstr option" where
  "stats_url name =
     map_option (\<lambda>en. js ''/api/v1/buckets/'' @ en @ js ''/stats'') (encodeURIComponent name)"

text \<open>
  A worker at the head of its loop. A name whose URL cannot be built throws inside the
  \<open>try\<close>, so the loop goes on with the next one; otherwise the worker waits for the reply.
  The result is the name it waits for (none when it has ended) and what is left of the queue.
\<close>

fun next_name :: "jstr list \<Rightarrow> jstr option \<times> jstr list" where
  "next_name [] = (None, [])"
| "next_name (name # queue) =
     (case stats_url name of
        None \<Rightarrow> next_name queue
      | Some _ \<Rightarrow> (Some name, queue))"

definition worker :: "stats_pool \<Rightarrow> stats_pool" where
  "worker pl =
     (case next_name (pool_queue pl) of
        (None, queue) \<Rightarrow> pl\<lparr>pool_queue := queue\<rparr>
      | (Some name, queue) \<Rightarrow> pl\<lparr>pool_queue := queue, pool_inflight := pool_inflight pl @ [name]\<rparr>)"

fun start_workers :: "nat \<Rightarrow> stats_pool \<Rightarrow> stats_pool" where
  "start_workers 0 pl = pl"
| "start_workers (Suc n) pl = start_workers n (worker pl)"

definition unrequested :: "jstr list \<Rightarrow> buckets_state \<Rightarrow> jstr list" where
  "unrequested names st = filter (\<lambda>n. n \<notin> bk_requested st) names"

definition start_pool :: "jstr list \<Rightarrow> stats_pool" where
  "start_pool queue =
     start_workers (min STATS_CONCURRENCY (length queue)) \<lparr>pool_queue = queue, pool_inflight = []\<rparr>"

definition fetchBucketStats :: "jstr list \<Rightarrow> buckets_state \<Rightarrow> buckets_state \<times> stats_pool" where
  "fetchBucketStats names st =
     (let queue = unrequested names st
      in (st\<lparr>bk_requested := bk_requested st \<union> set queue\<rparr>, start_pool queue))"

definition with_stats :: "bucket_stats \<Rightarrow> bucket_info \<Rightarrow> bucket_info" where
  "with_stats stats b =
     b\<lparr>bi_object_count := Some (bs_object_count stats), bi_size_bytes := Some (bs_size_bytes stats),
       bi_stats_truncated := Some (bs_truncated stats), bi_quota_bytes := bs_quota_bytes stats\<rparr>"

text \<open>The reply to a name: its statistics are merged in, or the failure is swallowed.\<close>

definition merge_stats :: "jstr \<Rightarrow> bucket_stats option \<Rightarrow> bucket_info list \<Rightarrow> bucket_info list" where
  "merge_stats name reply buckets =
     (case reply of
        None \<Rightarrow> buckets
      | Some stats \<Rightarrow> update_at bi_name name (with_stats stats) buckets)"

definition stats_reply :: "jstr \<Rightarrow> bucket_stats option \<Rightarrow> buckets_state \<Rightarrow> buckets_state" where
  "stats_reply name reply st = st\<lparr>bk_buckets := merge_stats name reply (bk_buckets st)\<rparr>"

text \<open>The worker that waited for a name goes on after the reply.\<close>

definition pool_reply :: "jstr \<Rightarrow> stats_pool \<Rightarrow> stats_pool" where
  "pool_reply name pl = worker (pl\<lparr>pool_inflight := remove1 name (pool_inflight pl)\<rparr>)"

section \<open>Runs\<close>

text \<open>A pool under replies in any order, with the names replied to.\<close>

inductive pool_run :: "stats_pool \<Rightarrow> jstr list \<Rightarrow> stats_pool \<Rightarrow> bool" for pl0 :: stats_pool where
  pool_start: "pool_run pl0 [] pl0"
| pool_next: "pool_run pl0 names pl \<Longrightarrow> name \<in> set (pool_inflight pl) \<Longrightarrow>
    pool_run pl0 (names @ [name]) (pool_reply name pl)"

text \<open>The store with the number of listings under way and the pools of its calls.\<close>

type_synonym bk_sys = "buckets_state \<times> nat \<times> stats_pool list"

inductive bk_step :: "bk_sys \<Rightarrow> bk_sys \<Rightarrow> bool" where
  bk_list: "bk_step (st, n, pools) (fetchBuckets st, Suc n, pools)"
| bk_listed: "bk_step (st, Suc n, pools) (buckets_reply reply st, n, pools)"
| bk_stats: "fetchBucketStats names st = (st', pl) \<Longrightarrow> bk_step (st, n, pools) (st', n, pools @ [pl])"
| bk_replied: "name \<in> set (pool_inflight pl) \<Longrightarrow>
    bk_step (st, n, ps @ pl # qs) (stats_reply name reply st, n, ps @ pool_reply name pl # qs)"

inductive_cases bk_stepE: "bk_step s s'"

section \<open>Workers\<close>

definition requestable :: "jstr \<Rightarrow> bool" where
  "requestable name \<longleftrightarrow> stats_url name \<noteq> None"

lemma next_name_none: "next_name queue = (None, rest) \<Longrightarrow> filter requestable queue = [] \<and> rest = []"
  by (induction queue) (auto simp: requestable_def split: option.splits)

lemma next_name_some:
  "next_name queue = (Some name, rest) \<Longrightarrow>
     filter requestable queue = name # filter requestable rest"
  by (induction queue) (auto simp: requestable_def split: option.splits)

text \<open>With \<open>n\<close> workers started: at most that many requests, and fewer only if the queue is empty.\<close>

definition staffed :: "nat \<Rightarrow> stats_pool \<Rightarrow> bool" where
  "staffed n pl \<longleftrightarrow>
     length (pool_inflight pl) \<le> n \<and> (length (pool_inflight pl) < n \<longrightarrow> pool_queue pl = [])"

text \<open>The names a pool still has to deal with.\<close>

definition pool_load :: "stats_pool \<Rightarrow> jstr multiset" where
  "pool_load pl = mset (pool_inflight pl) + mset (filter requestable (pool_queue pl))"

lemma worker_staffed: "staffed n pl \<Longrightarrow> staffed (Suc n) (worker pl)"
  by (cases "next_name (pool_queue pl)")
     (auto simp: staffed_def worker_def less_Suc_eq dest: next_name_none split: option.splits)

lemma worker_load: "pool_load (worker pl) = pool_load pl"
proof -
  obtain name rest where n: "next_name (pool_queue pl) = (name, rest)" by fastforce
  show ?thesis
  proof (cases name)
    case None
    then show ?thesis using n next_name_none [of "pool_queue pl" rest]
      by (simp add: pool_load_def worker_def del: mset_filter)
  next
    case (Some x)
    then show ?thesis using n next_name_some [of "pool_queue pl" x rest]
      by (simp add: pool_load_def worker_def del: mset_filter)
  qed
qed

lemma start_workers_staffed: "staffed k pl \<Longrightarrow> staffed (k + n) (start_workers n pl)"
proof (induction n arbitrary: k pl)
  case (Suc n)
  show ?case using Suc.IH [OF worker_staffed [OF Suc.prems]] by simp
qed simp

lemma start_workers_load: "pool_load (start_workers n pl) = pool_load pl"
  by (induction n arbitrary: pl) (simp_all add: worker_load)

lemma start_pool_staffed: "staffed (min STATS_CONCURRENCY (length queue)) (start_pool queue)"
  unfolding start_pool_def
  using start_workers_staffed [of 0 "\<lparr>pool_queue = queue, pool_inflight = []\<rparr>"
      "min STATS_CONCURRENCY (length queue)"]
  by (simp add: staffed_def)

lemma start_pool_load: "pool_load (start_pool queue) = mset (filter requestable queue)"
  unfolding start_pool_def by (simp add: start_workers_load) (simp add: pool_load_def)

lemma pool_reply_staffed:
  assumes "name \<in> set (pool_inflight pl)" and "staffed n pl"
  shows "staffed n (pool_reply name pl)"
proof -
  have pos: "0 < length (pool_inflight pl)" using assms(1) by (cases "pool_inflight pl") auto
  then have n: "0 < n" using assms(2) unfolding staffed_def by linarith
  then have "staffed (n - 1) (pl\<lparr>pool_inflight := remove1 name (pool_inflight pl)\<rparr>)"
    using assms pos by (auto simp: staffed_def length_remove1)
  then show ?thesis using worker_staffed n unfolding pool_reply_def by fastforce
qed

lemma pool_reply_load:
  "name \<in> set (pool_inflight pl) \<Longrightarrow> add_mset name (pool_load (pool_reply name pl)) = pool_load pl"
  unfolding pool_reply_def worker_load by (simp add: pool_load_def)

lemma pool_run_staffed: "pool_run pl0 names pl \<Longrightarrow> staffed n pl0 \<Longrightarrow> staffed n pl"
  by (induction rule: pool_run.induct) (auto intro: pool_reply_staffed)

lemma pool_run_load: "pool_run pl0 names pl \<Longrightarrow> mset names + pool_load pl = pool_load pl0"
proof (induction rule: pool_run.induct)
  case (pool_next names pl name)
  have "mset (names @ [name]) + pool_load (pool_reply name pl) =
      mset names + add_mset name (pool_load (pool_reply name pl))"
    by simp
  then show ?case using pool_next pool_reply_load [of name pl] by metis
qed simp

lemma staffed_idle: "staffed n pl \<Longrightarrow> 0 < n \<Longrightarrow> pool_inflight pl = [] \<Longrightarrow> pool_queue pl = []"
  by (simp add: staffed_def)

lemma pool_run_idle:
  assumes "pool_run (start_pool queue) names pl" and "pool_inflight pl = []"
  shows "pool_load pl = {#}"
proof (cases "queue = []")
  case True
  then show ?thesis
    using pool_run_load [OF assms(1)] by (simp add: start_pool_load)
next
  case False
  then have "pool_queue pl = []"
    using pool_run_staffed [OF assms(1) start_pool_staffed] assms(2)
    by (intro staffed_idle) (auto simp: STATS_CONCURRENCY_def)
  then show ?thesis using assms(2) by (simp add: pool_load_def)
qed

section \<open>Merging\<close>

definition with_reply :: "bucket_stats option \<Rightarrow> bucket_info \<Rightarrow> bucket_info" where
  "with_reply reply b = (case reply of None \<Rightarrow> b | Some stats \<Rightarrow> with_stats stats b)"

lemma merge_stats_update: "merge_stats name reply = update_at bi_name name (with_reply reply)"
  by (rule ext) (cases reply; simp add: merge_stats_def with_reply_def update_at_def map_idI)

interpretation stats: keyed_update bi_name with_reply
  by unfold_locales (simp add: with_reply_def with_stats_def split: option.split)

lemma merge_stats_permissions: "map bi_permissions (merge_stats name reply bs) = map bi_permissions bs"
  by (simp add: merge_stats_update update_at_def with_reply_def with_stats_def split: option.split)

section \<open>The whole store\<close>

text \<open>
  A spinner is waiting for a listing, no pool exceeds the cap, and a pool with names left to
  ask for has a request in flight that will make it go on.
\<close>

definition pool_wf :: "stats_pool \<Rightarrow> bool" where
  "pool_wf pl \<longleftrightarrow> length (pool_inflight pl) \<le> STATS_CONCURRENCY \<and>
     (pool_inflight pl = [] \<longrightarrow> pool_queue pl = [])"

lemma staffed_wf: "staffed n pl \<Longrightarrow> 0 < n \<Longrightarrow> n \<le> STATS_CONCURRENCY \<Longrightarrow> pool_wf pl"
  by (auto simp: staffed_def pool_wf_def)

lemma start_pool_wf: "pool_wf (start_pool queue)"
proof (cases "queue = []")
  case True
  then show ?thesis by (simp add: start_pool_def pool_wf_def)
next
  case False
  then show ?thesis
    using start_pool_staffed [of queue] by (intro staffed_wf) (auto simp: STATS_CONCURRENCY_def)
qed

lemma pool_reply_wf: 
  assumes "name \<in> set (pool_inflight pl)" and "pool_wf pl"
  shows "pool_wf (pool_reply name pl)"
proof -
  let ?n = "length (pool_inflight pl)"
  have "staffed ?n pl" "0 < ?n" "?n \<le> STATS_CONCURRENCY"
    using assms by (auto simp: staffed_def pool_wf_def)
  then show ?thesis using pool_reply_staffed [OF assms(1)] staffed_wf by blast
qed

definition bk_wf :: "bk_sys \<Rightarrow> bool" where
  "bk_wf sys \<longleftrightarrow>
     (let (st, n, pools) = sys in (bk_loading st \<longrightarrow> 0 < n) \<and> (\<forall>pl\<in>set pools. pool_wf pl))"

lemma bk_step_wf: "bk_step s s' \<Longrightarrow> bk_wf s \<Longrightarrow> bk_wf s'"
  by (erule bk_stepE)
     (auto simp: bk_wf_def fetchBuckets_def buckets_reply_def fetchBucketStats_def stats_reply_def
       Let_def start_pool_wf pool_reply_wf split: sum.splits)

interpretation bk: transition_invariant "(bk_init, 0, [])" bk_step bk_wf
  by unfold_locales (simp add: bk_wf_def bk_init_def, rule bk_step_wf)

text \<open>The queues of a sequence of statistics calls with no new listing in between.\<close>

fun queues_of :: "jstr list list \<Rightarrow> buckets_state \<Rightarrow> jstr list list" where
  "queues_of [] st = []"
| "queues_of (names # calls) st =
     unrequested names st # queues_of calls (fst (fetchBucketStats names st))"

lemma fetchBucketStats_requested:
  "bk_requested (fst (fetchBucketStats names st)) = bk_requested st \<union> set names"
  by (auto simp: fetchBucketStats_def unrequested_def Let_def)

text \<open>A new listing followed by a statistics call: nothing counts as requested any more.\<close>

definition relisted :: "bucket_info list \<Rightarrow> jstr list \<Rightarrow> buckets_state \<Rightarrow> buckets_state" where
  "relisted bs names st = fst (fetchBucketStats names (buckets_reply (Inr bs) (fetchBuckets st)))"

lemma relist_round:
  assumes r: "reach s0 bk_step (st, 0, pools)"
  shows "reach s0 bk_step (relisted bs names st, 0, pools @ [start_pool names])"
proof (rule reach_next, rule reach_next, rule reach_next, rule r)
  let ?listed = "buckets_reply (Inr bs) (fetchBuckets st)"
  show "bk_step (st, 0, pools) (fetchBuckets st, Suc 0, pools)" by (rule bk_list)
  show "bk_step (fetchBuckets st, Suc 0, pools) (?listed, 0, pools)" by (rule bk_listed)
  have "snd (fetchBucketStats names ?listed) = start_pool names"
    by (simp add: fetchBucketStats_def buckets_reply_def unrequested_def)
  then show "bk_step (?listed, 0, pools) (relisted bs names st, 0, pools @ [start_pool names])"
    unfolding relisted_def by (intro bk_stats [of names]) (metis prod.collapse)
qed

section \<open>Properties\<close>

text \<open>
  C7. A statistics call asks for every name of its queue exactly once, in whatever order the
  replies come in: what has been answered, what is in flight and what is queued always make up
  the names asked for, never more than four requests of the call are in flight, and when none
  is left in flight all of them have been answered. Names whose URL cannot be built are skipped.
\<close>

theorem stats_pool_asks_each_once:
  assumes "pool_run (start_pool queue) answered pl"
  shows "mset answered + mset (pool_inflight pl) + mset (filter requestable (pool_queue pl)) =
      mset (filter requestable queue) \<and>
    length (pool_inflight pl) \<le> min STATS_CONCURRENCY (length queue) \<and>
    (pool_inflight pl = [] \<longrightarrow> mset answered = mset (filter requestable queue))"
proof -
  have load: "mset answered + pool_load pl = mset (filter requestable queue)"
    using pool_run_load [OF assms] by (simp add: start_pool_load)
  moreover have "staffed (min STATS_CONCURRENCY (length queue)) pl"
    using pool_run_staffed [OF assms start_pool_staffed] .
  moreover have "pool_inflight pl = [] \<longrightarrow> mset answered = mset (filter requestable queue)"
    using pool_run_idle [OF assms] load by auto
  ultimately show ?thesis by (simp add: pool_load_def staffed_def ac_simps)
qed

theorem stats_pool_asks_each_once_witness:
  "length (pool_inflight (pool_reply (js ''b'') (start_pool (map js [''a'', ''b'', ''c'', ''d'', ''e'', ''f'']))))
     \<le> 4"
proof -
  let ?q = "map js [''a'', ''b'', ''c'', ''d'', ''e'', ''f'']"
  have "js ''b'' \<in> set (pool_inflight (start_pool ?q))" by code_simp
  then have "pool_run (start_pool ?q) ([] @ [js ''b'']) (pool_reply (js ''b'') (start_pool ?q))"
    by (intro pool_next pool_start)
  from stats_pool_asks_each_once [OF this] show ?thesis
    by (simp add: STATS_CONCURRENCY_def)
qed

text \<open>
  The statistics shown at the end do not depend on the order of the replies: after a
  finished call for distinct names, exactly the cards asked for carry the server's numbers
  (unchanged where it failed), and name, permissions and order of all cards are as before.
\<close>

theorem stats_order_irrelevant:
  assumes "pool_run (start_pool queue) answered pl" and "pool_inflight pl = []" and "distinct queue"
  shows "let bs' = fold (\<lambda>name. merge_stats name (server name)) answered bs
    in bs' = map (\<lambda>b. if bi_name b \<in> set queue \<and> requestable (bi_name b)
                      then with_reply (server (bi_name b)) b else b) bs \<and>
       map bi_name bs' = map bi_name bs \<and> map bi_permissions bs' = map bi_permissions bs"
proof -
  have "mset answered = mset (filter requestable queue)"
    using pool_run_load [OF assms(1)] pool_run_idle [OF assms(1,2)] by (simp add: start_pool_load)
  then have ans: "set answered = set (filter requestable queue)" "distinct answered"
    using assms(3) mset_eq_setD mset_eq_imp_distinct_iff distinct_filter by blast+
  show ?thesis
    unfolding merge_stats_update stats.fold_updates [OF ans(2)] Let_def
    by (auto simp: ans(1) with_reply_def with_stats_def split: option.split)
qed

definition sample_bucket :: "string \<Rightarrow> bool \<Rightarrow> bucket_info" where
  "sample_bucket name readable = \<lparr>bi_name = js name,
     bi_permissions = \<lparr>perm_read = readable, perm_write = False, perm_delete = None\<rparr>,
     bi_object_count = None, bi_size_bytes = None, bi_stats_truncated = None, bi_quota_bytes = None\<rparr>"

definition sample_stats :: "string \<Rightarrow> int \<Rightarrow> bucket_stats" where
  "sample_stats name n = \<lparr>bs_bucket = js name, bs_object_count = 1, bs_size_bytes = n,
     bs_truncated = False, bs_quota_bytes = None\<rparr>"

theorem stats_order_irrelevant_witness:
  "map bi_size_bytes (fold (\<lambda>name. merge_stats name (Some (sample_stats ''a'' 7)))
     [js ''a''] [sample_bucket ''a'' True, sample_bucket ''b'' True]) = [Some 7, None]"
proof -
  let ?q = "[js ''a'']"
  have "js ''a'' \<in> set (pool_inflight (start_pool ?q))" by code_simp
  then have "pool_run (start_pool ?q) ([] @ [js ''a'']) (pool_reply (js ''a'') (start_pool ?q))"
    by (intro pool_next pool_start)
  moreover have "pool_inflight (pool_reply (js ''a'') (start_pool ?q)) = []" by code_simp
  moreover have "requestable (js ''a'')" by code_simp
  ultimately show ?thesis
    using stats_order_irrelevant [of ?q "[js ''a'']" "pool_reply (js ''a'') (start_pool ?q)"
        "\<lambda>_. Some (sample_stats ''a'' 7)" "[sample_bucket ''a'' True, sample_bucket ''b'' True]"]
    by (simp add: Let_def sample_bucket_def sample_stats_def with_reply_def with_stats_def)
qed

text \<open>
  Between two listings no bucket is asked for twice, however often the page calls for
  statistics: the queues of the calls are disjoint, and together they cover every name named
  that had not been requested before.
\<close>

theorem stats_requested_once:
  assumes "\<forall>names\<in>set calls. distinct names"
  shows "distinct (concat (queues_of calls st)) \<and>
    set (concat (queues_of calls st)) = set (concat calls) - bk_requested st"
  using assms
proof (induction calls arbitrary: st)
  case (Cons names calls)
  show ?case
    using Cons.IH [of "fst (fetchBucketStats names st)"] Cons.prems
    by (auto simp: fetchBucketStats_requested unrequested_def)
qed simp

theorem stats_requested_once_witness:
  "distinct (concat (queues_of [[js ''a'', js ''b''], [js ''b'', js ''c'']] bk_init))"
  using stats_requested_once [of "[[js ''a'', js ''b''], [js ''b'', js ''c'']]" bk_init] by simp

text \<open>
  However listings, statistics calls and replies interleave, the page never shows a
  spinner with no listing under way, no call exceeds its cap, and no call stalls with names
  still queued.
\<close>

theorem bucket_store_invariant:
  assumes "reach (bk_init, 0, []) bk_step (st, n, pools)"
  shows "(bk_loading st \<longrightarrow> 0 < n) \<and>
    (\<forall>pl\<in>set pools. length (pool_inflight pl) \<le> 4 \<and> (pool_queue pl \<noteq> [] \<longrightarrow> pool_inflight pl \<noteq> []))"
  using bk.always [OF assms] by (auto simp: bk_wf_def pool_wf_def STATS_CONCURRENCY_def)

theorem bucket_store_invariant_witness:
  "length (pool_inflight (start_pool (map js [''a'', ''b'', ''c'', ''d'', ''e'']))) \<le> 4"
proof -
  let ?pl = "start_pool (map js [''a'', ''b'', ''c'', ''d'', ''e''])"
  have "reach (bk_init, 0, []) bk_step
      (relisted [] (map js [''a'', ''b'', ''c'', ''d'', ''e'']) bk_init, 0, [] @ [?pl])"
    by (rule relist_round, rule reach_start)
  from bucket_store_invariant [OF this] show ?thesis by simp
qed

text \<open>
  The cap is one of each call, not of the store: a new listing clears the set of requested
  names while the workers of an earlier call still wait, so a second call asks for the same
  names again and eight requests are in flight.
\<close>

theorem stats_cap_is_per_call:
  "\<exists>st pools. reach (bk_init, 0, []) bk_step (st, 0, pools) \<and>
     concat (map pool_inflight pools) =
       map js [''a'', ''b'', ''c'', ''d'', ''a'', ''b'', ''c'', ''d'']"
proof -
  let ?names = "map js [''a'', ''b'', ''c'', ''d'']"
  let ?round = "relisted (map (\<lambda>n. sample_bucket n True) [''a'', ''b'', ''c'', ''d'']) ?names"
  have "reach (bk_init, 0, []) bk_step (?round (?round bk_init), 0, ([] @ [start_pool ?names]) @ [start_pool ?names])"
    by (intro relist_round reach_start)
  moreover have "concat (map pool_inflight (([] @ [start_pool ?names]) @ [start_pool ?names])) =
      map js [''a'', ''b'', ''c'', ''d'', ''a'', ''b'', ''c'', ''d'']"
    by code_simp
  ultimately show ?thesis by blast
qed

end
