(* ===== verification/Auth_Provider.thy ===== *)
theory Auth_Provider
  imports Api_Client Reachability
begin

text \<open>
  \<open>web/src/auth/AuthProvider.tsx\<close>: the signed-in user, the access token kept outside the
  component tree, and the profile requests (\<open>/me\<close>) still unanswered. The OIDC library is the
  environment: it settles the promise of the first effect and raises its events at any time.
\<close>

section \<open>State\<close>

record user_info =
  ui_username :: jstr
  ui_groups :: "jstr list"

record oidc_user =
  ou_expired :: bool
  ou_access_token :: jstr
  ou_preferred_username :: "jstr option"

record auth_state =
  au_user :: "user_info option"
  au_loading :: bool
  au_token :: "jstr option"

text \<open>
  The provider with its continuations: the users whose \<open>/me\<close> request is unanswered, whether
  the promise of the first effect is unsettled, and the effect's \<open>active\<close> flag.
\<close>

record auth_sys =
  as_state :: auth_state
  as_pending :: "oidc_user list"
  as_boot :: bool
  as_active :: bool

definition auth_init :: auth_state where
  "auth_init = \<lparr>au_user = None, au_loading = True, au_token = None\<rparr>"

definition auth_mounted :: auth_sys where
  "auth_mounted = \<lparr>as_state = auth_init, as_pending = [], as_boot = True, as_active = True\<rparr>"

section \<open>The OIDC client\<close>

text \<open>The build's environment variables, and the settings handed to the library.\<close>

record oidc_settings =
  os_authority :: jstr
  os_client_id :: jstr
  os_redirect_uri :: jstr
  os_post_logout_redirect_uri :: jstr
  os_response_type :: jstr
  os_scope :: jstr
  os_automatic_silent_renew :: bool
  os_session_storage :: bool

definition env_or :: "(string \<Rightarrow> jstr option) \<Rightarrow> string \<Rightarrow> jstr \<Rightarrow> jstr" where
  "env_or env k d = (if truthy (env k) then the (env k) else d)"

definition createUserManager :: "(string \<Rightarrow> jstr option) \<Rightarrow> jstr \<Rightarrow> oidc_settings" where
  "createUserManager env origin =
     \<lparr>os_authority = env_or env ''VITE_KEYCLOAK_URL'' (js ''https://keycloak.example.com/realms/myrealm''),
      os_client_id = env_or env ''VITE_KEYCLOAK_CLIENT_ID'' (js ''s3-proxy''),
      os_redirect_uri = origin @ js ''/callback'',
      os_post_logout_redirect_uri = origin,
      os_response_type = js ''code'',
      os_scope = env_or env ''VITE_OIDC_SCOPE'' (js ''openid profile''),
      os_automatic_silent_renew = True,
      os_session_storage = True\<rparr>"

definition isAuthenticated :: "auth_state \<Rightarrow> bool" where
  "isAuthenticated st \<longleftrightarrow> au_user st \<noteq> None"

section \<open>Handlers\<close>

definition usable :: "oidc_user option \<Rightarrow> bool" where
  "usable u = (case u of None \<Rightarrow> False | Some ou \<Rightarrow> \<not> ou_expired ou)"

text \<open>\<open>handleUser\<close> up to its request; a missing or expired user signs out at once.\<close>

definition handleUser :: "oidc_user option \<Rightarrow> auth_sys \<Rightarrow> auth_sys" where
  "handleUser u sys =
     (if usable u then
        sys\<lparr>as_state := (as_state sys)\<lparr>au_token := Some (ou_access_token (the u))\<rparr>,
            as_pending := as_pending sys @ [the u]\<rparr>
      else
        sys\<lparr>as_state := (as_state sys)\<lparr>au_token := None, au_user := None, au_loading := False\<rparr>\<rparr>)"

text \<open>The Authorization header of a request sent now (none set by the caller).\<close>

definition authorization :: "auth_state \<Rightarrow> jstr option" where
  "authorization st = request_interceptor (au_token st) None"

definition fallback_user :: "oidc_user \<Rightarrow> user_info" where
  "fallback_user u =
     \<lparr>ui_username = (if truthy (ou_preferred_username u) then the (ou_preferred_username u)
                    else js ''unknown''),
      ui_groups = []\<rparr>"

definition me_reply :: "oidc_user \<Rightarrow> client_error + user_info \<Rightarrow> auth_state \<Rightarrow> auth_state" where
  "me_reply u reply st =
     st\<lparr>au_user := Some (case reply of Inr info \<Rightarrow> info | Inl _ \<Rightarrow> fallback_user u),
        au_loading := False\<rparr>"

definition onUser :: "oidc_user option \<Rightarrow> auth_sys \<Rightarrow> auth_sys" where
  "onUser u sys = (if as_active sys then handleUser u sys else sys)"

definition boot_resolved :: "oidc_user option \<Rightarrow> auth_sys \<Rightarrow> auth_sys" where
  "boot_resolved u sys = onUser u (sys\<lparr>as_boot := False\<rparr>)"

definition boot_rejected :: "auth_sys \<Rightarrow> auth_sys" where
  "boot_rejected sys =
     (if as_active sys then
        sys\<lparr>as_boot := False, as_state := (as_state sys)\<lparr>au_loading := False\<rparr>\<rparr>
      else sys\<lparr>as_boot := False\<rparr>)"

datatype user_event = User_Loaded oidc_user | User_Unloaded | Silent_Renew_Error

definition event_user :: "user_event \<Rightarrow> oidc_user option" where
  "event_user e =
     (case e of User_Loaded u \<Rightarrow> Some u | User_Unloaded \<Rightarrow> None | Silent_Renew_Error \<Rightarrow> None)"

definition unmount :: "auth_sys \<Rightarrow> auth_sys" where
  "unmount sys = sys\<lparr>as_active := False\<rparr>"

text \<open>\<open>logout\<close>: its calls in order, whether or not the endpoint fails.\<close>

datatype logout_call = Post_Logout | Signout_Redirect

definition logout :: "(unit, client_error) sum \<Rightarrow> logout_call list" where
  "logout endpoint = (case endpoint of Inl _ \<Rightarrow> [Post_Logout, Signout_Redirect]
                                     | Inr _ \<Rightarrow> [Post_Logout, Signout_Redirect])"

section \<open>Steps\<close>

inductive auth_step :: "auth_sys \<Rightarrow> auth_sys \<Rightarrow> bool" where
  auth_boot: "as_boot sys \<Longrightarrow> auth_step sys (boot_resolved u sys)"
| auth_boot_error: "as_boot sys \<Longrightarrow> auth_step sys (boot_rejected sys)"
| auth_event: "auth_step sys (onUser (event_user e) sys)"
| auth_me: "as_pending sys = ps @ u # qs \<Longrightarrow>
    auth_step sys (sys\<lparr>as_state := me_reply u reply (as_state sys), as_pending := ps @ qs\<rparr>)"
| auth_unmount: "auth_step sys (unmount sys)"

inductive_cases auth_stepE: "auth_step sys sys'"

text \<open>
  Calm use: no sign-out (an unloaded or expired user, or a failed renewal) is handled while a
  profile request is unanswered.
\<close>

inductive auth_calm_step :: "auth_sys \<Rightarrow> auth_sys \<Rightarrow> bool" where
  calm_boot: "as_boot sys \<Longrightarrow> usable u \<or> as_pending sys = [] \<Longrightarrow>
    auth_calm_step sys (boot_resolved u sys)"
| calm_boot_error: "as_boot sys \<Longrightarrow> auth_calm_step sys (boot_rejected sys)"
| calm_event: "usable (event_user e) \<or> as_pending sys = [] \<Longrightarrow>
    auth_calm_step sys (onUser (event_user e) sys)"
| calm_me: "as_pending sys = ps @ u # qs \<Longrightarrow>
    auth_calm_step sys (sys\<lparr>as_state := me_reply u reply (as_state sys), as_pending := ps @ qs\<rparr>)"
| calm_unmount: "auth_calm_step sys (unmount sys)"

inductive_cases auth_calm_stepE: "auth_calm_step sys sys'"

lemmas auth_defs = handleUser_def onUser_def boot_resolved_def boot_rejected_def unmount_def
  me_reply_def

section \<open>Invariants\<close>

text \<open>While the provider is loading and mounted, something is still to come.\<close>

definition loading_justified :: "auth_sys \<Rightarrow> bool" where
  "loading_justified sys \<longleftrightarrow>
     (au_loading (as_state sys) \<and> as_active sys \<longrightarrow> as_boot sys \<or> as_pending sys \<noteq> [])"

lemma auth_step_loading: "auth_step s s' \<Longrightarrow> loading_justified s \<Longrightarrow> loading_justified s'"
  by (erule auth_stepE) (auto simp: loading_justified_def auth_defs)

interpretation auth_loading: transition_invariant auth_mounted auth_step loading_justified
  by unfold_locales
     (simp add: loading_justified_def auth_mounted_def auth_init_def, rule auth_step_loading)

text \<open>Loading ends once and for all.\<close>

definition loading_over :: "auth_sys \<Rightarrow> bool" where
  "loading_over sys \<longleftrightarrow> \<not> au_loading (as_state sys)"

lemma auth_step_over: "auth_step s s' \<Longrightarrow> loading_over s \<Longrightarrow> loading_over s'"
  by (erule auth_stepE) (auto simp: loading_over_def auth_defs)

text \<open>A user is shown, or about to be, only with a token to act with.\<close>

definition token_held :: "auth_sys \<Rightarrow> bool" where
  "token_held sys \<longleftrightarrow>
     (isAuthenticated (as_state sys) \<or> as_pending sys \<noteq> [] \<longrightarrow> au_token (as_state sys) \<noteq> None)"

lemma auth_calm_step_token: "auth_calm_step s s' \<Longrightarrow> token_held s \<Longrightarrow> token_held s'"
  by (erule auth_calm_stepE) (auto simp: token_held_def isAuthenticated_def auth_defs)

interpretation auth_token: transition_invariant auth_mounted auth_calm_step token_held
  by unfold_locales
     (simp add: token_held_def auth_mounted_def auth_init_def isAuthenticated_def,
      rule auth_calm_step_token)

section \<open>Properties\<close>

text \<open>
  C20. As long as no sign-out is handled while a profile request is unanswered, a user is
  shown as signed in only while there is a token for the requests made on their behalf.
\<close>

theorem signed_in_has_token:
  assumes "reach auth_mounted auth_calm_step sys"
  shows "isAuthenticated (as_state sys) \<longrightarrow> au_token (as_state sys) \<noteq> None"
  using auth_token.always [OF assms] by (simp add: token_held_def)

definition sample_user :: "string \<Rightarrow> oidc_user" where
  "sample_user token = \<lparr>ou_expired = False, ou_access_token = js token,
     ou_preferred_username = Some (js ''ann'')\<rparr>"

definition signed_in :: auth_sys where
  "signed_in = (let sys = boot_resolved (Some (sample_user ''t'')) auth_mounted
     in sys\<lparr>as_state := me_reply (sample_user ''t'') (Inl (Axios_Error None)) (as_state sys),
            as_pending := []\<rparr>)"

theorem signed_in_has_token_witness: "au_token (as_state signed_in) \<noteq> None"
proof -
  let ?u = "sample_user ''t''"
  let ?booted = "boot_resolved (Some ?u) auth_mounted"
  have pending: "as_pending ?booted = [] @ ?u # []"
    by (simp add: auth_defs auth_mounted_def usable_def sample_user_def)
  have "reach auth_mounted auth_calm_step ?booted"
    by (rule reach_one, rule calm_boot) (simp_all add: auth_mounted_def)
  then have "reach auth_mounted auth_calm_step signed_in"
    unfolding signed_in_def Let_def
    by (rule reach_next) (use calm_me [OF pending] in simp)
  from signed_in_has_token [OF this] show ?thesis
    by (simp add: signed_in_def isAuthenticated_def me_reply_def Let_def)
qed

text \<open>
  C30. A sign-out that arrives while a profile request is unanswered is undone by the answer:
  the user is shown as signed in again, with no token left, so that every request goes out
  unauthenticated.
\<close>

theorem sign_out_undone_by_profile:
  assumes "as_pending sys = ps @ u # qs" and "as_active sys" and "\<not> usable (event_user e)"
  shows "\<exists>sys1 sys2. auth_step sys sys1 \<and> auth_step sys1 sys2 \<and>
    \<not> isAuthenticated (as_state sys1) \<and>
    au_user (as_state sys2) = Some info \<and> authorization (as_state sys2) = None"
proof -
  let ?out = "onUser (event_user e) sys"
  let ?again = "?out\<lparr>as_state := me_reply u (Inr info) (as_state ?out), as_pending := ps @ qs\<rparr>"
  have "as_pending ?out = ps @ u # qs" using assms by (simp add: auth_defs)
  then have "auth_step ?out ?again" by (rule auth_me)
  moreover have "auth_step sys ?out" by (rule auth_event)
  ultimately show ?thesis
    using assms
    by (intro exI [of _ ?out] exI [of _ ?again])
       (simp add: auth_defs isAuthenticated_def authorization_def request_interceptor_def truthy_def)
qed

theorem sign_out_undone_by_profile_witness:
  "\<exists>sys. reach auth_mounted auth_step sys \<and> isAuthenticated (as_state sys) \<and>
     authorization (as_state sys) = None"
proof -
  let ?booted = "boot_resolved (Some (sample_user ''t'')) auth_mounted"
  have r: "reach auth_mounted auth_step ?booted"
    by (rule reach_one, rule auth_boot) (simp add: auth_mounted_def)
  have h: "as_pending ?booted = [] @ sample_user ''t'' # []" "as_active ?booted"
      "\<not> usable (event_user User_Unloaded)"
    by (simp_all add: auth_defs auth_mounted_def usable_def sample_user_def event_user_def)
  obtain sys1 sys2 where s: "auth_step ?booted sys1" "auth_step sys1 sys2"
      "au_user (as_state sys2) = Some (fallback_user (sample_user ''t''))"
      "authorization (as_state sys2) = None"
    using sign_out_undone_by_profile [OF h] by blast
  have "reach auth_mounted auth_step sys2"
    by (rule reach_next, rule reach_next, rule r, rule s(1), rule s(2))
  then show ?thesis using s by (auto simp: isAuthenticated_def)
qed

text \<open>
  The spinner of the application ends: while a mounted provider is loading some promise is
  still unsettled, any answer that is handled ends the loading, and once ended it never comes back.
\<close>

theorem auth_loading_ends:
  assumes "reach auth_mounted auth_step sys"
  shows "(au_loading (as_state sys) \<and> as_active sys \<longrightarrow> as_boot sys \<or> as_pending sys \<noteq> []) \<and>
    \<not> au_loading (me_reply u reply (as_state sys)) \<and>
    (\<not> au_loading (as_state sys) \<longrightarrow>
       (\<forall>sys'. reach sys auth_step sys' \<longrightarrow> \<not> au_loading (as_state sys')))"
proof (intro conjI impI allI)
  show "as_boot sys \<or> as_pending sys \<noteq> []" if "au_loading (as_state sys) \<and> as_active sys"
    using auth_loading.always [OF assms] that by (auto simp: loading_justified_def)
  show "\<not> au_loading (me_reply u reply (as_state sys))" by (simp add: me_reply_def)
next
  fix sys' assume over: "\<not> au_loading (as_state sys)" and "reach sys auth_step sys'"
  from this(2) have "loading_over sys'"
    by (induction rule: reach.induct) (use over auth_step_over in \<open>auto simp: loading_over_def\<close>)
  then show "\<not> au_loading (as_state sys')" by (simp add: loading_over_def)
qed

theorem auth_loading_ends_witness:
  "\<not> au_loading (as_state (onUser None (boot_rejected auth_mounted)))"
proof -
  have r: "reach auth_mounted auth_step (boot_rejected auth_mounted)"
    by (rule reach_one, rule auth_boot_error) (simp add: auth_mounted_def)
  have "auth_step (boot_rejected auth_mounted) (onUser None (boot_rejected auth_mounted))"
    using auth_event [of "boot_rejected auth_mounted" User_Unloaded] by (simp add: event_user_def)
  then have "reach (boot_rejected auth_mounted) auth_step (onUser None (boot_rejected auth_mounted))"
    by (rule reach_one)
  moreover have "\<not> au_loading (as_state (boot_rejected auth_mounted))"
    by (simp add: boot_rejected_def auth_mounted_def)
  ultimately show ?thesis using auth_loading_ends [OF r] by blast
qed

text \<open>
  The profile request already carries the token of the user being signed in, and an
  expired session is treated as none at all: it leaves neither a user nor a token.
\<close>

theorem handle_user_token:
  "(usable (Some u) \<and> ou_access_token u \<noteq> [] \<longrightarrow>
      authorization (as_state (handleUser (Some u) sys)) = Some (bearer (ou_access_token u))) \<and>
   (ou_expired u \<longrightarrow> handleUser (Some u) sys = handleUser None sys \<and>
      authorization (as_state (handleUser (Some u) sys)) = None \<and>
      \<not> isAuthenticated (as_state (handleUser (Some u) sys)))"
  by (simp add: handleUser_def usable_def authorization_def request_interceptor_def truthy_def
      isAuthenticated_def)

theorem handle_user_token_witness:
  "authorization (as_state (handleUser (Some (sample_user ''t'')) auth_mounted)) =
     Some (js ''Bearer t'')"
proof -
  have "usable (Some (sample_user ''t''))" "ou_access_token (sample_user ''t'') \<noteq> []"
      "bearer (ou_access_token (sample_user ''t'')) = js ''Bearer t''"
    by code_simp+
  then show ?thesis using handle_user_token [of "sample_user ''t''" auth_mounted] by metis
qed

end
