(* ===== verification/App_Routes.thy ===== *)
theory App_Routes
  imports Auth_Provider Browser_Store Buckets_Store
begin

text \<open>
  \<open>web/src/App.tsx\<close> and the pages \<open>Login\<close>, \<open>Callback\<close>, \<open>Buckets\<close> and \<open>Browser\<close> of
  \<open>web/src/pages\<close>: what each route shows or where it redirects, the requests the pages send
  when they open, and what the client does from one page load to the next redirect.
\<close>

section \<open>Routes\<close>

datatype location = At_Login | At_Callback | At_Buckets | At_Bucket jstr | Elsewhere jstr

definition pathname :: "location \<Rightarrow> jstr" where
  "pathname loc =
     (case loc of
        At_Login \<Rightarrow> js ''/login''
      | At_Callback \<Rightarrow> js ''/callback''
      | At_Buckets \<Rightarrow> js ''/buckets''
      | At_Bucket b \<Rightarrow> js ''/buckets/'' @ b
      | Elsewhere p \<Rightarrow> p)"

datatype page = Spinner | Login_Card | Buckets_Page | Browser_Page jstr

datatype outcome = Show page | Redirect location

definition ProtectedRoute :: "bool \<Rightarrow> bool \<Rightarrow> page \<Rightarrow> outcome" where
  "ProtectedRoute isLoading authenticated child =
     (if isLoading then Show Spinner
      else if \<not> authenticated then Redirect At_Login
      else Show child)"

text \<open>
  The login page navigates in an effect, which runs after any rendering, that of its spinner
  included.
\<close>

definition Login :: "bool \<Rightarrow> bool \<Rightarrow> outcome" where
  "Login isLoading authenticated =
     (if authenticated then Redirect At_Buckets
      else if isLoading then Show Spinner
      else Show Login_Card)"

definition Callback :: "bool \<Rightarrow> bool \<Rightarrow> outcome" where
  "Callback isLoading authenticated =
     (if isLoading then Show Spinner
      else Redirect (if authenticated then At_Buckets else At_Login))"

text \<open>The effect of the callback page that drops the query once loading is over.\<close>

definition callback_clears_query :: "bool \<Rightarrow> jstr \<Rightarrow> jstr option" where
  "callback_clears_query isLoading query =
     (if \<not> isLoading \<and> query \<noteq> [] then Some (js ''/callback'') else None)"

definition AppRoutes :: "bool \<Rightarrow> bool \<Rightarrow> location \<Rightarrow> outcome" where
  "AppRoutes isLoading authenticated loc =
     (case loc of
        At_Login \<Rightarrow> Login isLoading authenticated
      | At_Callback \<Rightarrow> Callback isLoading authenticated
      | At_Buckets \<Rightarrow> ProtectedRoute isLoading authenticated Buckets_Page
      | At_Bucket b \<Rightarrow> ProtectedRoute isLoading authenticated (Browser_Page b)
      | Elsewhere _ \<Rightarrow> Redirect At_Buckets)"

lemmas route_defs = AppRoutes_def Login_def Callback_def ProtectedRoute_def

text \<open>Redirects are followed until a page shows; the measure bounds how many can follow.\<close>

definition redirects_left :: "bool \<Rightarrow> bool \<Rightarrow> location \<Rightarrow> nat" where
  "redirects_left isLoading authenticated loc =
     (case loc of
        At_Login \<Rightarrow> (if authenticated then 1 else 0)
      | At_Callback \<Rightarrow> 2
      | At_Buckets \<Rightarrow> (if authenticated then 0 else 1)
      | At_Bucket _ \<Rightarrow> (if authenticated then 0 else 1)
      | Elsewhere _ \<Rightarrow> 2)"

lemma redirect_decreases:
  "AppRoutes isLoading authenticated loc = Redirect loc' \<Longrightarrow>
     redirects_left isLoading authenticated loc' < redirects_left isLoading authenticated loc"
  by (cases loc) (auto simp: route_defs redirects_left_def split: if_splits)

function settle :: "bool \<Rightarrow> bool \<Rightarrow> location \<Rightarrow> location \<times> page" where
  "settle isLoading authenticated loc =
     (case AppRoutes isLoading authenticated loc of
        Show p \<Rightarrow> (loc, p)
      | Redirect loc' \<Rightarrow> settle isLoading authenticated loc')"
  by pat_completeness auto

termination
  by (relation "measure (\<lambda>(isLoading, authenticated, loc). redirects_left isLoading authenticated loc)")
     (simp_all add: redirect_decreases)

declare settle.simps [simp del]

section \<open>Pages\<close>

text \<open>The buckets page: the requests of its effects, and what it shows.\<close>

definition stats_wanted :: "bucket_info list \<Rightarrow> jstr list" where
  "stats_wanted buckets =
     map bi_name (filter (\<lambda>b. perm_read (bi_permissions b) \<and> bi_size_bytes b = None) buckets)"

definition buckets_page_stats :: "buckets_state \<Rightarrow> buckets_state \<times> stats_pool option" where
  "buckets_page_stats st =
     (let readable = stats_wanted (bk_buckets st)
      in if readable \<noteq> [] then (let (st', pl) = fetchBucketStats readable st in (st', Some pl))
         else (st, None))"

datatype buckets_section = Title | Load_Error jstr | Bucket_Cards "bucket_info list" bool

definition buckets_page :: "buckets_state \<Rightarrow> buckets_section list" where
  "buckets_page st =
     [Title] @ (if truthy (bk_error st) then [Load_Error (the (bk_error st))] else [])
       @ [Bucket_Cards (bk_buckets st) (bk_loading st)]"

text \<open>
  The browser page. The folder is the \<open>prefix\<close> parameter of the URL; the rights are those of
  the bucket in the bucket list, reading being assumed while the bucket is not known.
\<close>

definition page_prefix :: "jstr option \<Rightarrow> jstr" where
  "page_prefix param = nullish param []"

definition bucket_info_for :: "bucket_info list \<Rightarrow> jstr \<Rightarrow> bucket_info option" where
  "bucket_info_for buckets bucket = find (\<lambda>b. bi_name b = bucket) buckets"

definition canWrite :: "bucket_info option \<Rightarrow> bool" where
  "canWrite info = (case info of None \<Rightarrow> False | Some b \<Rightarrow> perm_write (bi_permissions b))"

definition canRead :: "bucket_info option \<Rightarrow> bool" where
  "canRead info = (case info of None \<Rightarrow> True | Some b \<Rightarrow> perm_read (bi_permissions b))"

definition list_buckets_first :: "buckets_state \<Rightarrow> bool" where
  "list_buckets_first st \<longleftrightarrow> length (bk_buckets st) = 0"

definition browser_effect :: "jstr \<Rightarrow> jstr option \<Rightarrow> bucket_info list \<Rightarrow> br_sys \<Rightarrow> br_sys" where
  "browser_effect bucket param buckets sys =
     (if bucket \<noteq> [] \<and> canRead (bucket_info_for buckets bucket)
      then fetchObjects bucket (page_prefix param) sys else sys)"

definition handleNavigatePrefix :: "jstr \<Rightarrow> jstr option" where
  "handleNavigatePrefix newPrefix = (if newPrefix \<noteq> [] then Some newPrefix else None)"

definition handleRefresh :: "jstr \<Rightarrow> jstr option \<Rightarrow> br_sys \<Rightarrow> br_sys" where
  "handleRefresh bucket param sys =
     (if bucket \<noteq> [] then fetchObjects bucket (page_prefix param) sys else sys)"

datatype browser_section =
  Breadcrumb_Nav jstr jstr
| Write_Only_Info
| Objects_Error jstr
| Upload_Section jstr jstr
| Object_Section jstr jstr "object_info list" "jstr list" bool bool bool

definition browser_page ::
  "jstr \<Rightarrow> jstr option \<Rightarrow> bucket_info list \<Rightarrow> browser_state \<Rightarrow> browser_section list" where
  "browser_page bucket param buckets st =
     (if bucket = [] then []
      else
        (let info = bucket_info_for buckets bucket; pfx = page_prefix param
         in [Breadcrumb_Nav bucket pfx]
            @ (if \<not> canRead info then [Write_Only_Info] else [])
            @ (if canRead info \<and> truthy (br_error st) then [Objects_Error (the (br_error st))] else [])
            @ (if canWrite info then [Upload_Section bucket pfx] else [])
            @ (if canRead info
               then [Object_Section bucket pfx (br_objects st) (br_prefixes st) (br_loading st)
                       (canWrite info) (br_truncated st)]
               else [])))"

section \<open>A page load\<close>

text \<open>
  From the loading of the application at a location to the next full navigation or to rest.
  The session kept by the OIDC library is \<open>u\<close>; the server answers every GET with a status
  (\<open>server\<close>). The profile request goes out first; the pages then send their own.
\<close>

datatype rest = Leaves jstr | Stays location page

definition me_url :: jstr where "me_url = js ''/api/v1/auth/me''"

definition buckets_url :: jstr where "buckets_url = js ''/api/v1/buckets''"

definition page_requests :: "page \<Rightarrow> jstr list" where
  "page_requests p =
     (case p of
        Buckets_Page \<Rightarrow> [buckets_url]
      | Browser_Page b \<Rightarrow>
          buckets_url # (case list_url b of None \<Rightarrow> [] | Some u \<Rightarrow> if b \<noteq> [] then [u] else [])
      | _ \<Rightarrow> [])"

fun first_leave :: "(jstr \<Rightarrow> nat) \<Rightarrow> jstr \<Rightarrow> jstr list \<Rightarrow> jstr option" where
  "first_leave server path [] = None"
| "first_leave server path (r # rs) =
     (case response_interceptor (Some (server r)) path of
        Some p \<Rightarrow> Some p
      | None \<Rightarrow> first_leave server path rs)"

definition me_answer :: "(jstr \<Rightarrow> nat) \<Rightarrow> client_error + user_info" where
  "me_answer server =
     (if response_ok (server me_url) then Inr \<lparr>ui_username = [], ui_groups = []\<rparr>
      else Inl (Axios_Error (Some \<lparr>err_status = server me_url, err_message = None\<rparr>)))"

definition signed_in_state :: "(jstr \<Rightarrow> nat) \<Rightarrow> oidc_user option \<Rightarrow> auth_state" where
  "signed_in_state server u =
     (let sys = boot_resolved u auth_mounted
      in case as_pending sys of
           [] \<Rightarrow> as_state sys
         | ou # _ \<Rightarrow> me_reply ou (me_answer server) (as_state sys))"

definition page_load :: "(jstr \<Rightarrow> nat) \<Rightarrow> oidc_user option \<Rightarrow> location \<Rightarrow> rest" where
  "page_load server u loc =
     (case (if usable u then first_leave server (pathname loc) [me_url] else None) of
        Some p \<Rightarrow> Leaves p
      | None \<Rightarrow>
          (let st = signed_in_state server u;
               (loc', p) = settle (au_loading st) (isAuthenticated st) loc
           in case first_leave server (pathname loc') (page_requests p) of
                Some q \<Rightarrow> Leaves q
              | None \<Rightarrow> Stays loc' p))"

section \<open>Lemmas\<close>

lemma settle_show: "AppRoutes l a loc = Show p \<Longrightarrow> settle l a loc = (loc, p)"
  by (subst settle.simps) simp

lemma settle_redirect: "AppRoutes l a loc = Redirect loc' \<Longrightarrow> settle l a loc = settle l a loc'"
  by (subst settle.simps) simp

lemma settle_shows: "AppRoutes l a (fst (settle l a loc)) = Show (snd (settle l a loc))"
proof (induction l a loc rule: settle.induct)
  case (1 l a loc)
  show ?case
  proof (cases "AppRoutes l a loc")
    case (Show p)
    then show ?thesis by (simp add: settle_show)
  next
    case (Redirect loc')
    then show ?thesis using 1 by (simp add: settle_redirect)
  qed
qed

lemma shown_page:
  "AppRoutes l a loc = Show p \<Longrightarrow>
     (case p of Spinner \<Rightarrow> l | Login_Card \<Rightarrow> \<not> l \<and> \<not> a | Buckets_Page \<Rightarrow> \<not> l \<and> a
      | Browser_Page b \<Rightarrow> \<not> l \<and> a \<and> loc = At_Bucket b)"
  by (cases loc) (auto simp: route_defs split: if_splits)

lemma settle_out: "settle False False loc = (At_Login, Login_Card)"
proof -
  have login: "settle False False At_Login = (At_Login, Login_Card)"
    by (intro settle_show) (simp add: route_defs)
  have buckets: "settle False False At_Buckets = (At_Login, Login_Card)"
    using settle_redirect [of False False At_Buckets At_Login] login by (simp add: route_defs)
  show ?thesis
    using settle_redirect [of False False loc] login buckets by (cases loc) (simp_all add: route_defs)
qed

lemma settle_in:
  "settle False True loc =
     (case loc of At_Bucket b \<Rightarrow> (At_Bucket b, Browser_Page b) | _ \<Rightarrow> (At_Buckets, Buckets_Page))"
proof -
  have buckets: "settle False True At_Buckets = (At_Buckets, Buckets_Page)"
    by (intro settle_show) (simp add: route_defs)
  show ?thesis
    using settle_redirect [of False True loc] settle_show [of False True loc] buckets
    by (cases loc) (simp_all add: route_defs)
qed

lemma signed_in_state:
  "au_loading (signed_in_state server u) = False"
  "isAuthenticated (signed_in_state server u) = usable u"
  by (auto simp: signed_in_state_def auth_defs auth_mounted_def auth_init_def isAuthenticated_def
      split: option.split)

lemma response_login: "response_interceptor status path = Some p \<Longrightarrow> p = js ''/login''"
  by (simp add: response_interceptor_def split: if_splits)

lemma first_leave_login: "first_leave server path rs = Some p \<Longrightarrow> p = js ''/login''"
  by (induction rs) (auto split: option.splits dest: response_login)

lemma first_leave_401:
  "r \<in> set rs \<Longrightarrow> server r = 401 \<Longrightarrow> path \<noteq> js ''/login'' \<Longrightarrow> path \<noteq> js ''/callback'' \<Longrightarrow>
     first_leave server path rs = Some (js ''/login'')"
  by (induction rs) (auto simp: response_interceptor_def split: option.splits)

lemma first_leave_none: "\<forall>r\<in>set rs. server r \<noteq> 401 \<Longrightarrow> first_leave server path rs = None"
  by (induction rs) (auto simp: response_interceptor_def)

lemma pathname_protected:
  "pathname At_Buckets \<noteq> js ''/login''" "pathname At_Buckets \<noteq> js ''/callback''"
  "pathname (At_Bucket b) \<noteq> js ''/login''" "pathname (At_Bucket b) \<noteq> js ''/callback''"
  by (simp_all add: pathname_def)

lemma stats_wanted_reply:
  "set (stats_wanted (bk_buckets (stats_reply name reply st))) \<subseteq> set (stats_wanted (bk_buckets st))"
  by (auto simp: stats_wanted_def stats_reply_def merge_stats_update update_at_def with_reply_def
      with_stats_def split: option.splits if_splits)

section \<open>Properties\<close>

text \<open>
  C24. Redirects settle: from every location, for every state of the sign-in, following the
  redirects ends at a location that shows its page. The bucket and object pages show only to
  a signed-in user once loading is over, the login card only to a user who is not signed in,
  and the spinner only while loading.
\<close>

theorem routes_settle_guarded:
  "let (loc', p) = settle isLoading authenticated loc
   in AppRoutes isLoading authenticated loc' = Show p \<and>
      ((p = Buckets_Page \<or> (\<exists>b. p = Browser_Page b)) \<longrightarrow> authenticated \<and> \<not> isLoading) \<and>
      (p = Login_Card \<longrightarrow> \<not> authenticated \<and> \<not> isLoading) \<and>
      (p = Spinner \<longrightarrow> isLoading)"
proof -
  obtain loc' p where s: "settle isLoading authenticated loc = (loc', p)" by fastforce
  then have "AppRoutes isLoading authenticated loc' = Show p"
    using settle_shows [of isLoading authenticated loc] by simp
  then show ?thesis using shown_page by (simp add: s Let_def) (cases p; fastforce)
qed

theorem routes_settle_guarded_witness:
  "\<not> (\<exists>b. snd (settle False False (At_Bucket (js ''b''))) = Browser_Page b)"
  using routes_settle_guarded [of False False "At_Bucket (js ''b'')"]
  by (auto simp: Let_def split: prod.splits)

text \<open>
  A page load comes to rest in both regular cases: without a usable session every location
  ends at the login card, whatever the server says; with one, and a server that refuses none of
  the requests, the user ends on the page asked for (the bucket list, unless a bucket was).
\<close>

theorem page_load_rests:
  "(\<not> usable u \<longrightarrow> page_load server u loc = Stays At_Login Login_Card) \<and>
   (usable u \<and> (\<forall>r. server r \<noteq> 401) \<longrightarrow>
      page_load server u loc =
        (case loc of At_Bucket b \<Rightarrow> Stays (At_Bucket b) (Browser_Page b)
         | _ \<Rightarrow> Stays At_Buckets Buckets_Page))"
  by (auto simp: page_load_def Let_def signed_in_state settle_out settle_in page_requests_def
      first_leave_none simp del: first_leave.simps(2) split: location.split)

theorem page_load_rests_witness:
  "page_load (\<lambda>_. 200) (Some (sample_user ''t'')) At_Login = Stays At_Buckets Buckets_Page \<and>
   page_load (\<lambda>_. 401) None (At_Bucket (js ''b'')) = Stays At_Login Login_Card"
  using page_load_rests [of "Some (sample_user ''t'')" "\<lambda>_. 200" At_Login]
    page_load_rests [of None "\<lambda>_. 401" "At_Bucket (js ''b'')"]
  by (simp add: usable_def sample_user_def)

text \<open>
  C6. A session the OIDC provider still holds for good but the gateway refuses never comes to
  rest: whatever the profile request answers, every page load ends in a navigation to
  \<open>/login\<close>, the load of \<open>/login\<close> included, so the client reloads for ever.
\<close>

theorem refused_session_redirects_forever:
  assumes "usable u" and "server buckets_url = 401"
  shows "page_load server u loc = Leaves (js ''/login'') \<and>
    page_load server u At_Login = Leaves (pathname At_Login)"
proof -
  have rest: "page_load server u loc = Leaves (js ''/login'')" for loc
  proof (cases "first_leave server (pathname loc) [me_url]")
    case None
    have "buckets_url \<in> set (page_requests (snd (settle False True loc)))"
        "pathname (fst (settle False True loc)) \<noteq> js ''/login''"
        "pathname (fst (settle False True loc)) \<noteq> js ''/callback''"
      by (simp_all add: settle_in page_requests_def pathname_protected [simplified]
          split: location.split)
    then have "first_leave server (pathname (fst (settle False True loc)))
        (page_requests (snd (settle False True loc))) = Some (js ''/login'')"
      using assms(2) by (intro first_leave_401)
    then show ?thesis
      using assms(1) None
      by (auto simp: page_load_def signed_in_state Let_def simp del: first_leave.simps(2)
          split: prod.split)
  next
    case (Some p)
    then show ?thesis using assms(1) first_leave_login [OF Some] by (simp add: page_load_def)
  qed
  then show ?thesis by (simp add: pathname_def)
qed

theorem refused_session_redirects_forever_witness:
  "page_load (\<lambda>_. 401) (Some (sample_user ''t'')) At_Login = Leaves (pathname At_Login)"
proof -
  have "usable (Some (sample_user ''t''))" by (simp add: usable_def sample_user_def)
  then show ?thesis using refused_session_redirects_forever [of _ "\<lambda>_. 401"] by blast
qed

text \<open>
  The browser page keeps to the rights of a known bucket: without the right to read,
  opening it lists nothing and its objects are not shown, a notice is; without the right to
  write there is no upload and the object list is told so. A bucket that is not known is
  listed, but never written to.
\<close>

theorem browser_page_respects_rights:
  assumes "bucket \<noteq> []"
  shows "let info = bucket_info_for buckets bucket; view = browser_page bucket param buckets st
    in (info = None \<longrightarrow> browser_effect bucket param buckets sys = fetchObjects bucket (page_prefix param) sys) \<and>
       ((\<exists>b. info = Some b \<and> \<not> perm_read (bi_permissions b)) \<longrightarrow>
          browser_effect bucket param buckets sys = sys \<and> Write_Only_Info \<in> set view \<and>
          (\<forall>b q os ps l w t. Object_Section b q os ps l w t \<notin> set view) \<and>
          (\<forall>e. Objects_Error e \<notin> set view)) \<and>
       ((info = None \<or> (\<exists>b. info = Some b \<and> \<not> perm_write (bi_permissions b))) \<longrightarrow>
          (\<forall>b q. Upload_Section b q \<notin> set view) \<and>
          (\<forall>b q os ps l w t. Object_Section b q os ps l w t \<in> set view \<longrightarrow> \<not> w))"
  using assms
  by (auto simp: browser_effect_def browser_page_def canRead_def canWrite_def Let_def)

theorem browser_page_respects_rights_witness:
  "browser_effect (js ''a'') None [sample_bucket ''a'' False] (br_init, []) = (br_init, [])"
proof -
  have "bucket_info_for [sample_bucket ''a'' False] (js ''a'') = Some (sample_bucket ''a'' False)"
      "\<not> perm_read (bi_permissions (sample_bucket ''a'' False))" "js ''a'' \<noteq> []"
    by (simp_all add: bucket_info_for_def sample_bucket_def)
  then show ?thesis
    using browser_page_respects_rights [of "js ''a''" "[sample_bucket ''a'' False]" None] by metis
qed

text \<open>
  In a write-only bucket the listing is skipped when the page opens, but not after an
  upload: the refresh sends the request the page set out to avoid.
\<close>

theorem write_only_upload_lists:
  assumes "bucket_info_for buckets bucket = Some b"
    and "\<not> perm_read (bi_permissions b)" and "perm_write (bi_permissions b)"
    and "list_url bucket \<noteq> None" and "bucket \<noteq> []"
  shows "Upload_Section bucket (page_prefix param) \<in> set (browser_page bucket param buckets st) \<and>
    snd (browser_effect bucket param buckets sys) = snd sys \<and>
    snd (handleRefresh bucket param sys) = snd sys @ [Fetch_Pending bucket (page_prefix param)]"
  using assms
  by (auto simp: browser_page_def browser_effect_def handleRefresh_def canRead_def canWrite_def
      fetchObjects_def Let_def split: prod.splits)

definition drop_box :: bucket_info where
  "drop_box = (sample_bucket ''a'' False)\<lparr>bi_permissions :=
     \<lparr>perm_read = False, perm_write = True, perm_delete = None\<rparr>\<rparr>"

theorem write_only_upload_lists_witness:
  "snd (handleRefresh (js ''a'') None (br_init, [])) = [Fetch_Pending (js ''a'') []]"
proof -
  have "bucket_info_for [drop_box] (js ''a'') = Some drop_box"
      "\<not> perm_read (bi_permissions drop_box)" "perm_write (bi_permissions drop_box)"
    by (simp_all add: drop_box_def bucket_info_for_def sample_bucket_def)
  moreover have "list_url (js ''a'') \<noteq> None" "js ''a'' \<noteq> []" by code_simp+
  ultimately show ?thesis
    using write_only_upload_lists [of "[drop_box]" "js ''a''" drop_box None br_init "(br_init, [])"]
    by (simp add: page_prefix_def nullish_def)
qed

text \<open>
  The statistics effect settles: it asks only for readable buckets without numbers, and
  once it has run, later runs (it fires again on every merge) ask for nothing more, whichever
  of the replies came and whatever they said.
\<close>

theorem stats_effect_settles:
  assumes "st' = fold (\<lambda>(name, reply). stats_reply name reply) replies (fst (buckets_page_stats st))"
  shows "(\<forall>name\<in>set (stats_wanted (bk_buckets st)). \<exists>b\<in>set (bk_buckets st).
      bi_name b = name \<and> perm_read (bi_permissions b) \<and> bi_size_bytes b = None) \<and>
    bk_requested (fst (buckets_page_stats st')) = bk_requested st' \<and>
    (\<forall>pl. snd (buckets_page_stats st') = Some pl \<longrightarrow> pool_inflight pl = [] \<and> pool_queue pl = [])"
proof -
  let ?st1 = "fst (buckets_page_stats st)"
  have req: "set (stats_wanted (bk_buckets ?st1)) \<subseteq> bk_requested ?st1"
    by (auto simp: buckets_page_stats_def fetchBucketStats_def unrequested_def Let_def)
  have fold: "bk_requested (fold (\<lambda>(name, reply). stats_reply name reply) rs s) = bk_requested s \<and>
      set (stats_wanted (bk_buckets (fold (\<lambda>(name, reply). stats_reply name reply) rs s))) \<subseteq>
      set (stats_wanted (bk_buckets s))" for rs s
    by (induction rs arbitrary: s) (auto dest!: subsetD [OF stats_wanted_reply]
        simp: stats_reply_def)
  have all: "set (stats_wanted (bk_buckets st')) \<subseteq> bk_requested st'"
    unfolding assms using fold [of replies ?st1] req by blast
  then have "unrequested (stats_wanted (bk_buckets st')) st' = []"
    by (auto simp: unrequested_def filter_empty_conv)
  then have run: "buckets_page_stats st' =
      (st', if stats_wanted (bk_buckets st') \<noteq> [] then Some (start_pool []) else None)"
    by (simp add: buckets_page_stats_def fetchBucketStats_def Let_def)
  show ?thesis
    unfolding run by (auto simp: stats_wanted_def start_pool_def split: if_splits)
qed

theorem stats_effect_settles_witness:
  "pool_inflight (the (snd (buckets_page_stats (stats_reply (js ''a'') None
     (fst (buckets_page_stats (bk_init\<lparr>bk_buckets := [sample_bucket ''a'' True]\<rparr>))))))) = []"
proof -
  let ?st = "bk_init\<lparr>bk_buckets := [sample_bucket ''a'' True]\<rparr>"
  let ?st' = "stats_reply (js ''a'') None (fst (buckets_page_stats ?st))"
  have "?st' = fold (\<lambda>(name, reply). stats_reply name reply) [(js ''a'', None)] (fst (buckets_page_stats ?st))"
    by simp
  moreover have "snd (buckets_page_stats ?st') \<noteq> None" by code_simp
  ultimately show ?thesis
    using stats_effect_settles [of ?st' "[(js ''a'', None)]" ?st] by force
qed

end
