(* ===== verification/Js_Number.thy ===== *)
theory Js_Number
  imports Prelude Complex_Main "HOL-Library.Log_Nat"
begin

text \<open>
  The arithmetic of the JavaScript standard library that the client uses, on exact rationals:
  the rounding of a result to a double (\<open>to_double\<close>, nearest with ties to even, 53 bits, for
  the range the client works in, so without overflow and subnormals), \<open>Math.round\<close>, and the
  printing of numbers.
\<close>

section \<open>Rounding to a double\<close>

text \<open>Nearest integer, ties to even.\<close>

definition round_even :: "rat \<Rightarrow> int" where
  "round_even x =
     (let f = \<lfloor>x\<rfloor>; d = x - of_int f
      in if d < 1 / 2 then f
         else if d > 1 / 2 then f + 1
         else if even f then f else f + 1)"

lemma round_even_int [simp]: "round_even (of_int n) = n"
  by (simp add: round_even_def)

lemma round_even_ge: "\<lfloor>x\<rfloor> \<le> round_even x" and round_even_le: "round_even x \<le> \<lfloor>x\<rfloor> + 1"
  by (simp_all add: round_even_def Let_def)

lemma round_even_mono:
  assumes "x \<le> y"
  shows "round_even x \<le> round_even y"
proof (cases "\<lfloor>x\<rfloor> = \<lfloor>y\<rfloor>")
  case True
  then show ?thesis using assms by (auto simp: round_even_def Let_def)
next
  case False
  then have "\<lfloor>x\<rfloor> + 1 \<le> \<lfloor>y\<rfloor>" using floor_mono [OF assms] by linarith
  then show ?thesis using round_even_le [of x] round_even_ge [of y] by linarith
qed

text \<open>The power of two at or below a positive rational.\<close>

definition pow2 :: "int \<Rightarrow> rat" where
  "pow2 k = (if 0 \<le> k then 2 ^ nat k else 1 / 2 ^ nat (- k))"

lemma pow2_powi: "pow2 k = 2 powi k"
  by (simp add: pow2_def power_int_def field_simps)

lemma pow2_pos [simp]: "0 < pow2 k"
  by (simp add: pow2_def)

lemma pow2_nonneg [simp]: "0 \<le> pow2 k"
  by (simp add: pow2_def)

lemma pow2_ne [simp]: "pow2 k \<noteq> 0"
  by (simp add: pow2_def)

lemma pow2_add: "pow2 (a + b) = pow2 a * pow2 b"
  by (simp add: pow2_powi power_int_add)

lemma pow2_mono: "a \<le> b \<Longrightarrow> pow2 a \<le> pow2 b"
  by (simp add: pow2_powi power_int_increasing)

definition exponent2 :: "rat \<Rightarrow> int" where
  "exponent2 x =
     (let (n, d) = quotient_of x;
          k = int (floorlog 2 (nat n)) - int (floorlog 2 (nat d))
      in if pow2 k \<le> x then k else k - 1)"

lemma floorlog2_bounds:
  assumes "0 < n"
  shows "(2::rat) ^ (floorlog 2 (nat n) - 1) \<le> of_int n" and "of_int n < (2::rat) ^ floorlog 2 (nat n)"
    and "0 < floorlog 2 (nat n)"
proof -
  let ?a = "floorlog 2 (nat n)"
  have "2 ^ (?a - 1) \<le> nat n \<and> nat n < 2 ^ ?a"
    using assms by (intro floorlog_bounds) auto
  then have "of_nat (2 ^ (?a - 1)) \<le> (of_nat (nat n) :: rat)" "(of_nat (nat n) :: rat) < of_nat (2 ^ ?a)"
    by (simp_all only: of_nat_le_iff of_nat_less_iff)
  then show "(2::rat) ^ (?a - 1) \<le> of_int n" "of_int n < (2::rat) ^ ?a"
    using assms by simp_all
  show "0 < ?a" using assms by (simp add: floorlog_def)
qed

lemma exponent2_bounds:
  assumes "0 < x"
  shows "pow2 (exponent2 x) \<le> x" and "x < pow2 (exponent2 x + 1)"
proof -
  obtain n d where q: "quotient_of x = (n, d)" by fastforce
  have d: "0 < d" using quotient_of_denom_pos [OF q] .
  have x: "x = of_int n / of_int d" using quotient_of_div [OF q] .
  have n: "0 < n" using assms d by (simp add: x zero_less_divide_iff)
  let ?a = "floorlog 2 (nat n)" and ?b = "floorlog 2 (nat d)"
  note r = floorlog2_bounds(1,2) [OF n] floorlog2_bounds(1,2) [OF d]
  note na = floorlog2_bounds(3) [OF n] and db = floorlog2_bounds(3) [OF d]
  let ?k = "int ?a - int ?b"
  have lo: "pow2 (?k - 1) \<le> x"
  proof -
    have "pow2 (?k - 1) = 2 ^ (?a - 1) / 2 ^ ?b"
      using na by (simp add: pow2_powi power_int_diff of_nat_diff flip: power_int_of_nat)
    also have "\<dots> \<le> of_int n / of_int d"
      using r d n by (intro frac_le) auto
    finally show ?thesis using x by simp
  qed
  have hi: "x < pow2 (?k + 1)"
  proof -
    have "of_int n / of_int d < (2::rat) ^ ?a / 2 ^ (?b - 1)"
      using r d n by (intro frac_less) auto
    also have "\<dots> = pow2 (?k + 1)"
      using db by (simp add: pow2_powi power_int_diff power_int_add of_nat_diff flip: power_int_of_nat)
    finally show ?thesis using x by simp
  qed
  have e: "exponent2 x = (if pow2 ?k \<le> x then ?k else ?k - 1)"
    by (simp add: exponent2_def q Let_def)
  show "pow2 (exponent2 x) \<le> x" using lo by (simp add: e)
  show "x < pow2 (exponent2 x + 1)" using hi by (simp add: e not_le)
qed

definition round_mag :: "rat \<Rightarrow> rat" where
  "round_mag x = (let e = exponent2 x - 52 in of_int (round_even (x / pow2 e)) * pow2 e)"

definition to_double :: "rat \<Rightarrow> rat" where
  "to_double x = (if x = 0 then 0 else if 0 < x then round_mag x else - round_mag (- x))"

lemma round_mag_bounds:
  assumes "0 < x"
  shows "pow2 (exponent2 x) \<le> round_mag x" and "round_mag x \<le> pow2 (exponent2 x + 1)"
proof -
  let ?e = "exponent2 x - 52"
  let ?m = "round_even (x / pow2 ?e)"
  have p: "0 < pow2 ?e" by simp
  have c: "pow2 52 = of_int (2 ^ 52)" "pow2 53 = of_int (2 ^ 53)" by (simp_all add: pow2_def)
  have lo: "pow2 52 * pow2 ?e = pow2 (exponent2 x)" and hi: "pow2 53 * pow2 ?e = pow2 (exponent2 x + 1)"
    unfolding pow2_add [symmetric] by (simp_all add: algebra_simps)
  have "of_int (2 ^ 52) \<le> x / pow2 ?e"
    using exponent2_bounds(1) [OF assms] p unfolding lo [symmetric] c(1)
    by (simp add: pos_le_divide_eq)
  then have "round_even (of_int (2 ^ 52)) \<le> ?m" by (rule round_even_mono)
  then have "of_int (2 ^ 52) \<le> (of_int ?m :: rat)" unfolding round_even_int of_int_le_iff .
  then have "pow2 52 * pow2 ?e \<le> of_int ?m * pow2 ?e" unfolding c using p by (intro mult_right_mono) simp_all
  then show "pow2 (exponent2 x) \<le> round_mag x" unfolding lo round_mag_def Let_def .
  have "x / pow2 ?e \<le> of_int (2 ^ 53)"
    using exponent2_bounds(2) [OF assms] p unfolding hi [symmetric] c(2)
    by (simp add: pos_divide_le_eq)
  then have "?m \<le> round_even (of_int (2 ^ 53))" by (rule round_even_mono)
  then have "(of_int ?m :: rat) \<le> of_int (2 ^ 53)" unfolding round_even_int of_int_le_iff .
  then have "of_int ?m * pow2 ?e \<le> pow2 53 * pow2 ?e" unfolding c using p by (intro mult_right_mono) simp_all
  then show "round_mag x \<le> pow2 (exponent2 x + 1)" unfolding hi round_mag_def Let_def .
qed

lemma exponent2_mono:
  assumes "0 < x" and "x \<le> y"
  shows "exponent2 x \<le> exponent2 y"
proof (rule ccontr)
  assume "\<not> exponent2 x \<le> exponent2 y"
  then have "pow2 (exponent2 y + 1) \<le> pow2 (exponent2 x)" by (intro pow2_mono) simp
  then show False
    using exponent2_bounds(1) [of x] exponent2_bounds(2) [of y] assms by simp
qed

lemma round_mag_mono:
  assumes "0 < x" and "x \<le> y"
  shows "round_mag x \<le> round_mag y"
proof (cases "exponent2 x = exponent2 y")
  case True
  then show ?thesis
    using assms round_even_mono [of "x / pow2 (exponent2 x - 52)" "y / pow2 (exponent2 x - 52)"]
    by (simp add: round_mag_def Let_def mult_right_mono divide_right_mono less_imp_le)
next
  case False
  then have "pow2 (exponent2 x + 1) \<le> pow2 (exponent2 y)"
    using exponent2_mono [OF assms] by (intro pow2_mono) simp
  then show ?thesis
    using round_mag_bounds(2) [of x] round_mag_bounds(1) [of y] assms by simp
qed

lemma to_double_nonneg: "0 \<le> x \<Longrightarrow> 0 \<le> to_double x"
  using round_mag_bounds(1) [of x] pow2_pos [of "exponent2 x"]
  by (auto simp: to_double_def simp del: pow2_pos)

lemma to_double_mono: "0 \<le> x \<Longrightarrow> x \<le> y \<Longrightarrow> to_double x \<le> to_double y"
  using to_double_nonneg [of y] round_mag_mono [of x y] by (auto simp: to_double_def)

text \<open>Integers below \<open>2 ^ 53\<close> are doubles.\<close>

lemma to_double_nat:
  assumes "n < 2 ^ 53"
  shows "to_double (of_nat n) = of_nat n"
proof (cases "n = 0")
  case False
  let ?e = "exponent2 (of_nat n) - 52"
  have pos: "0 < (of_nat n :: rat)" using False by simp
  have "pow2 (exponent2 (of_nat n)) \<le> of_nat n" using exponent2_bounds(1) [OF pos] .
  also have "(of_nat n :: rat) < 2 ^ 53" using assms by (metis of_nat_less_iff of_nat_numeral of_nat_power)
  also have "(2::rat) ^ 53 = pow2 53" by (simp add: pow2_def)
  finally have "\<not> pow2 53 \<le> pow2 (exponent2 (of_nat n))" by simp
  then have "?e \<le> 0" using pow2_mono [of 53 "exponent2 (of_nat n)"] by linarith
  then have "of_nat n / pow2 ?e = (of_int (int n * 2 ^ nat (- ?e)) :: rat)"
    by (auto simp: pow2_def field_simps)
  then have "round_mag (of_nat n) = of_nat n / pow2 ?e * pow2 ?e"
    by (simp only: round_mag_def Let_def round_even_int)
  then show ?thesis using pos by (simp add: to_double_def)
qed (simp add: to_double_def)

section \<open>Math.round\<close>

definition math_round :: "rat \<Rightarrow> int" where
  "math_round x = \<lfloor>x + 1 / 2\<rfloor>"

lemma math_round_mono: "x \<le> y \<Longrightarrow> math_round x \<le> math_round y"
  by (simp add: math_round_def floor_mono)

lemma math_round_int [simp]: "math_round (of_int n) = n"
  unfolding math_round_def by linarith

section \<open>Printing\<close>

fun digits :: "nat \<Rightarrow> jstr" where
  "digits n = (if n < 10 then [48 + of_nat n] else digits (n div 10) @ [48 + of_nat (n mod 10)])"

declare digits.simps [simp del]

definition int_to_js :: "int \<Rightarrow> jstr" where
  "int_to_js n = (if n < 0 then 45 # digits (nat (- n)) else digits (nat n))"

text \<open>\<open>x.toFixed(1)\<close>: the nearest tenth, the larger one of two.\<close>

definition tenths :: "rat \<Rightarrow> int" where
  "tenths x = \<lfloor>10 * x + 1 / 2\<rfloor>"

definition to_fixed1 :: "rat \<Rightarrow> jstr" where
  "to_fixed1 x =
     (let n = tenths \<bar>x\<bar>
      in (if x < 0 then [45] else []) @ int_to_js (n div 10) @ [dot] @ int_to_js (n mod 10))"

lemma tenths_error: "\<bar>of_int (tenths x) / 10 - x\<bar> \<le> 1 / 20"
proof -
  have "of_int (tenths x) \<le> 10 * x + 1 / 2" "10 * x + 1 / 2 < of_int (tenths x) + 1"
    unfolding tenths_def by linarith+
  then show ?thesis unfolding abs_le_iff by linarith
qed

text \<open>Reading decimal digits back.\<close>

definition read_digits :: "jstr \<Rightarrow> nat" where
  "read_digits s = foldl (\<lambda>a c. 10 * a + (unat c - 48)) 0 s"

lemma digit_unit: "d < 10 \<Longrightarrow> unat (48 + of_nat d :: jchar) = 48 + d"
  by (simp add: unat_word_ariths unat_of_nat take_bit_eq_mod)

lemma read_digits_digits: "read_digits (digits n) = n"
proof (induction n rule: digits.induct)
  case (1 n)
  show ?case
  proof (cases "n < 10")
    case True
    then show ?thesis by (simp add: digits.simps [of n] read_digits_def digit_unit)
  next
    case False
    then have "read_digits (digits (n div 10)) = n div 10" using 1 by simp
    then show ?thesis using False
      by (simp add: digits.simps [of n] read_digits_def digit_unit)
  qed
qed

lemma digits_inject: "digits m = digits n \<Longrightarrow> m = n"
  by (metis read_digits_digits)

lemma digits_range: "c \<in> set (digits n) \<Longrightarrow> 48 \<le> unat c \<and> unat c \<le> 57"
proof (induction n rule: digits.induct)
  case (1 n)
  show ?case
  proof (cases "n < 10")
    case True
    then show ?thesis using 1(2) by (simp add: digits.simps [of n] digit_unit)
  next
    case False
    then have "c \<in> set (digits (n div 10)) \<or> c = 48 + of_nat (n mod 10)"
      using 1(2) by (auto simp: digits.simps [of n])
    then show ?thesis using 1(1) False digit_unit [of "n mod 10"] by auto
  qed
qed

lemma digits_ne [simp]: "digits n \<noteq> []"
  by (subst digits.simps) simp

end
