(* ===== verification/Js_Json.thy ===== *)
theory Js_Json
  imports Js_Number Js_String Uri
begin

text \<open>
  \<open>JSON.parse\<close> and \<open>JSON.stringify\<close>, as the file preview and the theme storage use them. The
  values of numbers are a type of their own: how a literal is read as a double (\<open>to_num\<close>) and
  a double printed (\<open>of_num\<close>) is a parameter, with the interface \<open>number_text\<close>. The parser
  has fuel for the depth of its calls; \<open>parse_value_fuel\<close> shows that the fuel it starts with
  is never exhausted.
\<close>

section \<open>Values\<close>

datatype 'n json =
  J_Null
| J_Bool bool
| J_Num 'n
| J_Str jstr
| J_Arr "'n json list"
| J_Obj "(jstr \<times> 'n json) list"

text \<open>
  The properties of an object in the order it enumerates them: array indices ascending, then
  the other keys in the order they were first written; a key written again takes the new value.
\<close>

definition is_digit :: "jchar \<Rightarrow> bool" where
  "is_digit c \<longleftrightarrow> 48 \<le> c \<and> c \<le> 57"

definition is_index :: "jstr \<Rightarrow> bool" where
  "is_index k =
     (if k \<noteq> [] \<and> list_all is_digit k \<and> (take 1 k = [48] \<longrightarrow> k = [48])
      then int (read_digits k) < 2 ^ 32 - 1 else False)"

fun put_property :: "jstr \<Rightarrow> 'v \<Rightarrow> (jstr \<times> 'v) list \<Rightarrow> (jstr \<times> 'v) list" where
  "put_property k v [] = [(k, v)]"
| "put_property k v ((l, w) # ps) = (if l = k then (k, v) # ps else (l, w) # put_property k v ps)"

definition own_properties :: "(jstr \<times> 'v) list \<Rightarrow> (jstr \<times> 'v) list" where
  "own_properties ps =
     (let qs = fold (\<lambda>(k, v). put_property k v) ps []
      in sort_key (\<lambda>(k, _). read_digits k) (filter (\<lambda>(k, _). is_index k) qs)
         @ filter (\<lambda>(k, _). \<not> is_index k) qs)"

section \<open>Parsing\<close>

definition json_ws :: "jchar \<Rightarrow> bool" where
  "json_ws c \<longleftrightarrow> c = 9 \<or> c = 10 \<or> c = 13 \<or> c = 32"

definition skip_ws :: "jstr \<Rightarrow> jstr" where
  "skip_ws = dropWhile json_ws"

definition escape_value :: "jchar \<Rightarrow> jchar option" where
  "escape_value e =
     map_of [(34, 34), (92, 92), (47, 47), (98, 8), (102, 12), (110, 10), (114, 13), (116, 9)] e"

definition hex4 :: "jchar \<Rightarrow> jchar \<Rightarrow> jchar \<Rightarrow> jchar \<Rightarrow> jchar option" where
  "hex4 a b c d =
     (case (hex_value a, hex_value b, hex_value c, hex_value d) of
        (Some w, Some x, Some y, Some z) \<Rightarrow> Some (of_nat (((w * 16 + x) * 16 + y) * 16 + z))
      | _ \<Rightarrow> None)"

text \<open>The rest of a string literal: its value and what follows the closing quote.\<close>

fun string_body :: "jstr \<Rightarrow> (jstr \<times> jstr) option" where
  "string_body [] = None"
| "string_body (c # cs) =
     (if c = 34 then Some ([], cs)
      else if c = 92 then
        (case cs of
           [] \<Rightarrow> None
         | e # rest \<Rightarrow>
             (if e = 117 then
                (case rest of
                   h1 # h2 # h3 # h4 # rest' \<Rightarrow>
                     (case hex4 h1 h2 h3 h4 of
                        None \<Rightarrow> None
                      | Some u \<Rightarrow> map_option (apfst (Cons u)) (string_body rest'))
                 | _ \<Rightarrow> None)
              else
                (case escape_value e of
                   None \<Rightarrow> None
                 | Some u \<Rightarrow> map_option (apfst (Cons u)) (string_body rest))))
      else if c < 32 then None
      else map_option (apfst (Cons c)) (string_body cs))"

definition scan_digits :: "jstr \<Rightarrow> (jstr \<times> jstr) option" where
  "scan_digits s =
     (let d = takeWhile is_digit s in if d = [] then None else Some (d, drop (length d) s))"

text \<open>A number literal: sign, integer without leading zero, fraction, exponent.\<close>

definition scan_int :: "jstr \<Rightarrow> (jstr \<times> jstr) option" where
  "scan_int s = (if take 1 s = [48] then Some ([48], drop 1 s) else scan_digits s)"

definition scan_frac :: "jstr \<Rightarrow> (jstr \<times> jstr) option" where
  "scan_frac s =
     (case s of
        c # rest \<Rightarrow> (if c = dot then map_option (apfst (Cons dot)) (scan_digits rest) else Some ([], s))
      | [] \<Rightarrow> Some ([], s))"

definition scan_exp :: "jstr \<Rightarrow> (jstr \<times> jstr) option" where
  "scan_exp s =
     (case s of
        c # rest \<Rightarrow>
          (if c = 101 \<or> c = 69 then
             (case rest of
                g # rest' \<Rightarrow>
                  (if g = 43 \<or> g = 45 then map_option (apfst (\<lambda>d. c # g # d)) (scan_digits rest')
                   else map_option (apfst (Cons c)) (scan_digits rest))
              | [] \<Rightarrow> None)
           else Some ([], s))
      | [] \<Rightarrow> Some ([], s))"

definition scan_unsigned :: "jstr \<Rightarrow> (jstr \<times> jstr) option" where
  "scan_unsigned s =
     (case scan_int s of
        None \<Rightarrow> None
      | Some (i, s1) \<Rightarrow>
          (case scan_frac s1 of
             None \<Rightarrow> None
           | Some (f, s2) \<Rightarrow> map_option (apfst (\<lambda>e. i @ f @ e)) (scan_exp s2)))"

definition scan_number :: "jstr \<Rightarrow> (jstr \<times> jstr) option" where
  "scan_number s =
     (case s of
        c # rest \<Rightarrow>
          (if c = 45 then map_option (apfst (Cons 45)) (scan_unsigned rest) else scan_unsigned s)
      | [] \<Rightarrow> None)"

definition json_literal :: "string \<Rightarrow> 'n json \<Rightarrow> jstr \<Rightarrow> ('n json \<times> jstr) option" where
  "json_literal word v s = (if starts_with s (js word) then Some (v, drop (length word) s) else None)"

fun parse_value :: "(jstr \<Rightarrow> 'n) \<Rightarrow> nat \<Rightarrow> jstr \<Rightarrow> ('n json \<times> jstr) option"
and parse_elements :: "(jstr \<Rightarrow> 'n) \<Rightarrow> nat \<Rightarrow> jstr \<Rightarrow> ('n json list \<times> jstr) option"
and parse_members :: "(jstr \<Rightarrow> 'n) \<Rightarrow> nat \<Rightarrow> jstr \<Rightarrow> ((jstr \<times> 'n json) list \<times> jstr) option" where
  "parse_value to_num 0 s = None"
| "parse_value to_num (Suc n) s =
     (case skip_ws s of
        [] \<Rightarrow> None
      | c # cs \<Rightarrow>
          (if c = 34 then map_option (apfst J_Str) (string_body cs)
           else if c = 91 then
             (if take 1 (skip_ws cs) = [93] then Some (J_Arr [], drop 1 (skip_ws cs))
              else map_option (apfst J_Arr) (parse_elements to_num n cs))
           else if c = 123 then
             (if take 1 (skip_ws cs) = [125] then Some (J_Obj [], drop 1 (skip_ws cs))
              else map_option (apfst (\<lambda>ms. J_Obj (own_properties ms))) (parse_members to_num n cs))
           else if c = 110 then json_literal ''null'' J_Null (c # cs)
           else if c = 116 then json_literal ''true'' (J_Bool True) (c # cs)
           else if c = 102 then json_literal ''false'' (J_Bool False) (c # cs)
           else map_option (apfst (\<lambda>d. J_Num (to_num d))) (scan_number (c # cs))))"
| "parse_elements to_num 0 s = None"
| "parse_elements to_num (Suc n) s =
     (case parse_value to_num n s of
        None \<Rightarrow> None
      | Some (v, r) \<Rightarrow>
          (case skip_ws r of
             [] \<Rightarrow> None
           | c # cs \<Rightarrow>
               (if c = comma then map_option (apfst (Cons v)) (parse_elements to_num n cs)
                else if c = 93 then Some ([v], cs)
                else None)))"
| "parse_members to_num 0 s = None"
| "parse_members to_num (Suc n) s =
     (case skip_ws s of
        [] \<Rightarrow> None
      | q # qs \<Rightarrow>
          (if q \<noteq> 34 then None
           else
             (case string_body qs of
                None \<Rightarrow> None
              | Some (k, r0) \<Rightarrow>
                  (if take 1 (skip_ws r0) \<noteq> [colon] then None
                   else
                     (case parse_value to_num n (drop 1 (skip_ws r0)) of
                        None \<Rightarrow> None
                      | Some (v, r) \<Rightarrow>
                          (case skip_ws r of
                             [] \<Rightarrow> None
                           | c # cs \<Rightarrow>
                               (if c = comma
                                then map_option (apfst (Cons (k, v))) (parse_members to_num n cs)
                                else if c = 125 then Some ([(k, v)], cs)
                                else None)))))))"

text \<open>\<open>JSON.parse\<close>; \<open>None\<close> is the \<open>SyntaxError\<close>.\<close>

definition json_parse :: "(jstr \<Rightarrow> 'n) \<Rightarrow> jstr \<Rightarrow> 'n json option" where
  "json_parse to_num s =
     (case parse_value to_num (2 * length s + 2) s of
        Some (v, r) \<Rightarrow> if skip_ws r = [] then Some v else None
      | None \<Rightarrow> None)"

section \<open>Printing\<close>

definition unicode_escape :: "jchar \<Rightarrow> jstr" where
  "unicode_escape c =
     (let n = unat c; h = (\<lambda>d. if d < 10 then 48 + of_nat d else 87 + of_nat d)
      in [92, 117, h (n div 4096), h (n div 256 mod 16), h (n div 16 mod 16), h (n mod 16)])"

definition quote_unit :: "jchar \<Rightarrow> jstr" where
  "quote_unit c =
     (case map_of [(8, 98), (9, 116), (10, 110), (12, 102), (13, 114), (34, 34), (92, 92)] c of
        Some e \<Rightarrow> [92, e]
      | None \<Rightarrow> if c < 32 \<or> is_high c \<or> is_low c then unicode_escape c else [c])"

text \<open>A pair of surrogates is kept, a lone one is escaped.\<close>

fun quote_body :: "jstr \<Rightarrow> jstr" where
  "quote_body [] = []"
| "quote_body [c] = quote_unit c"
| "quote_body (c # d # cs) =
     (if is_high c \<and> is_low d then c # d # quote_body cs else quote_unit c @ quote_body (d # cs))"

definition json_quote :: "jstr \<Rightarrow> jstr" where
  "json_quote s = 34 # quote_body s @ [34]"

text \<open>
  \<open>JSON.stringify\<close> with indentation by \<open>gap\<close> blanks (0 for none) inside \<open>ind\<close> of them. A number
  that is not finite is printed as \<open>null\<close>.
\<close>

definition separator :: "nat \<Rightarrow> nat \<Rightarrow> jstr" where
  "separator gap ind = (if gap = 0 then [] else lf # replicate ind 32)"

fun json_text :: "('n \<Rightarrow> jstr option) \<Rightarrow> nat \<Rightarrow> nat \<Rightarrow> 'n json \<Rightarrow> jstr"
and text_elements :: "('n \<Rightarrow> jstr option) \<Rightarrow> nat \<Rightarrow> nat \<Rightarrow> 'n json list \<Rightarrow> jstr"
and text_members :: "('n \<Rightarrow> jstr option) \<Rightarrow> nat \<Rightarrow> nat \<Rightarrow> (jstr \<times> 'n json) list \<Rightarrow> jstr" where
  "json_text of_num gap ind J_Null = js ''null''"
| "json_text of_num gap ind (J_Bool b) = (if b then js ''true'' else js ''false'')"
| "json_text of_num gap ind (J_Num x) = (case of_num x of Some d \<Rightarrow> d | None \<Rightarrow> js ''null'')"
| "json_text of_num gap ind (J_Str s) = json_quote s"
| "json_text of_num gap ind (J_Arr vs) =
     (if vs = [] then [91, 93]
      else 91 # separator gap (ind + gap) @ text_elements of_num gap (ind + gap) vs @ separator gap ind @ [93])"
| "json_text of_num gap ind (J_Obj ms) =
     (if ms = [] then [123, 125]
      else 123 # separator gap (ind + gap) @ text_members of_num gap (ind + gap) ms @ separator gap ind @ [125])"
| "text_elements of_num gap ind [] = []"
| "text_elements of_num gap ind (v # vs) =
     json_text of_num gap ind v
     @ (if vs = [] then [] else comma # separator gap ind @ text_elements of_num gap ind vs)"
| "text_members of_num gap ind [] = []"
| "text_members of_num gap ind ((k, v) # ms) =
     json_quote k @ colon # (if gap = 0 then [] else [32]) @ json_text of_num gap ind v
     @ (if ms = [] then [] else comma # separator gap ind @ text_members of_num gap ind ms)"

definition json_stringify :: "('n \<Rightarrow> jstr option) \<Rightarrow> nat \<Rightarrow> 'n json \<Rightarrow> jstr" where
  "json_stringify of_num gap v = json_text of_num gap 0 v"

section \<open>Strings\<close>

lemma hex_lower_all:
  "list_all (\<lambda>d. hex_value (if d < 10 then 48 + of_nat d else 87 + of_nat d) = Some d) [0..<16]"
  by code_simp

lemma hex_lower: "d < 16 \<Longrightarrow> hex_value (if d < 10 then 48 + of_nat d else 87 + of_nat d) = Some d"
  using hex_lower_all unfolding list_all_iff by (metis atLeastLessThan_iff le0 set_upt)

lemma unit_from_nibbles:
  "(((n div 4096) * 16 + n div 256 mod 16) * 16 + n div 16 mod 16) * 16 + n mod 16 = (n::nat)"
proof -
  have "n div 4096 = n div 256 div 16" "n div 256 = n div 16 div 16" by (simp_all add: div_mult2_eq [symmetric])
  then have "(n div 4096) * 16 + n div 256 mod 16 = n div 256"
    and "n div 256 * 16 + n div 16 mod 16 = n div 16"
    by (metis div_mult_mod_eq)+
  then show ?thesis by (metis div_mult_mod_eq)
qed

lemma read_unicode_escape:
  "string_body (unicode_escape c @ t) = map_option (apfst (Cons c)) (string_body t)"
proof -
  let ?n = "unat c"
  have "?n < 65536" using unsigned_less [of c] by simp
  then have "?n div 4096 < 16" by simp
  moreover have same: "of_nat ?n = c" by simp
  ultimately have "hex4 (if ?n div 4096 < 10 then 48 + of_nat (?n div 4096) else 87 + of_nat (?n div 4096))
      (if ?n div 256 mod 16 < 10 then 48 + of_nat (?n div 256 mod 16) else 87 + of_nat (?n div 256 mod 16))
      (if ?n div 16 mod 16 < 10 then 48 + of_nat (?n div 16 mod 16) else 87 + of_nat (?n div 16 mod 16))
      (if ?n mod 16 < 10 then 48 + of_nat (?n mod 16) else 87 + of_nat (?n mod 16)) = Some c"
    unfolding hex4_def by (simp only: hex_lower mod_less_divisor option.case prod.case zero_less_numeral
        unit_from_nibbles same)
  then show ?thesis by (simp add: unicode_escape_def Let_def del: of_nat_unat)
qed

lemma quote_table:
  "map_of [(8::jchar, 98::jchar), (9, 116), (10, 110), (12, 102), (13, 114), (34, 34), (92, 92)] c = Some e \<Longrightarrow>
     escape_value e = Some c \<and> e \<noteq> 117"
  by (auto simp: escape_value_def split: if_splits)

lemma quote_table_none:
  "map_of [(8::jchar, 98::jchar), (9, 116), (10, 110), (12, 102), (13, 114), (34, 34), (92, 92)] c = None \<Longrightarrow>
     c \<noteq> 34 \<and> c \<noteq> 92"
  by (auto split: if_splits)

lemma read_quote_unit: "string_body (quote_unit c @ t) = map_option (apfst (Cons c)) (string_body t)"
proof (cases "map_of [(8::jchar, 98::jchar), (9, 116), (10, 110), (12, 102), (13, 114), (34, 34), (92, 92)] c")
  case None
  then show ?thesis
    using quote_table_none [OF None] read_unicode_escape [of c t]
    unfolding quote_unit_def None by (simp del: map_of.simps)
next
  case (Some e)
  then show ?thesis
    using quote_table [OF Some] unfolding quote_unit_def Some by simp
qed

lemma surrogate_plain: "is_high c \<or> is_low c \<Longrightarrow> c \<noteq> 34 \<and> c \<noteq> 92 \<and> \<not> c < 32"
  by (auto simp: is_high_def is_low_def word_less_nat_alt word_le_nat_alt)

lemma read_quoted_body: "string_body (quote_body s @ 34 # r) = Some (s, r)"
proof (induction s rule: quote_body.induct)
  case (2 c)
  show ?case using read_quote_unit [of c "34 # r"] by simp
next
  case (3 c d cs)
  show ?case
  proof (cases "is_high c \<and> is_low d")
    case True
    then show ?thesis using 3(1) surrogate_plain [of c] surrogate_plain [of d] by simp
  next
    case False
    then have "quote_body (c # d # cs) @ 34 # r = quote_unit c @ quote_body (d # cs) @ 34 # r"
      by (simp only: quote_body.simps if_False append_assoc)
    then show ?thesis
      using 3(2) [OF False] read_quote_unit [of c "quote_body (d # cs) @ 34 # r"]
      by (simp only: option.map apfst_conv)
  qed
qed simp

section \<open>Fuel\<close>

lemma skip_ws_length: "length (skip_ws s) \<le> length s"
  by (simp add: skip_ws_def length_dropWhile_le)

lemma skip_ws_Cons: "skip_ws s = c # cs \<Longrightarrow> length cs < length s"
  using skip_ws_length [of s] by simp

lemma string_body_length: "string_body s = Some (v, r) \<Longrightarrow> length r < length s"
proof (induction s arbitrary: v rule: string_body.induct)
  case (2 c cs)
  then show ?case
    by (auto split: if_splits list.splits option.splits) (force dest: less_SucI)+
qed simp

lemma scan_digits_length: "scan_digits s = Some (d, r) \<Longrightarrow> length r < length s"
  by (cases s) (auto simp: scan_digits_def Let_def split: if_splits)

lemma scan_number_length: "scan_number s = Some (d, r) \<Longrightarrow> length r < length s"
proof -
  have int: "scan_int s = Some (d, r) \<Longrightarrow> length r < length s" for s d r
    by (cases s) (auto simp: scan_int_def dest: scan_digits_length split: if_splits)
  have frac: "scan_frac s = Some (d, r) \<Longrightarrow> length r \<le> length s" for s d r
    by (auto simp: scan_frac_def dest!: scan_digits_length split: list.splits if_splits)
  have exp: "scan_exp s = Some (d, r) \<Longrightarrow> length r \<le> length s" for s d r
    by (auto simp: scan_exp_def dest!: scan_digits_length split: list.splits if_splits)
  have unsigned: "scan_unsigned s = Some (d, r) \<Longrightarrow> length r < length s" for s d r
    by (auto simp: scan_unsigned_def dest!: int frac exp split: option.splits)
  show "scan_number s = Some (d, r) \<Longrightarrow> length r < length s"
    by (auto simp: scan_number_def dest!: unsigned split: list.splits if_splits)
qed

lemma json_literal_length: "json_literal w v s = Some (v', r) \<Longrightarrow> w \<noteq> [] \<Longrightarrow> length r < length s"
  by (cases s; cases w) (auto simp: json_literal_def split: if_splits)

lemma parse_lengths:
  shows value_length: "parse_value to_num n s = Some (v, r) \<Longrightarrow> length r < length s"
    and elements_length: "parse_elements to_num n s' = Some (vs, r') \<Longrightarrow> length r' < length s'"
    and members_length: "parse_members to_num n s'' = Some (ms, r'') \<Longrightarrow> length r'' < length s''"
proof (induction to_num n s and to_num n s' and to_num n s'' arbitrary: v r and vs r' and ms r''
    rule: parse_value_parse_elements_parse_members.induct)
  case (2 to_num n s)
  then obtain c cs where s: "skip_ws s = c # cs" by (cases "skip_ws s") auto
  have len: "length cs < length s" using skip_ws_Cons [OF s] .
  have "length r < length (c # cs)"
    using 2(3) 2(1) [OF s] 2(2) [OF s] skip_ws_length [of cs]
    by (force simp: s split: if_splits dest: string_body_length scan_number_length json_literal_length)
  then show ?case using skip_ws_length [of s] s by simp
next
  case (4 to_num n s)
  then obtain v r where v: "parse_value to_num n s = Some (v, r)" by (auto split: option.splits)
  then obtain c cs where r: "skip_ws r = c # cs" using 4(3) by (cases "skip_ws r") auto
  have "length r' \<le> length cs"
    using 4(3) 4(2) [OF v refl r] by (force simp: v r split: if_splits)
  then show ?case using 4(1) [OF v] skip_ws_Cons [OF r] by simp
next
  case (6 to_num n s)
  then obtain q qs where s: "skip_ws s = q # qs" by (cases "skip_ws s") auto
  then obtain k r0 where k: "string_body qs = Some (k, r0)" and q: "q = 34"
    using 6(3) by (auto split: if_splits option.splits)
  then obtain v r where v: "parse_value to_num n (drop 1 (skip_ws r0)) = Some (v, r)"
    and col: "take 1 (skip_ws r0) = [colon]"
    using 6(3) s by (auto split: if_splits option.splits)
  then obtain c cs where r: "skip_ws r = c # cs" using 6(3) s k q by (cases "skip_ws r") auto
  have "length r'' \<le> length cs"
    using 6(3) 6(2) [OF s _ k refl _ v refl r] by (fastforce simp: s q k col v r simp del: One_nat_def split: if_splits)
  moreover have "length r < length (drop 1 (skip_ws r0))"
    using 6(1) [OF s _ k refl _ v] q col by simp
  ultimately show ?case
    using skip_ws_Cons [OF r] skip_ws_length [of r0] string_body_length [OF k] skip_ws_Cons [OF s] by simp
qed simp_all


text \<open>With fuel for the length of the text, one more unit changes nothing.\<close>

lemma one_more_fuel:
  shows value_fuel: "2 * length s + 1 \<le> n \<Longrightarrow> parse_value to_num (Suc n) s = parse_value to_num n s"
    and elements_fuel:
      "2 * length s' + 2 \<le> n \<Longrightarrow> parse_elements to_num (Suc n) s' = parse_elements to_num n s'"
    and members_fuel:
      "2 * length s'' + 2 \<le> n \<Longrightarrow> parse_members to_num (Suc n) s'' = parse_members to_num n s''"
proof (induction to_num n s and to_num n s' and to_num n s''
    rule: parse_value_parse_elements_parse_members.induct)
  case (2 to_num n s)
  note step = parse_value.simps(2) [of to_num _ s]
  show ?case
  proof (cases "skip_ws s")
    case (Cons c cs)
    have fuel: "2 * length cs + 2 \<le> n" using 2(3) skip_ws_Cons [OF Cons] by simp
    note IH = 2(1) [OF Cons] 2(2) [OF Cons]
    show ?thesis
      unfolding step Cons list.case using IH fuel by (simp del: One_nat_def)
  qed (simp add: step)
next
  case (4 to_num n s)
  note step = parse_elements.simps(2) [of to_num _ s]
  have v: "parse_value to_num (Suc n) s = parse_value to_num n s" using 4(1,3) by simp
  show ?case
  proof (cases "parse_value to_num n s")
    case (Some x)
    obtain w r where x: "x = (w, r)" by fastforce
    show ?thesis
    proof (cases "skip_ws r")
      case (Cons c cs)
      have "2 * length cs + 2 \<le> n"
        using 4(3) skip_ws_Cons [OF Cons] value_length [OF Some [unfolded x]] by simp
      then have "c = comma \<Longrightarrow> parse_elements to_num (Suc n) cs = parse_elements to_num n cs"
        using 4(2) [OF Some x [symmetric] Cons] by simp
      then show ?thesis unfolding step v Some x option.case prod.case Cons list.case by simp
    qed (simp only: step v Some x option.case prod.case list.case)
  qed (simp only: step v option.case)
next
  case (6 to_num n s)
  note step = parse_members.simps(2) [of to_num _ s]
  show ?case
  proof (cases "skip_ws s")
    case (Cons q qs)
    show ?thesis
    proof (cases "string_body qs")
      case (Some x)
      obtain k r0 where x: "x = (k, r0)" by fastforce
      let ?t = "drop 1 (skip_ws r0)"
      have t: "length ?t < length s"
        using string_body_length [OF Some [unfolded x]] skip_ws_length [of r0] skip_ws_Cons [OF Cons] by simp
      show ?thesis
      proof (cases "q = 34 \<and> take 1 (skip_ws r0) = [colon]")
        case ok: True
        have v: "parse_value to_num (Suc n) ?t = parse_value to_num n ?t"
          using 6(1) [OF Cons _ Some x [symmetric]] ok t 6(3) by simp
        show ?thesis
        proof (cases "parse_value to_num n ?t")
          case val: (Some y)
          obtain w r where y: "y = (w, r)" by fastforce
          show ?thesis
          proof (cases "skip_ws r")
            case r: (Cons c cs)
            have "2 * length cs + 2 \<le> n"
              using 6(3) skip_ws_Cons [OF r] value_length [OF val [unfolded y]] t by simp
            then have "c = comma \<Longrightarrow> parse_members to_num (Suc n) cs = parse_members to_num n cs"
              using 6(2) [OF Cons _ Some x [symmetric] _ val y [symmetric] r] ok by simp
            then show ?thesis
              unfolding step Cons list.case Some x option.case prod.case v val y r using ok by simp
          qed (simp only: step Cons list.case Some x option.case prod.case v val y)
        qed (simp only: step Cons list.case Some x option.case prod.case v)
      qed (simp only: step Cons list.case Some x option.case prod.case; auto)
    qed (simp add: step Cons)
  qed (simp add: step)
qed simp_all

lemma fuel_enough: "n \<le> m \<Longrightarrow> 2 * length s + 1 \<le> n \<Longrightarrow> parse_value to_num m s = parse_value to_num n s"
proof (induction m rule: dec_induct)
  case (step m)
  then show ?case using value_fuel [of s m to_num] by (simp only: order_trans)
qed simp


section \<open>The round trip\<close>

definition num_stop :: "jstr \<Rightarrow> bool" where
  "num_stop r \<longleftrightarrow> r = [] \<or> hd r \<in> {9, 10, 13, 32, 44, 93, 125}"

text \<open>What the printing of numbers promises: a literal that the parser reads in full.\<close>

locale number_text =
  fixes of_num :: "'n \<Rightarrow> jstr option"
  assumes scans: "of_num x = Some d \<Longrightarrow> num_stop r \<Longrightarrow> scan_number (d @ r) = Some (d, r)"

text \<open>
  The values that a document can have and that printing keeps: objects in the order of their
  properties, and numbers with \<open>ok\<close>; for the round trip those that are read back as they were.
\<close>

fun json_wf :: "('n \<Rightarrow> bool) \<Rightarrow> 'n json \<Rightarrow> bool"
and elements_wf :: "('n \<Rightarrow> bool) \<Rightarrow> 'n json list \<Rightarrow> bool"
and members_wf :: "('n \<Rightarrow> bool) \<Rightarrow> (jstr \<times> 'n json) list \<Rightarrow> bool" where
  "json_wf ok (J_Num x) = ok x"
| "json_wf ok (J_Arr vs) = elements_wf ok vs"
| "json_wf ok (J_Obj ms) = (own_properties ms = ms \<and> members_wf ok ms)"
| "json_wf ok J_Null = True"
| "json_wf ok (J_Bool b) = True"
| "json_wf ok (J_Str s) = True"
| "elements_wf ok [] = True"
| "elements_wf ok (v # vs) = (json_wf ok v \<and> elements_wf ok vs)"
| "members_wf ok [] = True"
| "members_wf ok ((k, v) # ms) = (json_wf ok v \<and> members_wf ok ms)"

definition reads_back :: "(jstr \<Rightarrow> 'n) \<Rightarrow> ('n \<Rightarrow> jstr option) \<Rightarrow> 'n \<Rightarrow> bool" where
  "reads_back to_num of_num x = (case of_num x of Some d \<Rightarrow> to_num d = x | None \<Rightarrow> False)"

lemma skip_ws_blanks [simp]: "skip_ws (separator gap ind @ t) = skip_ws t"
proof -
  have "dropWhile json_ws (replicate ind 32 @ t) = dropWhile json_ws t"
    by (induction ind) (simp_all add: json_ws_def)
  then show ?thesis by (simp add: skip_ws_def separator_def json_ws_def)
qed

lemma skip_ws_stop: "\<not> json_ws c \<Longrightarrow> skip_ws (c # t) = c # t"
  by (simp add: skip_ws_def)

lemma skip_ws_idem [simp]: "skip_ws (skip_ws s) = skip_ws s"
  by (simp add: skip_ws_def)

lemma value_skip: "skip_ws s = skip_ws t \<Longrightarrow> parse_value to_num n s = parse_value to_num n t"
  by (cases n) simp_all

lemma members_skip: "skip_ws s = skip_ws t \<Longrightarrow> parse_members to_num n s = parse_members to_num n t"
  by (cases n) simp_all

lemma elements_skip: "skip_ws s = skip_ws t \<Longrightarrow> parse_elements to_num n s = parse_elements to_num n t"
  using value_skip [of s t to_num "n - 1"] by (cases n) (simp_all del: parse_value.simps)

lemma stop_separator [simp]: "num_stop (separator gap ind @ 93 # t)" "num_stop (separator gap ind @ 125 # t)"
  by (simp_all add: num_stop_def separator_def)

lemma stop_comma [simp]: "num_stop (comma # t)"
  by (simp add: num_stop_def)

lemma scan_number_head: "scan_number (c # cs) = Some x \<Longrightarrow> c = 45 \<or> is_digit c"
  by (auto simp: scan_number_def scan_unsigned_def scan_int_def scan_digits_def is_digit_def Let_def
      split: if_splits option.splits)


context number_text
begin

lemma number_head: "of_num x = Some d \<Longrightarrow> \<exists>c cs. d = c # cs \<and> (c = 45 \<or> is_digit c)"
proof -
  assume d: "of_num x = Some d"
  have scan: "scan_number d = Some (d, [])" using scans [OF d, of "[]"] by (simp add: num_stop_def)
  then obtain c cs where "d = c # cs" using scan_number_length [OF scan] by (cases d) auto
  then show ?thesis using scan scan_number_head by blast
qed

lemma text_head:
  assumes "json_wf ok v" and "\<forall>x. ok x \<longrightarrow> reads_back to_num of_num x"
  shows "\<exists>c cs. json_text of_num gap ind v = c # cs \<and> \<not> json_ws c \<and> c \<noteq> 93"
proof (cases v)
  case (J_Num x)
  then obtain d where d: "of_num x = Some d" using assms by (auto simp: reads_back_def split: option.splits)
  then obtain c cs where c: "d = c # cs" "c = 45 \<or> is_digit c" using number_head by blast
  then have "\<not> json_ws c" "c \<noteq> 93"
    by (auto simp: is_digit_def json_ws_def word_le_nat_alt)
  then show ?thesis using J_Num d c by simp
qed (simp_all add: json_ws_def json_quote_def)

lemma parse_number:
  assumes d: "of_num x = Some d" and "num_stop r"
  shows "parse_value to_num (Suc n) (d @ r) = Some (J_Num (to_num d), r)"
proof -
  obtain c cs where c: "d = c # cs" "c = 45 \<or> is_digit c" using number_head [OF d] by blast
  then have "\<not> json_ws c" and other: "c \<noteq> 34" "c \<noteq> 91" "c \<noteq> 123" "c \<noteq> 110" "c \<noteq> 116" "c \<noteq> 102"
    by (auto simp: is_digit_def json_ws_def word_le_nat_alt)
  then have ws: "skip_ws (d @ r) = c # cs @ r" unfolding c(1) by (simp add: skip_ws_stop)
  have "scan_number (c # cs @ r) = Some (d, r)" using scans [OF assms] c(1) by simp
  then show ?thesis unfolding parse_value.simps ws list.case by (simp only: other if_False option.map apfst_conv)
qed

lemma parse_string: "parse_value to_num (Suc n) (json_quote k @ r) = Some (J_Str k, r)"
  using read_quoted_body [of k r]
  by (simp add: json_quote_def skip_ws_stop json_ws_def)

lemma parse_literal:
  "parse_value to_num (Suc n) (js ''null'' @ r) = Some (J_Null, r)"
  "parse_value to_num (Suc n) (js ''true'' @ r) = Some (J_Bool True, r)"
  "parse_value to_num (Suc n) (js ''false'' @ r) = Some (J_Bool False, r)"
  by (simp_all add: skip_ws_stop json_ws_def json_literal_def)

lemma elements_head:
  "elements_wf ok vs \<Longrightarrow> \<forall>x. ok x \<longrightarrow> reads_back to_num of_num x \<Longrightarrow> vs \<noteq> [] \<Longrightarrow>
     \<exists>c cs. text_elements of_num gap ind vs @ t = c # cs \<and> \<not> json_ws c \<and> c \<noteq> 93"
  using text_head [of ok "hd vs" to_num gap ind] by (cases vs) auto

lemma members_head: "ms \<noteq> [] \<Longrightarrow> \<exists>cs. text_members of_num gap ind ms @ t = 34 # cs"
  by (cases ms) (auto simp: json_quote_def)

lemma round_trip:
  shows value_round_trip:
      "\<forall>x. ok x \<longrightarrow> reads_back to_num of_num x \<Longrightarrow> json_wf ok v \<Longrightarrow> num_stop r \<Longrightarrow>
         2 * length (json_text of_num gap ind v @ r) + 1 \<le> n \<Longrightarrow>
         parse_value to_num n (json_text of_num gap ind v @ r) = Some (v, r)"
    and elements_round_trip:
      "\<forall>x. ok x \<longrightarrow> reads_back to_num of_num x \<Longrightarrow> elements_wf ok vs \<Longrightarrow> vs \<noteq> [] \<Longrightarrow>
         2 * length (text_elements of_num gap ind' vs @ separator gap j @ 93 # r') + 2 \<le> n' \<Longrightarrow>
         parse_elements to_num n' (text_elements of_num gap ind' vs @ separator gap j @ 93 # r') = Some (vs, r')"
    and members_round_trip:
      "\<forall>x. ok x \<longrightarrow> reads_back to_num of_num x \<Longrightarrow> members_wf ok ms \<Longrightarrow> ms \<noteq> [] \<Longrightarrow>
         2 * length (text_members of_num gap ind'' ms @ separator gap j' @ 125 # r'') + 2 \<le> n'' \<Longrightarrow>
         parse_members to_num n'' (text_members of_num gap ind'' ms @ separator gap j' @ 125 # r'') = Some (ms, r'')"
proof (induction ok v and ok vs and ok ms
    arbitrary: r ind n and ind' j r' n' and ind'' j' r'' n'' rule: json_wf_elements_wf_members_wf.induct)
  case (1 ok x)
  then obtain d where d: "of_num x = Some d" "to_num d = x" by (auto simp: reads_back_def split: option.splits)
  obtain m where n: "n = Suc m" using 1(4) by (cases n) auto
  show ?case using parse_number [OF d(1) 1(3), of to_num m] by (simp only: json_text.simps d option.case n)
next
  case (2 ok vs)
  obtain m where n: "n = Suc m" using 2(5) by (cases n) auto
  show ?case
  proof (cases "vs = []")
    case False
    let ?e = "text_elements of_num gap (ind + gap) vs @ separator gap ind @ 93 # r"
    obtain c cs where head: "?e = c # cs" "\<not> json_ws c" "c \<noteq> 93"
      using elements_head [OF _ 2(2) False] 2(3) by (metis json_wf.simps(2))
    have shape: "json_text of_num gap ind (J_Arr vs) @ r = 91 # separator gap (ind + gap) @ ?e"
      using False by simp
    have e: "parse_elements to_num m ?e = Some (vs, r)"
      using 2(1) [OF 2(2) _ False] 2(3,5) unfolding shape n by simp
    have "skip_ws (separator gap (ind + gap) @ ?e) = c # cs" using head by (simp add: skip_ws_stop)
    then have "parse_elements to_num m (separator gap (ind + gap) @ ?e) = Some (vs, r)"
      using e elements_skip [of "separator gap (ind + gap) @ ?e" ?e to_num m] by simp
    then show ?thesis unfolding n shape using head
      by (simp add: skip_ws_stop json_ws_def [of 91])
  qed (simp add: n skip_ws_stop json_ws_def)
next
  case (3 ok ms)
  obtain m where n: "n = Suc m" using 3(5) by (cases n) auto
  show ?case
  proof (cases "ms = []")
    case False
    let ?e = "text_members of_num gap (ind + gap) ms @ separator gap ind @ 125 # r"
    obtain cs where head: "?e = 34 # cs"
      using members_head [OF False] by blast
    have shape: "json_text of_num gap ind (J_Obj ms) @ r = 123 # separator gap (ind + gap) @ ?e"
      using False by simp
    have e: "parse_members to_num m ?e = Some (ms, r)"
      using 3(1) [OF 3(2) _ False] 3(3,5) unfolding shape n by simp
    have "skip_ws (separator gap (ind + gap) @ ?e) = 34 # cs"
      using head by (simp add: skip_ws_stop json_ws_def)
    then have "parse_members to_num m (separator gap (ind + gap) @ ?e) = Some (ms, r)"
      using e members_skip [of "separator gap (ind + gap) @ ?e" ?e to_num m] by simp
    then show ?thesis unfolding n shape using head 3(3)
      by (simp add: skip_ws_stop json_ws_def)
  qed (simp add: n skip_ws_stop json_ws_def)
next
  case (4 ok)
  then obtain m where "n = Suc m" by (cases n) auto
  then show ?case using parse_literal(1) by (simp only: json_text.simps)
next
  case (5 ok b)
  then obtain m where "n = Suc m" by (cases n) auto
  then show ?case using parse_literal(2,3) by (cases b) (simp_all only: json_text.simps if_True if_False)
next
  case (6 ok s)
  then obtain m where "n = Suc m" by (cases n) auto
  then show ?case using parse_string by (simp only: json_text.simps)
next
  case (8 ok v vs)
  obtain m where n: "n' = Suc m" using 8(6) by (cases n') auto
  let ?rest = "(if vs = [] then separator gap j @ 93 # r'
     else comma # separator gap ind' @ text_elements of_num gap ind' vs @ separator gap j @ 93 # r')"
  have shape: "text_elements of_num gap ind' (v # vs) @ separator gap j @ 93 # r'
      = json_text of_num gap ind' v @ ?rest" by simp
  have "num_stop ?rest" by simp
  then have v: "parse_value to_num m (json_text of_num gap ind' v @ ?rest) = Some (v, ?rest)"
    using 8(1) [OF 8(3), of ?rest ind' m] 8(4,6) unfolding shape n by simp
  show ?case
  proof (cases "vs = []")
    case True
    then show ?thesis
      unfolding n shape parse_elements.simps v option.case prod.case by (simp add: skip_ws_stop json_ws_def)
  next
    case False
    let ?t = "text_elements of_num gap ind' vs @ separator gap j @ 93 # r'"
    have "parse_elements to_num m ?t = Some (vs, r')"
      using 8(2) [OF 8(3) _ False, of ind' j r' m] 8(4,6) unfolding n by (simp add: False)
    then have "parse_elements to_num m (separator gap ind' @ ?t) = Some (vs, r')"
      using elements_skip [of "separator gap ind' @ ?t" ?t to_num m] by simp
    then show ?thesis
      using False unfolding n shape parse_elements.simps v option.case prod.case
      by (simp add: skip_ws_stop json_ws_def)
  qed
next
  case (10 ok k v ms)
  obtain m where n: "n'' = Suc m" using 10(6) by (cases n'') auto
  let ?sp = "if gap = 0 then [] else [32::jchar]"
  let ?rest = "(if ms = [] then separator gap j' @ 125 # r''
     else comma # separator gap ind'' @ text_members of_num gap ind'' ms @ separator gap j' @ 125 # r'')"
  let ?v = "?sp @ json_text of_num gap ind'' v @ ?rest"
  have shape: "text_members of_num gap ind'' ((k, v) # ms) @ separator gap j' @ 125 # r''
      = 34 # quote_body k @ 34 # colon # ?v" by (simp add: json_quote_def)
  have "num_stop ?rest" by simp
  then have "parse_value to_num m (json_text of_num gap ind'' v @ ?rest) = Some (v, ?rest)"
    using 10(1) [OF 10(3), of ?rest ind'' m] 10(4,6) unfolding shape n by simp
  then have v: "parse_value to_num m ?v = Some (v, ?rest)"
    using value_skip [of ?v "json_text of_num gap ind'' v @ ?rest" to_num m]
    by (simp add: skip_ws_def json_ws_def)
  have member: "parse_members to_num (Suc m) (34 # quote_body k @ 34 # colon # ?v) =
      (case skip_ws ?rest of
         [] \<Rightarrow> None
       | c # cs \<Rightarrow> (if c = comma then map_option (apfst (Cons (k, v))) (parse_members to_num m cs)
                   else if c = 125 then Some ([(k, v)], cs) else None))"
    using v read_quoted_body [of k "colon # ?v"]
    by (simp add: skip_ws_stop json_ws_def [of 34] json_ws_def [of colon] del: append_Cons append.simps parse_value.simps)
  show ?case
  proof (cases "ms = []")
    case True
    then show ?thesis unfolding n shape member by (simp add: skip_ws_stop json_ws_def)
  next
    case False
    let ?t = "text_members of_num gap ind'' ms @ separator gap j' @ 125 # r''"
    have "parse_members to_num m ?t = Some (ms, r'')"
      using 10(2) [OF 10(3) _ False, of ind'' j' r'' m] 10(4,6) unfolding n by (simp add: False)
    then have "parse_members to_num m (separator gap ind'' @ ?t) = Some (ms, r'')"
      using members_skip [of "separator gap ind'' @ ?t" ?t to_num m] by simp
    then show ?thesis
      using False unfolding n shape member by (simp add: skip_ws_stop json_ws_def)
  qed
qed simp_all

lemma stringify_parses:
  assumes "json_wf (reads_back to_num of_num) v"
  shows "json_parse to_num (json_stringify of_num gap v) = Some v"
proof -
  have "parse_value to_num (2 * length (json_text of_num gap 0 v) + 2) (json_text of_num gap 0 v @ []) = Some (v, [])"
    using assms by (intro value_round_trip [of "reads_back to_num of_num"]) (simp_all add: num_stop_def)
  then show ?thesis by (simp add: json_parse_def json_stringify_def skip_ws_def)
qed

end

section \<open>What the parser returns\<close>

lemma put_fresh: "k \<notin> fst ` set ps \<Longrightarrow> put_property k v ps = ps @ [(k, v)]"
  by (induction k v ps rule: put_property.induct) auto

lemma put_keys: "fst ` set (put_property k v ps) = insert k (fst ` set ps)"
  by (induction k v ps rule: put_property.induct) auto

lemma put_subset: "set (put_property k v ps) \<subseteq> insert (k, v) (set ps)"
  by (induction k v ps rule: put_property.induct) auto

lemma put_distinct: "distinct (map fst ps) \<Longrightarrow> distinct (map fst (put_property k v ps))"
  by (induction k v ps rule: put_property.induct) (simp_all add: put_keys, blast)

lemma fold_put_fresh:
  "distinct (map fst (acc @ ps)) \<Longrightarrow> fold (\<lambda>(k, v). put_property k v) ps acc = acc @ ps"
  by (induction ps arbitrary: acc) (auto simp: put_fresh)

lemma fold_put_distinct:
  "distinct (map fst acc) \<Longrightarrow> distinct (map fst (fold (\<lambda>(k, v). put_property k v) ps acc))"
  by (induction ps arbitrary: acc) (auto simp: put_distinct)

lemma fold_put_subset: "set (fold (\<lambda>(k, v). put_property k v) ps acc) \<subseteq> set acc \<union> set ps"
  using put_subset by (induction ps arbitrary: acc) fastforce+

lemma own_subset: "set (own_properties ps) \<subseteq> set ps"
  using fold_put_subset [of ps "[]"] by (auto simp: own_properties_def Let_def)

lemma sort_key_sorted: "sorted (map f xs) \<Longrightarrow> sort_key f xs = xs"
  by (induction xs) (simp_all add: insort_is_Cons)

lemma own_idem: "own_properties (own_properties ps) = own_properties ps"
proof -
  let ?qs = "fold (\<lambda>(k, v). put_property k v) ps []"
  let ?f = "\<lambda>(k, _). read_digits k" and ?i = "\<lambda>(k, _). is_index k"
  let ?sorted = "sort_key ?f (filter ?i ?qs)"
  have own: "own_properties ps = ?sorted @ filter (\<lambda>(k, _). \<not> is_index k) ?qs"
    by (simp add: own_properties_def Let_def)
  have d: "distinct (map fst ?qs)" by (rule fold_put_distinct) simp
  have "distinct (map fst (own_properties ps))"
    using d unfolding own by (auto simp: distinct_map inj_on_def distinct_filter)
  then have "fold (\<lambda>(k, v). put_property k v) (own_properties ps) [] = own_properties ps"
    by (subst fold_put_fresh) simp_all
  then have again: "own_properties (own_properties ps) = sort_key ?f (filter ?i (own_properties ps))
      @ filter (\<lambda>(k, _). \<not> is_index k) (own_properties ps)"
    by (simp add: own_properties_def [of "own_properties ps"] Let_def)
  have i: "filter ?i (own_properties ps) = ?sorted" unfolding own
    by (auto simp: filter_empty_conv intro!: filter_True)
  have not_i: "filter (\<lambda>(k, _). \<not> is_index k) (own_properties ps) = filter (\<lambda>(k, _). \<not> is_index k) ?qs"
    unfolding own by (auto simp: filter_empty_conv intro!: filter_True)
  have "sort_key ?f ?sorted = ?sorted"
    by (rule sort_key_sorted) simp
  then have "own_properties (own_properties ps) = ?sorted @ filter (\<lambda>(k, _). \<not> is_index k) ?qs"
    by (simp only: again i not_i)
  then show ?thesis by (rule trans [OF _ own [symmetric]])
qed

lemma members_wf_all: "members_wf ok ms \<longleftrightarrow> (\<forall>(k, v)\<in>set ms. json_wf ok v)"
  by (induction ms) auto

lemma json_literal_value: "json_literal w v s = Some (v', r) \<Longrightarrow> v' = v"
  by (simp add: json_literal_def split: if_splits)

lemma parse_ordered:
  shows "parse_value to_num n s = Some (v, r) \<Longrightarrow> json_wf (\<lambda>_. True) v"
    and "parse_elements to_num n s' = Some (vs, r') \<Longrightarrow> elements_wf (\<lambda>_. True) vs"
    and "parse_members to_num n s'' = Some (ms, r'') \<Longrightarrow> members_wf (\<lambda>_. True) ms"
proof (induction to_num n s and to_num n s' and to_num n s'' arbitrary: v r and vs r' and ms r''
    rule: parse_value_parse_elements_parse_members.induct)
  case (2 to_num n s)
  then obtain c cs where s: "skip_ws s = c # cs" by (cases "skip_ws s") auto
  have own: "members_wf (\<lambda>_. True) ms \<Longrightarrow> members_wf (\<lambda>_. True) (own_properties ms)"
    for ms :: "(jstr \<times> 'a json) list"
    using own_subset [of ms] by (auto simp: members_wf_all)
  show ?case
    using 2(3) 2(1) [OF s] 2(2) [OF s]
    by (auto simp: s own_idem own_properties_def [of "[]"] split: if_splits dest!: json_literal_value intro: own)
next
  case (4 to_num n s)
  then obtain v r where v: "parse_value to_num n s = Some (v, r)" by (auto split: option.splits)
  then obtain c cs where r: "skip_ws r = c # cs" using 4(3) by (cases "skip_ws r") auto
  show ?case using 4(3) 4(1) [OF v] 4(2) [OF v refl r] by (force simp: v r split: if_splits)
next
  case (6 to_num n s)
  then obtain q qs where s: "skip_ws s = q # qs" by (cases "skip_ws s") auto
  then obtain k r0 where k: "string_body qs = Some (k, r0)" and q: "q = 34"
    using 6(3) by (auto split: if_splits option.splits)
  then obtain v r where v: "parse_value to_num n (drop 1 (skip_ws r0)) = Some (v, r)"
    and col: "take 1 (skip_ws r0) = [colon]"
    using 6(3) s by (auto split: if_splits option.splits)
  then obtain c cs where r: "skip_ws r = c # cs" using 6(3) s k q by (cases "skip_ws r") auto
  show ?case
    using 6(3) 6(1) [OF s _ k refl _ v] 6(2) [OF s _ k refl _ v refl r]
    by (fastforce simp: s q k col v r simp del: One_nat_def split: if_splits)
qed simp_all

lemma json_wf_ordered:
  shows "json_wf ok v \<longleftrightarrow> json_wf (\<lambda>_. True) v \<and> (\<forall>x\<in>set_json v. ok x)"
    and "elements_wf ok vs \<longleftrightarrow> elements_wf (\<lambda>_. True) vs \<and> (\<forall>v\<in>set vs. \<forall>x\<in>set_json v. ok x)"
    and "members_wf ok ms \<longleftrightarrow> members_wf (\<lambda>_. True) ms \<and> (\<forall>(k, v)\<in>set ms. \<forall>x\<in>set_json v. ok x)"
  by (induction ok v and ok vs and ok ms rule: json_wf_elements_wf_members_wf.induct) auto

lemma parsed_wf:
  assumes "json_parse to_num s = Some v" and "\<forall>x\<in>set_json v. ok x"
  shows "json_wf ok v"
  using assms parse_ordered(1) [of to_num _ s v] json_wf_ordered(1) [of ok v]
  by (auto simp: json_parse_def simp del: parse_value.simps split: option.splits if_splits)

section \<open>Integers\<close>

text \<open>
  The integers that every double arithmetic keeps (\<open>Number.isSafeInteger\<close>) print as their
  digits; other numbers are outside this instance.
\<close>

definition int_literal :: "int \<Rightarrow> jstr option" where
  "int_literal n = (if \<bar>n\<bar> < 2 ^ 53 then Some (int_to_js n) else None)"

definition read_int :: "jstr \<Rightarrow> int" where
  "read_int d = (if take 1 d = [45] then - int (read_digits (drop 1 d)) else int (read_digits d))"

lemma digits_is_digit: "c \<in> set (digits n) \<Longrightarrow> is_digit c"
  using digits_range [of c n] by (simp add: is_digit_def word_le_nat_alt)

lemma digits_head: "take 1 (digits n) = [48] \<Longrightarrow> n = 0"
proof (induction n rule: digits.induct)
  case (1 n)
  show ?case
  proof (cases "n < 10")
    case True
    then have "(48 + of_nat n :: jchar) = 48" using 1(2) by (simp add: digits.simps [of n])
    then show ?thesis using digit_unit [of n] True by simp
  next
    case False
    have "digits n = digits (n div 10) @ [48 + of_nat (n mod 10)]" using False by (subst digits.simps) simp
    moreover have "digits (n div 10) \<noteq> []" by simp
    ultimately have "take 1 (digits (n div 10)) = [48]" using 1(2) by (cases "digits (n div 10)") simp_all
    then show ?thesis using 1(1) False by simp
  qed
qed

lemma scan_digits_all:
  "d \<noteq> [] \<Longrightarrow> \<forall>c\<in>set d. is_digit c \<Longrightarrow> num_stop r \<Longrightarrow> scan_digits (d @ r) = Some (d, r)"
proof -
  assume d: "d \<noteq> []" "\<forall>c\<in>set d. is_digit c" and "num_stop r"
  then have "takeWhile is_digit r = []"
    by (cases r) (auto simp: num_stop_def is_digit_def word_le_nat_alt)
  then have "takeWhile is_digit (d @ r) = d" using d by (simp add: takeWhile_append2)
  then show ?thesis using d by (simp add: scan_digits_def)
qed

lemma scan_int_digits: "num_stop r \<Longrightarrow> scan_unsigned (digits n @ r) = Some (digits n, r)"
proof -
  assume stop: "num_stop r"
  have "scan_int (digits n @ r) = Some (digits n, r)"
  proof (cases "n = 0")
    case True
    then show ?thesis by (simp add: scan_int_def digits.simps [of 0])
  next
    case False
    then have "take 1 (digits n @ r) \<noteq> [48]" using digits_head [of n] by (cases "digits n") auto
    then show ?thesis using scan_digits_all [OF digits_ne _ stop] digits_is_digit by (simp add: scan_int_def)
  qed
  moreover have "scan_frac r = Some ([], r)" "scan_exp r = Some ([], r)"
    using stop by (cases r; auto simp: scan_frac_def scan_exp_def num_stop_def)+
  ultimately show ?thesis by (simp add: scan_unsigned_def)
qed

interpretation safe_int: number_text int_literal
proof
  fix n d r
  assume "int_literal n = Some d" and stop: "num_stop r"
  then have d: "d = int_to_js n" by (simp add: int_literal_def split: if_splits)
  show "scan_number (d @ r) = Some (d, r)"
  proof (cases "n < 0")
    case True
    then show ?thesis using scan_int_digits [OF stop, of "nat (- n)"] d
      by (simp add: int_to_js_def scan_number_def)
  next
    case False
    then have d': "d = digits (nat n)" using d by (simp add: int_to_js_def)
    obtain c cs where c: "digits (nat n) = c # cs" by (cases "digits (nat n)") simp_all
    then have "c \<noteq> 45" using digits_is_digit [of c "nat n"] by (auto simp: is_digit_def word_le_nat_alt)
    then show ?thesis using scan_int_digits [OF stop, of "nat n"] c d' by (simp add: scan_number_def)
  qed
qed

lemma reads_back_int: "reads_back read_int int_literal n \<longleftrightarrow> \<bar>n\<bar> < 2 ^ 53"
proof -
  have "read_int (int_to_js n) = n"
  proof (cases "n < 0")
    case False
    obtain c cs where c: "digits (nat n) = c # cs" by (cases "digits (nat n)") simp_all
    then have "c \<noteq> 45" using digits_is_digit [of c "nat n"] by (auto simp: is_digit_def word_le_nat_alt)
    then show ?thesis using c False read_digits_digits [of "nat n"] by (simp add: int_to_js_def read_int_def)
  qed (simp add: int_to_js_def read_int_def read_digits_digits)
  then show ?thesis by (simp add: reads_back_def int_literal_def)
qed

end
