(* ===== verification/File_Preview.thy ===== *)
theory File_Preview
  imports Preview_Kind Csv_Parser Api_Client Reachability Js_Json
begin

text \<open>
  \<open>web/src/components/FilePreview.tsx\<close>: the effect that loads an object, split at its awaits,
  with the cleanup that cancels it; the object URLs it creates and revokes; and what is
  rendered in each state. The blob a request yields is known by its size; its text arrives
  with a second reply. Object URLs are numbered as the document creates them.
\<close>

section \<open>State\<close>

record preview_props =
  pp_bucket :: jstr
  pp_key :: jstr
  pp_size :: "int option"
  pp_visible :: bool

datatype preview_status = Loading | Ready | Too_Large | Not_Supported | Load_Failed

datatype view_mode = Rendered | Source

record preview_view =
  fp_status :: preview_status
  fp_url :: "nat option"
  fp_text :: jstr
  fp_mode :: view_mode
  fp_ref :: "nat option"

text \<open>A run of the effect at one of its awaits: for the blob, or for the text of a blob.\<close>

record preview_run =
  run_id :: nat
  run_kind :: kind_value
  run_blob :: "nat option"
  run_cancelled :: bool

record preview_sys =
  ps_view :: preview_view
  ps_live :: "(nat \<times> nat) list"
  ps_next_url :: nat
  ps_runs :: "preview_run list"
  ps_current :: "nat option"
  ps_next_run :: nat
  ps_toasts :: "jstr list"

definition preview_init :: preview_sys where
  "preview_init = \<lparr>ps_view = \<lparr>fp_status = Loading, fp_url = None, fp_text = [], fp_mode = Rendered,
       fp_ref = None\<rparr>,
     ps_live = [], ps_next_url = 0, ps_runs = [], ps_current = None, ps_next_run = 0,
     ps_toasts = []\<rparr>"

definition set_status :: "preview_status \<Rightarrow> preview_sys \<Rightarrow> preview_sys" where
  "set_status s sys = sys\<lparr>ps_view := (ps_view sys)\<lparr>fp_status := s\<rparr>\<rparr>"

section \<open>The load effect\<close>

definition revoke :: "preview_sys \<Rightarrow> preview_sys" where
  "revoke sys =
     (case fp_ref (ps_view sys) of
        None \<Rightarrow> sys
      | Some u \<Rightarrow>
          sys\<lparr>ps_live := filter (\<lambda>(v, _). v \<noteq> u) (ps_live sys),
              ps_view := (ps_view sys)\<lparr>fp_ref := None\<rparr>\<rparr>)"

text \<open>The function an effect returns: it cancels its run and revokes the URL.\<close>

definition cancel_run :: "nat \<Rightarrow> preview_run \<Rightarrow> preview_run" where
  "cancel_run c r = (if run_id r = c then r\<lparr>run_cancelled := True\<rparr> else r)"

definition cleanup :: "preview_sys \<Rightarrow> preview_sys" where
  "cleanup sys =
     (case ps_current sys of
        None \<Rightarrow> sys
      | Some c \<Rightarrow>
          revoke (sys\<lparr>ps_runs := map (cancel_run c) (ps_runs sys), ps_current := None\<rparr>))"

definition too_large_hint :: "int option \<Rightarrow> bool" where
  "too_large_hint n \<longleftrightarrow> (case n of None \<Rightarrow> False | Some s \<Rightarrow> s > int MAX_PREVIEW_BYTES)"

definition run :: "(jstr \<Rightarrow> jstr) \<Rightarrow> preview_props \<Rightarrow> preview_sys \<Rightarrow> preview_sys" where
  "run lower props sys =
     (let kind = previewKindFor lower (pp_key props) None;
          fresh = (ps_view sys)\<lparr>fp_status := Loading, fp_url := None, fp_text := [], fp_mode := Rendered\<rparr>;
          sys1 = revoke (sys\<lparr>ps_view := fresh\<rparr>);
          c = ps_next_run sys1;
          sys2 = sys1\<lparr>ps_current := Some c, ps_next_run := Suc c\<rparr>
      in if kind = Kind Unsupported then set_status Not_Supported sys2
         else if too_large_hint (pp_size props) then set_status Too_Large sys2
         else sys2\<lparr>ps_runs := ps_runs sys2 @
                [\<lparr>run_id = c, run_kind = kind, run_blob = None, run_cancelled = False\<rparr>]\<rparr>)"

text \<open>The effect fires: the cleanup of its predecessor, then a new run if visible.\<close>

definition preview_effect :: "(jstr \<Rightarrow> jstr) \<Rightarrow> preview_props \<Rightarrow> preview_sys \<Rightarrow> preview_sys" where
  "preview_effect lower props sys =
     (if pp_visible props then run lower props (cleanup sys) else cleanup sys)"

text \<open>\<open>URL.createObjectURL\<close> and what follows it in the run.\<close>

definition show_url :: "nat \<Rightarrow> preview_sys \<Rightarrow> preview_sys" where
  "show_url n sys =
     (let u = ps_next_url sys
      in sys\<lparr>ps_live := ps_live sys @ [(u, n)], ps_next_url := Suc u,
             ps_view := (ps_view sys)\<lparr>fp_ref := Some u, fp_url := Some u, fp_status := Ready\<rparr>\<rparr>)"

text \<open>
  The \<open>catch\<close> of a run. What it catches is never an axios error (the request is a plain
  \<open>fetch\<close>), which is all \<open>errorMessage\<close> asks.
\<close>

definition run_failed :: "(jstr \<Rightarrow> jstr) \<Rightarrow> preview_sys \<Rightarrow> preview_sys" where
  "run_failed t sys =
     (set_status Load_Failed sys)\<lparr>ps_toasts := ps_toasts sys @
        [errorMessage (Plain_Error []) (t (js ''preview.failed''))]\<rparr>"

text \<open>The run goes on with its blob (or the failure to get it).\<close>

definition blob_reply ::
  "(jstr \<Rightarrow> jstr) \<Rightarrow> preview_run \<Rightarrow> fetch_error + nat \<Rightarrow> preview_sys \<Rightarrow> preview_sys" where
  "blob_reply t r reply sys =
     (if run_cancelled r then sys
      else
        (case reply of
           Inl _ \<Rightarrow> run_failed t sys
         | Inr n \<Rightarrow>
             (if n > MAX_PREVIEW_BYTES then set_status Too_Large sys
              else if isTextualKind (run_kind r) then
                (if n > MAX_TEXT_BYTES then set_status Too_Large sys
                 else sys\<lparr>ps_runs := ps_runs sys @ [r\<lparr>run_blob := Some n\<rparr>]\<rparr>)
              else show_url n sys)))"

text \<open>The run goes on with the text of its blob.\<close>

definition text_reply ::
  "(jstr \<Rightarrow> jstr) \<Rightarrow> preview_run \<Rightarrow> fetch_error + jstr \<Rightarrow> preview_sys \<Rightarrow> preview_sys" where
  "text_reply t r reply sys =
     (if run_cancelled r then sys
      else
        (case reply of
           Inl _ \<Rightarrow> run_failed t sys
         | Inr s \<Rightarrow> sys\<lparr>ps_view := (ps_view sys)\<lparr>fp_text := s, fp_status := Ready\<rparr>\<rparr>))"

definition setViewMode :: "view_mode \<Rightarrow> preview_sys \<Rightarrow> preview_sys" where
  "setViewMode m sys = sys\<lparr>ps_view := (ps_view sys)\<lparr>fp_mode := m\<rparr>\<rparr>"

inductive preview_step :: "(jstr \<Rightarrow> jstr) \<Rightarrow> preview_sys \<Rightarrow> preview_sys \<Rightarrow> bool"
  for lower :: "jstr \<Rightarrow> jstr" where
  fp_effect: "preview_step lower sys (preview_effect lower props sys)"
| fp_unmount: "preview_step lower sys (cleanup sys)"
| fp_toggle: "preview_step lower sys (setViewMode m sys)"
| fp_blob: "ps_runs sys = xs @ r # ys \<Longrightarrow> run_blob r = None \<Longrightarrow>
    preview_step lower sys (blob_reply t r breply (sys\<lparr>ps_runs := xs @ ys\<rparr>))"
| fp_text: "ps_runs sys = xs @ r # ys \<Longrightarrow> run_blob r = Some n \<Longrightarrow>
    preview_step lower sys (text_reply t r treply (sys\<lparr>ps_runs := xs @ ys\<rparr>))"

inductive_cases preview_stepE: "preview_step lower sys sys'"

section \<open>Rendering\<close>

text \<open>\<open>key.replace(/\/+$/, '').split('/')\<close>, last part, or the key if that is empty.\<close>

definition baseName :: "jstr \<Rightarrow> jstr" where
  "baseName key =
     (let b = last (split_on slash (strip_trailing slash key)) in if b = [] then key else b)"

text \<open>
  The elements the body of the dialog may hold. \<open>Pre\<close> shows its string as escaped text. A
  table has its column titles and, per row, one cell for each column (none where the row is
  too short). The \<open>Html_Frame\<close> element is an \<open>iframe\<close> with its \<open>sandbox\<close> attribute.
\<close>

text \<open>
  The \<open>ReactMarkdown\<close> element: the plugins it is given for the Markdown tree and for the HTML tree
  (only one of the latter, \<open>rehype-raw\<close>, would make HTML in the text live), the transformation of
  links if it is not the default one, and the text.
\<close>

record react_markdown =
  md_remarkPlugins :: "string list"
  md_rehypePlugins :: "string list"
  md_urlTransform :: "string option"
  md_children :: jstr

datatype body =
  Center_Spin
| Fallback jstr
| Pre jstr
| Img "nat option" jstr
| Video_Player "nat option"
| Audio_Player "nat option"
| Html_Frame "nat option" "jstr option"
| Markdown_View react_markdown
| Table_View bool "jstr list" "jstr option list list"

definition table_cell :: "jstr list \<Rightarrow> nat \<Rightarrow> jstr option" where
  "table_cell cells i = (if i < length cells then Some (cells ! i) else None)"

definition renderMarkdown :: "jstr \<Rightarrow> body" where
  "renderMarkdown s =
     Markdown_View \<lparr>md_remarkPlugins = [''remarkGfm''], md_rehypePlugins = [], md_urlTransform = None,
       md_children = s\<rparr>"

definition renderCsv :: "jstr \<Rightarrow> jstr \<Rightarrow> body" where
  "renderCsv key s =
     (let table = parseCsv s (delimiterFor key)
      in Table_View (csv_truncated table) (csv_header table)
           (map (\<lambda>cells. map (table_cell cells) [0..<length (csv_header table)]) (csv_rows table)))"

text \<open>
  A JSON document is parsed and printed again with an indentation of two. How a number literal
  is read as a double (\<open>to_num\<close>) and a double printed (\<open>of_num\<close>) are parameters.
\<close>

definition renderJson :: "(jstr \<Rightarrow> 'n) \<Rightarrow> ('n \<Rightarrow> jstr option) \<Rightarrow> jstr \<Rightarrow> body" where
  "renderJson to_num of_num s =
     (case json_parse to_num s of
        Some v \<Rightarrow> Pre (json_stringify of_num 2 v)
      | None \<Rightarrow> Pre s)"

definition structured :: "kind_value \<Rightarrow> bool" where
  "structured kind \<longleftrightarrow> kind = Kind Markdown \<or> kind = Kind Csv \<or> kind = Kind Json"

definition renderBody ::
  "(jstr \<Rightarrow> jstr) \<Rightarrow> (jstr \<Rightarrow> 'n) \<Rightarrow> ('n \<Rightarrow> jstr option) \<Rightarrow> jstr \<Rightarrow> kind_value \<Rightarrow> preview_view \<Rightarrow> body" where
  "renderBody t to_num of_num key kind v =
     (case fp_status v of
        Loading \<Rightarrow> Center_Spin
      | Not_Supported \<Rightarrow> Fallback (t (js ''preview.unsupported''))
      | Too_Large \<Rightarrow> Fallback (t (js ''preview.tooLarge''))
      | Load_Failed \<Rightarrow> Fallback (t (js ''preview.failed''))
      | Ready \<Rightarrow>
          (if fp_mode v = Source \<and> structured kind then Pre (fp_text v)
           else
             (case kind of
                Kind Image \<Rightarrow> Img (fp_url v) (baseName key)
              | Kind Svg \<Rightarrow> Img (fp_url v) (baseName key)
              | Kind Video \<Rightarrow> Video_Player (fp_url v)
              | Kind Audio \<Rightarrow> Audio_Player (fp_url v)
              | Kind Pdf \<Rightarrow> Html_Frame (fp_url v) (Some [])
              | Kind Markdown \<Rightarrow> renderMarkdown (fp_text v)
              | Kind Csv \<Rightarrow> renderCsv key (fp_text v)
              | Kind Json \<Rightarrow> renderJson to_num of_num (fp_text v)
              | Kind Text \<Rightarrow> Pre (fp_text v)
              | _ \<Rightarrow> Fallback (t (js ''preview.unsupported'')))))"

definition showModeToggle :: "kind_value \<Rightarrow> preview_view \<Rightarrow> bool" where
  "showModeToggle kind v \<longleftrightarrow> fp_status v = Ready \<and> structured kind"

definition renderedLabel :: "(jstr \<Rightarrow> jstr) \<Rightarrow> kind_value \<Rightarrow> jstr" where
  "renderedLabel t kind =
     (if kind = Kind Csv then t (js ''preview.modeTable'')
      else if kind = Kind Json then t (js ''preview.modeFormatted'')
      else t (js ''preview.modeRendered''))"

text \<open>
  How Markdown is shown: a link opens in a new tab without an opener, and an image becomes a
  link as well, labelled by its \<open>alt\<close> or else its source, so nothing is fetched by itself.
\<close>

record anchor =
  a_href :: "jstr option"
  a_target :: jstr
  a_rel :: jstr
  a_label :: jstr

definition markdown_a :: "jstr option \<Rightarrow> jstr \<Rightarrow> anchor" where
  "markdown_a href label = \<lparr>a_href = href, a_target = js ''_blank'', a_rel = js ''noopener noreferrer'',
     a_label = label\<rparr>"

definition markdown_img :: "jstr option \<Rightarrow> jstr option \<Rightarrow> anchor" where
  "markdown_img src alt = \<lparr>a_href = src, a_target = js ''_blank'', a_rel = js ''noopener noreferrer'',
     a_label = (if truthy alt then the alt else (case src of Some s \<Rightarrow> s | None \<Rightarrow> []))\<rparr>"

text \<open>The dialog: its title, the toggle if any with its labels, and the body.\<close>

record dialog =
  dlg_title :: jstr
  dlg_open :: bool
  dlg_toggle :: "(jstr \<times> jstr) option"
  dlg_body :: body

definition FilePreview ::
  "(jstr \<Rightarrow> jstr) \<Rightarrow> (jstr \<Rightarrow> jstr) \<Rightarrow> (jstr \<Rightarrow> 'n) \<Rightarrow> ('n \<Rightarrow> jstr option) \<Rightarrow> preview_props \<Rightarrow> preview_view \<Rightarrow> dialog" where
  "FilePreview lower t to_num of_num props v =
     (let kind = previewKindFor lower (pp_key props) None
      in \<lparr>dlg_title = t (js ''preview.title'') @ js '' - '' @ baseName (pp_key props),
          dlg_open = pp_visible props,
          dlg_toggle = (if showModeToggle kind v
                        then Some (renderedLabel t kind, t (js ''preview.modeSource'')) else None),
          dlg_body = renderBody t to_num of_num (pp_key props) kind v\<rparr>)"

section \<open>Object URLs\<close>

text \<open>
  The live object URLs are exactly the one in \<open>urlRef\<close>, if any, and none is larger than the
  cap; while an effect is current that is the URL shown. A run that has not been cancelled is
  the current one, and it has created nothing yet.
\<close>

definition urls_wf :: "preview_sys \<Rightarrow> bool" where
  "urls_wf sys \<longleftrightarrow>
     map fst (ps_live sys) = (case fp_ref (ps_view sys) of None \<Rightarrow> [] | Some u \<Rightarrow> [u]) \<and>
     (\<forall>(u, n)\<in>set (ps_live sys). n \<le> MAX_PREVIEW_BYTES) \<and>
     (if ps_current sys = None then fp_ref (ps_view sys) = None
      else fp_url (ps_view sys) = fp_ref (ps_view sys))"

definition runs_wf :: "preview_sys \<Rightarrow> bool" where
  "runs_wf sys \<longleftrightarrow>
     distinct (map run_id (ps_runs sys)) \<and>
     (\<forall>r\<in>set (ps_runs sys). run_id r < ps_next_run sys \<and>
        (\<not> run_cancelled r \<longrightarrow> ps_current sys = Some (run_id r) \<and> fp_ref (ps_view sys) = None) \<and>
        (\<forall>n. run_blob r = Some n \<longrightarrow> n \<le> MAX_TEXT_BYTES \<and> isTextualKind (run_kind r))) \<and>
     (\<forall>c. ps_current sys = Some c \<longrightarrow> c < ps_next_run sys)"

lemma revoke_live: "urls_wf sys \<Longrightarrow> ps_live (revoke sys) = []"
  by (cases "fp_ref (ps_view sys)") (auto simp: urls_wf_def revoke_def filter_empty_conv)

lemma revoke_fields:
  "fp_ref (ps_view (revoke sys)) = None" "fp_url (ps_view (revoke sys)) = fp_url (ps_view sys)"
  "ps_runs (revoke sys) = ps_runs sys" "ps_current (revoke sys) = ps_current sys"
  "ps_next_run (revoke sys) = ps_next_run sys" "ps_next_url (revoke sys) = ps_next_url sys"
  by (auto simp: revoke_def split: option.split)

lemma set_status_fields:
  "fp_ref (ps_view (set_status s sys)) = fp_ref (ps_view sys)"
  "fp_url (ps_view (set_status s sys)) = fp_url (ps_view sys)"
  "ps_runs (set_status s sys) = ps_runs sys" "ps_current (set_status s sys) = ps_current sys"
  "ps_next_run (set_status s sys) = ps_next_run sys" "ps_live (set_status s sys) = ps_live sys"
  by (simp_all add: set_status_def)

lemma run_failed_fields:
  "fp_ref (ps_view (run_failed t sys)) = fp_ref (ps_view sys)"
  "fp_url (ps_view (run_failed t sys)) = fp_url (ps_view sys)"
  "ps_runs (run_failed t sys) = ps_runs sys" "ps_current (run_failed t sys) = ps_current sys"
  "ps_next_run (run_failed t sys) = ps_next_run sys" "ps_live (run_failed t sys) = ps_live sys"
  by (simp_all add: run_failed_def set_status_def)

definition preview_wf :: "preview_sys \<Rightarrow> bool" where
  "preview_wf sys \<longleftrightarrow> urls_wf sys \<and> runs_wf sys"

lemma cancel_run_fields [simp]: "run_id (cancel_run c r) = run_id r"
  "run_kind (cancel_run c r) = run_kind r" "run_blob (cancel_run c r) = run_blob r"
  "run_cancelled (cancel_run c r) \<longleftrightarrow> run_cancelled r \<or> run_id r = c"
  by (auto simp: cancel_run_def)

lemma cleanup_idle:
  assumes "preview_wf sys"
  shows "ps_live (cleanup sys) = []" and "ps_current (cleanup sys) = None"
    and "\<forall>r\<in>set (ps_runs (cleanup sys)). run_cancelled r"
proof -
  have live: "ps_live (revoke (sys\<lparr>ps_runs := rs, ps_current := None\<rparr>)) = []" for rs
    using assms
    by (cases "fp_ref (ps_view sys)")
       (auto simp: preview_wf_def urls_wf_def revoke_def filter_empty_conv)
  show "ps_live (cleanup sys) = []"
    using assms live by (auto simp: cleanup_def preview_wf_def urls_wf_def split: option.split)
  show "ps_current (cleanup sys) = None"
    by (auto simp: cleanup_def revoke_fields split: option.split)
  show "\<forall>r\<in>set (ps_runs (cleanup sys)). run_cancelled r"
    using assms
    by (auto simp: cleanup_def preview_wf_def runs_wf_def revoke_fields split: option.split)
qed

lemma cleanup_wf:
  assumes "preview_wf sys"
  shows "preview_wf (cleanup sys)"
proof -
  have "fp_ref (ps_view (cleanup sys)) = None"
    using assms by (auto simp: cleanup_def revoke_fields preview_wf_def urls_wf_def split: option.split)
  then have "urls_wf (cleanup sys)"
    using cleanup_idle(1,2) [OF assms] by (simp add: urls_wf_def)
  moreover have "distinct (map run_id (ps_runs (cleanup sys)))"
    using assms
    by (auto simp: cleanup_def preview_wf_def runs_wf_def revoke_fields comp_def split: option.split)
  moreover have "ps_next_run (cleanup sys) = ps_next_run sys"
    by (auto simp: cleanup_def revoke_fields split: option.split)
  moreover have "\<forall>r\<in>set (ps_runs (cleanup sys)). run_id r < ps_next_run sys \<and>
      (\<forall>n. run_blob r = Some n \<longrightarrow> n \<le> MAX_TEXT_BYTES \<and> isTextualKind (run_kind r))"
    using assms
    by (auto simp: cleanup_def preview_wf_def runs_wf_def revoke_fields split: option.split)
  ultimately show ?thesis
    using cleanup_idle(2,3) [OF assms] by (auto simp: preview_wf_def runs_wf_def)
qed

lemma run_wf:
  assumes "preview_wf sys" and "ps_current sys = None"
  shows "preview_wf (run lower props sys)"
proof -
  have idle: "ps_live sys = []" "fp_ref (ps_view sys) = None" "\<forall>r\<in>set (ps_runs sys). run_cancelled r"
    using assms by (auto simp: preview_wf_def urls_wf_def runs_wf_def)
  have runs: "distinct (map run_id (ps_runs sys))"
      "\<forall>r\<in>set (ps_runs sys). run_id r < ps_next_run sys \<and>
        (\<forall>n. run_blob r = Some n \<longrightarrow> n \<le> MAX_TEXT_BYTES \<and> isTextualKind (run_kind r))"
    using assms by (auto simp: preview_wf_def runs_wf_def)
  have [simp]: "revoke (sys\<lparr>ps_view := v\<rparr>) = sys\<lparr>ps_view := v\<rparr>" if "fp_ref v = None" for v
    using that by (simp add: revoke_def)
  show ?thesis
    unfolding preview_wf_def
  proof
    show "urls_wf (run lower props sys)"
      using idle by (simp add: run_def Let_def urls_wf_def set_status_def)
    show "runs_wf (run lower props sys)"
      using idle runs by (auto simp: run_def Let_def runs_wf_def set_status_def less_Suc_eq)
  qed
qed

lemma preview_effect_wf: "preview_wf sys \<Longrightarrow> preview_wf (preview_effect lower props sys)"
  by (simp add: preview_effect_def cleanup_wf run_wf cleanup_idle(2))

text \<open>Taking a run out of the list, and what is known of it when it was not cancelled.\<close>

lemma take_run:
  assumes "preview_wf sys" and "ps_runs sys = xs @ r # ys"
  shows "preview_wf (sys\<lparr>ps_runs := xs @ ys\<rparr>)"
    and "\<not> run_cancelled r \<Longrightarrow> ps_current sys = Some (run_id r) \<and> ps_live sys = [] \<and>
      fp_ref (ps_view sys) = None \<and> (\<forall>r'\<in>set (xs @ ys). run_cancelled r')"
proof -
  show "preview_wf (sys\<lparr>ps_runs := xs @ ys\<rparr>)"
    using assms by (auto simp: preview_wf_def urls_wf_def runs_wf_def)
  assume "\<not> run_cancelled r"
  then have cur: "ps_current sys = Some (run_id r)" "fp_ref (ps_view sys) = None"
    using assms by (auto simp: preview_wf_def runs_wf_def)
  have "run_cancelled r'" if "r' \<in> set (xs @ ys)" for r'
  proof (rule ccontr)
    assume "\<not> run_cancelled r'"
    then have "run_id r' = run_id r" using assms that cur by (auto simp: preview_wf_def runs_wf_def)
    moreover have "run_id r \<notin> run_id ` set (xs @ ys)"
      using assms by (auto simp: preview_wf_def runs_wf_def)
    ultimately show False using that by (metis imageI)
  qed
  then show "ps_current sys = Some (run_id r) \<and> ps_live sys = [] \<and>
      fp_ref (ps_view sys) = None \<and> (\<forall>r'\<in>set (xs @ ys). run_cancelled r')"
    using cur assms(1) by (auto simp: preview_wf_def urls_wf_def)
qed

lemma blob_reply_wf:
  assumes "preview_wf sys" and "ps_runs sys = xs @ r # ys"
  shows "preview_wf (blob_reply t r reply (sys\<lparr>ps_runs := xs @ ys\<rparr>))"
proof (cases "run_cancelled r")
  case True
  then show ?thesis using take_run(1) [OF assms] by (simp add: blob_reply_def)
next
  case False
  let ?sys = "sys\<lparr>ps_runs := xs @ ys\<rparr>"
  have wf: "urls_wf ?sys" "runs_wf ?sys" using take_run(1) [OF assms] by (simp_all add: preview_wf_def)
  note now = take_run(2) [OF assms False]
  have stat: "preview_wf (set_status st ?sys)" "preview_wf (run_failed t ?sys)" for st
    using wf
    by (auto simp: preview_wf_def urls_wf_def runs_wf_def set_status_fields run_failed_fields
        split: if_splits)
  have url: "preview_wf (show_url n ?sys)" if "n \<le> MAX_PREVIEW_BYTES" for n
    using wf now that by (auto simp: preview_wf_def urls_wf_def runs_wf_def show_url_def Let_def)
  have next_stage: "preview_wf (?sys\<lparr>ps_runs := ps_runs ?sys @ [r\<lparr>run_blob := Some n\<rparr>]\<rparr>)"
    if "n \<le> MAX_TEXT_BYTES" "isTextualKind (run_kind r)" for n
    using assms now that by (auto simp: preview_wf_def urls_wf_def runs_wf_def)
  show ?thesis
    using False stat url next_stage
    by (auto simp: blob_reply_def not_less split: sum.split)
qed

lemma text_reply_wf:
  assumes "preview_wf sys" and "ps_runs sys = xs @ r # ys"
  shows "preview_wf (text_reply t r reply (sys\<lparr>ps_runs := xs @ ys\<rparr>))"
  using take_run(1) [OF assms]
  by (auto simp: text_reply_def preview_wf_def urls_wf_def runs_wf_def run_failed_def set_status_def
      split: sum.split)

lemma preview_step_wf: "preview_step lower s s' \<Longrightarrow> preview_wf s \<Longrightarrow> preview_wf s'"
proof (erule preview_stepE)
  fix m assume "preview_wf s" "s' = setViewMode m s"
  then show ?thesis by (simp add: preview_wf_def urls_wf_def runs_wf_def setViewMode_def)
qed (simp_all add: preview_effect_wf cleanup_wf blob_reply_wf text_reply_wf)

interpretation preview: transition_invariant preview_init "preview_step lower" preview_wf
  by unfold_locales
     (simp add: preview_init_def preview_wf_def urls_wf_def runs_wf_def, rule preview_step_wf)

section \<open>Properties\<close>

text \<open>
  C9. Object URLs never leak: however previews open, close and change, and in whatever order
  the requests answer, at most one object URL is alive, it is the one shown, the blob behind it
  is within the cap, and once the dialog is closed none is alive.
\<close>

theorem preview_urls_bounded:
  assumes "reach preview_init (preview_step lower) sys"
  shows "length (ps_live sys) \<le> 1 \<and>
    (\<forall>(u, n)\<in>set (ps_live sys). fp_url (ps_view sys) = Some u \<and> n \<le> MAX_PREVIEW_BYTES) \<and>
    ps_live (cleanup sys) = []"
proof -
  have wf: "preview_wf sys" using preview.always [OF assms] .
  then have live: "map fst (ps_live sys) = (case fp_ref (ps_view sys) of None \<Rightarrow> [] | Some u \<Rightarrow> [u])"
    by (simp add: preview_wf_def urls_wf_def)
  have "length (ps_live sys) \<le> 1"
    using arg_cong [OF live, of length] by (simp split: option.splits)
  moreover have "\<forall>(u, n)\<in>set (ps_live sys). fp_url (ps_view sys) = Some u \<and> n \<le> MAX_PREVIEW_BYTES"
    using wf live by (cases "ps_live sys") (auto simp: preview_wf_def urls_wf_def split: option.splits if_splits)
  ultimately show ?thesis using cleanup_idle(1) [OF wf] by blast
qed

definition photo :: preview_props where
  "photo = \<lparr>pp_bucket = js ''b'', pp_key = js ''a.png'', pp_size = Some 9, pp_visible = True\<rparr>"

definition photo_run :: preview_run where
  "photo_run = \<lparr>run_id = 0, run_kind = Kind Image, run_blob = None, run_cancelled = False\<rparr>"

definition photo_loading :: preview_sys where
  "photo_loading = preview_effect lower_ascii photo preview_init"

definition photo_shown :: preview_sys where
  "photo_shown = blob_reply id photo_run (Inr 9) (photo_loading\<lparr>ps_runs := []\<rparr>)"

lemma photo_kind: "previewKindFor lower_ascii (js ''a.png'') None = Kind Image"
  by code_simp

lemma photo_states:
  "photo_loading = preview_init\<lparr>ps_runs := [photo_run], ps_current := Some 0, ps_next_run := 1\<rparr>"
  "photo_shown = preview_init\<lparr>ps_view := (ps_view preview_init)\<lparr>fp_ref := Some 0, fp_url := Some 0,
       fp_status := Ready\<rparr>,
     ps_live := [(0, 9)], ps_next_url := 1, ps_current := Some 0, ps_next_run := 1\<rparr>"
proof -
  show l: "photo_loading = preview_init\<lparr>ps_runs := [photo_run], ps_current := Some 0, ps_next_run := 1\<rparr>"
    unfolding photo_loading_def preview_effect_def photo_def preview_props.simps run_def photo_kind
    by (simp add: photo_run_def cleanup_def preview_init_def revoke_def too_large_hint_def
        MAX_PREVIEW_BYTES_def)
  show "photo_shown = preview_init\<lparr>ps_view := (ps_view preview_init)\<lparr>fp_ref := Some 0, fp_url := Some 0,
       fp_status := Ready\<rparr>,
     ps_live := [(0, 9)], ps_next_url := 1, ps_current := Some 0, ps_next_run := 1\<rparr>"
    unfolding photo_shown_def l
    by (simp add: blob_reply_def photo_run_def MAX_PREVIEW_BYTES_def isTextualKind_def show_url_def
        preview_init_def)
qed

lemma photo_reach:
  "reach preview_init (preview_step lower_ascii) photo_loading"
  "reach preview_init (preview_step lower_ascii) photo_shown"
proof -
  show r: "reach preview_init (preview_step lower_ascii) photo_loading"
    unfolding photo_loading_def by (rule reach_one, rule fp_effect)
  have "ps_runs photo_loading = [] @ photo_run # []" "run_blob photo_run = None"
    by (simp_all add: photo_states photo_run_def)
  from fp_blob [OF this, of lower_ascii id "Inr 9"]
  have "preview_step lower_ascii photo_loading photo_shown" by (simp add: photo_shown_def)
  then show "reach preview_init (preview_step lower_ascii) photo_shown" by (rule reach_next [OF r])
qed

theorem preview_urls_bounded_witness:
  "ps_live photo_shown = [(0, 9)] \<and> ps_live (cleanup photo_shown) = []"
proof -
  have "ps_live photo_shown = [(0, 9)]" by (simp add: photo_states)
  then show ?thesis using preview_urls_bounded [OF photo_reach(2)] by blast
qed

text \<open>
  A preview that was closed or replaced is dead: from then on no answer of its requests
  changes what is shown, creates an object URL or reports an error; it only disappears from the
  list of those outstanding. That holds of every run outstanding at the time.
\<close>

theorem closed_preview_is_inert:
  assumes "reach preview_init (preview_step lower) sys" and "ps_runs (cleanup sys) = xs @ r # ys"
  shows "blob_reply t r breply ((cleanup sys)\<lparr>ps_runs := xs @ ys\<rparr>) = (cleanup sys)\<lparr>ps_runs := xs @ ys\<rparr> \<and>
    text_reply t r treply ((cleanup sys)\<lparr>ps_runs := xs @ ys\<rparr>) = (cleanup sys)\<lparr>ps_runs := xs @ ys\<rparr>"
proof -
  have "run_cancelled r" using cleanup_idle(3) [OF preview.always [OF assms(1)]] assms(2) by simp
  then show ?thesis by (simp add: blob_reply_def text_reply_def)
qed

theorem closed_preview_is_inert_witness:
  "\<exists>r. ps_runs (cleanup photo_loading) = [r] \<and>
     ps_live (blob_reply id r (Inr 9) ((cleanup photo_loading)\<lparr>ps_runs := []\<rparr>)) = []"
proof -
  let ?r = "photo_run\<lparr>run_cancelled := True\<rparr>"
  have r: "ps_runs (cleanup photo_loading) = [] @ ?r # []" and "ps_live (cleanup photo_loading) = []"
    by (simp_all add: photo_states cleanup_def revoke_def preview_init_def cancel_run_def photo_run_def)
  then show ?thesis
    using closed_preview_is_inert [OF photo_reach(1) r, of id "Inr 9"] r
    by (intro exI [of _ ?r]) simp
qed

text \<open>
  C31. What a run of the effect comes to: nothing is requested for an unsupported kind or a
  size known to be over the cap; otherwise a blob over the caps (of text for the textual kinds)
  is refused, text is shown once it has arrived, any other kind through a fresh object URL, and
  a failure is reported.
\<close>

theorem preview_outcome:
  assumes "preview_effect lower props sys = sys1" and "pp_visible props"
    and "kind = previewKindFor lower (pp_key props) None"
  shows "if kind = Kind Unsupported \<or> too_large_hint (pp_size props)
    then ps_runs sys1 = ps_runs (cleanup sys) \<and>
      fp_status (ps_view sys1) = (if kind = Kind Unsupported then Not_Supported else Too_Large)
    else \<exists>r. ps_runs sys1 = ps_runs (cleanup sys) @ [r] \<and> fp_status (ps_view sys1) = Loading \<and>
      run_kind r = kind \<and> run_blob r = None \<and> \<not> run_cancelled r \<and>
      (\<forall>n. let sys2 = blob_reply t r (Inr n) s in
         if n > MAX_PREVIEW_BYTES \<or> (isTextualKind kind \<and> n > MAX_TEXT_BYTES)
         then sys2 = set_status Too_Large s
         else if isTextualKind kind
         then (\<exists>r'. sys2 = s\<lparr>ps_runs := ps_runs s @ [r']\<rparr> \<and>
                 (\<forall>tx. text_reply t r' (Inr tx) s =
                    s\<lparr>ps_view := (ps_view s)\<lparr>fp_text := tx, fp_status := Ready\<rparr>\<rparr>))
         else fp_url (ps_view sys2) = Some (ps_next_url s) \<and> fp_status (ps_view sys2) = Ready \<and>
           ps_live sys2 = ps_live s @ [(ps_next_url s, n)]) \<and>
      (\<forall>e. ps_toasts (blob_reply t r (Inl e) s) = ps_toasts s @ [t (js ''preview.failed'')])"
proof -
  have sys1: "sys1 = run lower props (cleanup sys)"
    using assms(1,2) by (simp add: preview_effect_def)
  show ?thesis
  proof (cases "kind = Kind Unsupported \<or> too_large_hint (pp_size props)")
    case True
    then show ?thesis
      using assms(3) by (auto simp: sys1 run_def Let_def set_status_def revoke_fields)
  next
    case False
    let ?r = "\<lparr>run_id = ps_next_run (cleanup sys), run_kind = kind, run_blob = None,
      run_cancelled = False\<rparr>"
    have "ps_runs sys1 = ps_runs (cleanup sys) @ [?r] \<and> fp_status (ps_view sys1) = Loading"
      using False assms(3) by (auto simp: sys1 run_def Let_def revoke_def split: option.split)
    moreover have "blob_reply t ?r (Inr n) s = set_status Too_Large s"
      if "n > MAX_PREVIEW_BYTES \<or> (isTextualKind kind \<and> n > MAX_TEXT_BYTES)" for n
      using that by (auto simp: blob_reply_def)
    ultimately show ?thesis
      unfolding if_not_P [OF False]
      by (intro exI [of _ ?r])
         (auto simp: blob_reply_def text_reply_def show_url_def run_failed_def set_status_def
           errorMessage_def Let_def)
  qed
qed

theorem preview_outcome_witness:
  "fp_status (ps_view (preview_effect lower_ascii (photo\<lparr>pp_size := Some 99999999\<rparr>) preview_init)) =
     Too_Large"
proof -
  let ?p = "photo\<lparr>pp_size := Some 99999999\<rparr>"
  have "pp_key ?p = js ''a.png''" by (simp add: photo_def)
  then have "previewKindFor lower_ascii (pp_key ?p) None = Kind Image"
    using photo_kind by (simp only:)
  moreover have "too_large_hint (pp_size ?p)" "pp_visible ?p"
    by (simp_all add: photo_def too_large_hint_def MAX_PREVIEW_BYTES_def)
  ultimately show ?thesis using preview_outcome [OF refl, of ?p "Kind Image" lower_ascii preview_init] by simp
qed

definition markup_exts :: "jstr list" where
  "markup_exts = map js [''html'', ''htm'', ''xml'', ''js'', ''mjs'', ''cjs'', ''css'', ''ts'', ''tsx'', ''jsx'']"

definition markdown_exts :: "jstr list" where
  "markdown_exts = map js [''md'', ''markdown'']"

definition image_exts :: "jstr list" where
  "image_exts = map js [''png'', ''jpg'', ''jpeg'', ''gif'', ''webp'', ''avif'', ''bmp'', ''ico'', ''svg'']"

text \<open>Further markup formats, for which the program has no renderer.\<close>

definition unlisted_markup_exts :: "jstr list" where
  "unlisted_markup_exts = map js
     [''xhtml'', ''xht'', ''shtml'', ''mhtml'', ''svgz'', ''xsl'', ''rss'', ''hta'', ''php'', ''vue'']"

lemma markup_exts_kind: "list_all (\<lambda>e. object_get ext_kind e = Own Text) markup_exts"
  by code_simp

lemma markdown_exts_kind: "list_all (\<lambda>e. object_get ext_kind e = Own Markdown) markdown_exts"
  by code_simp

lemma svg_ext_kind: "object_get ext_kind (js ''svg'') = Own Svg"
  by code_simp

lemma unlisted_markup_exts_kind: "list_all (\<lambda>e. object_get ext_kind e = Undefined) unlisted_markup_exts"
  by (simp add: unlisted_markup_exts_def object_get_def ext_kind_def object_prototype_def js_words
      del: js_Cons js_Nil)

lemma ext_kind_shows:
  "list_all (\<lambda>(e, k). (k = Pdf \<longrightarrow> e = js ''pdf'') \<and> (k = Image \<or> k = Svg \<longrightarrow> List.member image_exts e) \<and>
     (k = Markdown \<longrightarrow> List.member markdown_exts e)) ext_kind"
  by code_simp

lemma kind_by_ext:
  assumes "lower [] = []"
  shows "previewKindFor lower key None =
    (case object_get ext_kind (extOf lower key) of
       Own k \<Rightarrow> Kind k | Inherited n \<Rightarrow> Not_A_Kind n | Undefined \<Rightarrow> Kind Unsupported)"
proof -
  have "content_type_kind (content_type_essence lower None) = content_type_kind (content_type_essence id None)"
    by (simp add: content_type_essence_def assms)
  also have "\<dots> = Unsupported" by code_simp
  finally show ?thesis by (simp only: previewKindFor_def)
qed

lemma shown_kinds:
  assumes "lower [] = []" and "previewKindFor lower key None = Kind k"
  shows "k = Pdf \<Longrightarrow> extOf lower key = js ''pdf''"
    and "k = Image \<or> k = Svg \<Longrightarrow> extOf lower key \<in> set image_exts"
    and "k = Markdown \<Longrightarrow> extOf lower key \<in> set markdown_exts"
proof -
  have "k = Unsupported \<or> object_get ext_kind (extOf lower key) = Own k"
    using assms(2) by (simp add: kind_by_ext [of lower key, OF assms(1)] split: property.splits)
  then have "k = Unsupported \<or> (extOf lower key, k) \<in> set ext_kind"
    using map_of_SomeD by (fastforce simp: object_get_ext_kind)
  then show "k = Pdf \<Longrightarrow> extOf lower key = js ''pdf''"
    and "k = Image \<or> k = Svg \<Longrightarrow> extOf lower key \<in> set image_exts"
    and "k = Markdown \<Longrightarrow> extOf lower key \<in> set markdown_exts"
    using ext_kind_shows by (auto simp: list_all_iff)
qed

lemma body_elements:
  assumes "b = renderBody t to_num of_num key k v"
  shows "b = Html_Frame u sandbox \<Longrightarrow> sandbox = Some [] \<and> k = Kind Pdf"
    and "b = Img u alt \<Longrightarrow> k = Kind Image \<or> k = Kind Svg"
    and "b = Markdown_View m \<Longrightarrow> md_rehypePlugins m = [] \<and> md_urlTransform m = None \<and>
      md_children m = fp_text v \<and> fp_mode v \<noteq> Source \<and> k = Kind Markdown"
  using assms
  by (auto simp: renderBody_def renderCsv_def renderJson_def renderMarkdown_def structured_def Let_def
      split: preview_status.splits kind_value.splits preview_kind.splits option.splits if_splits)



text \<open>
  A table preview has one cell per column of its header row: a longer row loses its further
  cells without the notice of truncation.
\<close>

theorem csv_preview_drops_cells:
  "renderCsv (js ''x.csv'') (js ''a'' @ [lf] @ js ''1,2'') = Table_View False [js ''a''] [[Some (js ''1'')]]"
  by code_simp

lemma renders_json: "renderJson to_num of_num s =
  Pre (case json_parse to_num s of Some v \<Rightarrow> json_stringify of_num 2 v | None \<Rightarrow> s)"
  by (simp add: renderJson_def split: option.split)

text \<open>
  C38. The formatted view of a JSON file shows the document itself: if the file parses, and its
  numbers are printed so that they read back, the text shown parses to the same value (an
  object keeps each property and its order), and formatting the text shown changes nothing.
  A file that does not parse is shown as it is.
\<close>

theorem formatted_json_same_document:
  assumes "number_text of_num"
  shows "case json_parse to_num s of
      None \<Rightarrow> renderJson to_num of_num s = Pre s
    | Some v \<Rightarrow> (\<forall>x\<in>set_json v. reads_back to_num of_num x) \<longrightarrow>
        (\<exists>p. renderJson to_num of_num s = Pre p \<and> json_parse to_num p = Some v \<and>
             renderJson to_num of_num p = Pre p)"
proof (cases "json_parse to_num s")
  case (Some v)
  have "json_parse to_num (json_stringify of_num 2 v) = Some v" if "\<forall>x\<in>set_json v. reads_back to_num of_num x"
    using number_text.stringify_parses [OF assms parsed_wf [OF Some that]] .
  then show ?thesis by (simp add: Some renders_json)
qed (simp add: renders_json)

theorem formatted_json_same_document_witness:
  "\<exists>p. renderJson read_int int_literal (js ''{ \"b\":[1,-20], \"7\":null,\"b\":{}}'') = Pre p \<and>
     json_parse read_int p = Some (J_Obj [(js ''7'', J_Null), (js ''b'', J_Obj [])]) \<and>
     renderJson read_int int_literal p = Pre p"
proof -
  have parse: "json_parse read_int (js ''{ \"b\":[1,-20], \"7\":null,\"b\":{}}'')
      = Some (J_Obj [(js ''7'', J_Null), (js ''b'', J_Obj [])])"
    by code_simp
  show ?thesis
    using formatted_json_same_document [OF safe_int.number_text_axioms, of read_int "js ''{ \"b\":[1,-20], \"7\":null,\"b\":{}}''"]
    unfolding parse option.case by simp
qed

text \<open>
  The formatted view is not the document when a number does not survive the trip through a
  double: of an integer literal above 2 to the 53rd the nearest double is shown.
\<close>

definition read_double :: "jstr \<Rightarrow> int" where
  "read_double d = \<lfloor>to_double (of_int (read_int d))\<rfloor>"

lemma exponent2_unique:
  assumes "pow2 e \<le> x" and "x < pow2 (e + 1)"
  shows "exponent2 x = e"
proof -
  have pos: "0 < x" using assms(1) pow2_pos [of e] by (rule order.strict_trans2 [rotated])
  have "\<not> pow2 (e + 1) \<le> pow2 (exponent2 x)" "\<not> pow2 (exponent2 x + 1) \<le> pow2 e"
    using exponent2_bounds [OF pos] assms by simp_all
  then show ?thesis
    using pow2_mono [of "e + 1" "exponent2 x"] pow2_mono [of "exponent2 x + 1" e] by linarith
qed

lemma to_double_odd: "to_double 9007199254740993 = 9007199254740992"
proof -
  have e: "exponent2 9007199254740993 = 53"
    by (rule exponent2_unique) (simp_all add: pow2_def)
  have "\<lfloor>9007199254740993 / 2 :: rat\<rfloor> = 4503599627370496" by (simp add: floor_eq_iff)
  then have "round_even (9007199254740993 / 2) = 4503599627370496"
    by (simp add: round_even_def Let_def)
  then show ?thesis by (simp add: to_double_def round_mag_def e pow2_def)
qed

theorem formatted_json_rounds_integers:
  "renderJson read_double (\<lambda>n. Some (int_to_js n)) (js ''9007199254740993'') = Pre (js ''9007199254740992'')"
proof -
  have "read_int (js ''9007199254740993'') = 9007199254740993"
    by (simp add: read_int_def read_digits_def)
  then have num: "read_double (js ''9007199254740993'') = 9007199254740992"
    by (simp add: read_double_def to_double_odd del: js_Cons)
  have scan: "scan_number (js ''9007199254740993'') = Some (js ''9007199254740993'', [])"
    by (simp add: scan_number_def scan_unsigned_def scan_int_def scan_digits_def scan_frac_def scan_exp_def
        is_digit_def)
  have "parse_value read_double (Suc n) (js ''9007199254740993'') = Some (J_Num 9007199254740992, [])" for n
    using scan num by (simp add: skip_ws_def json_ws_def)
  then have "json_parse read_double (js ''9007199254740993'') = Some (J_Num 9007199254740992)"
    by (simp add: json_parse_def skip_ws_def del: parse_value.simps js_Cons)
  moreover have "int_to_js 9007199254740992 = js ''9007199254740992''"
    by (simp add: int_to_js_def digits.simps)
  ultimately show ?thesis by (simp add: renderJson_def json_stringify_def del: js_Cons)
qed

end
