(* ===== verification/Byte_Format.thy ===== *)
theory Byte_Format
  imports Js_Number Js_String
begin

text \<open>
  The three copies of \<open>formatBytes\<close>, in \<open>ObjectBrowser.tsx\<close>, \<open>BucketList.tsx\<close> and
  \<open>ObjectMeta.tsx\<close>. Dividing a double by 1024 is exact (only the exponent changes), so the
  loop is one on rationals.
\<close>

definition byte_units :: "jstr list" where
  "byte_units = map js [''B'', ''KB'', ''MB'', ''GB'', ''TB'']"

lemma length_byte_units [simp]: "length byte_units = 5"
  by (simp add: byte_units_def)

function scale_loop :: "rat \<Rightarrow> nat \<Rightarrow> rat \<times> nat" where
  "scale_loop val i =
     (if val \<ge> 1024 \<and> i < length byte_units - 1 then scale_loop (val / 1024) (i + 1) else (val, i))"
  by pat_completeness auto

termination by (relation "measure (\<lambda>(val, i). length byte_units - i)") auto

declare scale_loop.simps [simp del]

definition scaled :: "int \<Rightarrow> jstr" where
  "scaled bytes =
     (let (val, i) = scale_loop (of_int bytes) 0 in to_fixed1 val @ js '' '' @ byte_units ! i)"

text \<open>\<open>ObjectBrowser.tsx\<close>.\<close>

definition formatBytes_row :: "int \<Rightarrow> jstr" where
  "formatBytes_row bytes = (if bytes = 0 then js ''0 B'' else scaled bytes)"

text \<open>\<open>BucketList.tsx\<close>: a missing size is shown as the dash it is given.\<close>

definition formatBytes_bucket :: "int option \<Rightarrow> jstr \<Rightarrow> jstr" where
  "formatBytes_bucket bytes dash =
     (case bytes of
        None \<Rightarrow> dash
      | Some b \<Rightarrow> if b = 0 then js ''0 B'' else scaled b)"

text \<open>\<open>ObjectMeta.tsx\<close>: \<open>!bytes\<close>, so a missing length counts as zero.\<close>

definition formatBytes_meta :: "int option \<Rightarrow> jstr" where
  "formatBytes_meta bytes =
     (case bytes of
        None \<Rightarrow> js ''0 B''
      | Some b \<Rightarrow> if b = 0 then js ''0 B'' else scaled b)"

section \<open>The loop\<close>

lemma scale_loop_spec:
  "scale_loop val i = (v, j) \<Longrightarrow> i \<le> 4 \<Longrightarrow>
     val = v * 1024 ^ (j - i) \<and> i \<le> j \<and> j \<le> 4 \<and> (v < 1024 \<or> j = 4) \<and> (i < j \<longrightarrow> 1 \<le> v)"
proof (induction val i rule: scale_loop.induct)
  case (1 val i)
  show ?case
  proof (cases "val \<ge> 1024 \<and> i < 4")
    case True
    then have "scale_loop (val / 1024) (i + 1) = (v, j)"
      using 1(2) by (simp add: scale_loop.simps [of val i])
    then have ih: "val / 1024 = v * 1024 ^ (j - (i + 1)) \<and> i + 1 \<le> j \<and> j \<le> 4 \<and> (v < 1024 \<or> j = 4) \<and>
        (i + 1 < j \<longrightarrow> 1 \<le> v)"
      using 1(1) True by simp
    have "val = v * 1024 ^ Suc (j - (i + 1))" using ih by (simp add: field_simps)
    moreover have "Suc (j - (i + 1)) = j - i" using ih by linarith
    ultimately have "val = v * 1024 ^ (j - i)" by (simp only:)
    moreover have "1 \<le> v"
      using ih True by (cases "i + 1 < j") (auto simp: field_simps)
    ultimately show ?thesis using ih by simp
  next
    case False
    then show ?thesis using 1(2,3) by (auto simp: scale_loop.simps [of val i])
  qed
qed

section \<open>Properties\<close>

text \<open>
  The size shown is the number of bytes in the largest of the units B to TB in which it is
  at least one (below that, and for anything of a petabyte or more, the number is not bounded
  by 1024), with one decimal that is off by at most a twentieth of the unit; and the three
  copies of the function agree on every number.
\<close>

theorem formatBytes_correct:
  assumes "0 < bytes"
  shows "\<exists>val i. formatBytes_row bytes = to_fixed1 val @ js '' '' @ byte_units ! i \<and>
      of_int bytes = val * 1024 ^ i \<and> i < length byte_units \<and>
      (0 < i \<longrightarrow> 1 \<le> val) \<and> (val < 1024 \<or> i = 4) \<and>
      \<bar>of_int (tenths val) / 10 - val\<bar> \<le> 1 / 20 \<and>
      formatBytes_bucket (Some bytes) dash = formatBytes_row bytes \<and>
      formatBytes_meta (Some bytes) = formatBytes_row bytes"
proof -
  obtain v j where s: "scale_loop (of_int bytes) 0 = (v, j)" by fastforce
  then have row: "scaled bytes = to_fixed1 v @ js '' '' @ byte_units ! j"
    by (simp add: scaled_def)
  from scale_loop_spec [OF s]
  have "of_int bytes = v * 1024 ^ j" "j \<le> 4" "v < 1024 \<or> j = 4" "0 < j \<longrightarrow> 1 \<le> v" by auto
  then show ?thesis
    using assms tenths_error [of v]
    by (intro exI [of _ v] exI [of _ j])
       (auto simp: formatBytes_row_def formatBytes_bucket_def formatBytes_meta_def row)
qed

theorem formatBytes_correct_witness:
  "\<exists>val i. formatBytes_row 1536 = to_fixed1 val @ js '' '' @ byte_units ! i \<and> 1536 = val * 1024 ^ i"
proof -
  have "0 < (1536 :: int)" by simp
  from formatBytes_correct [OF this, of "[]"] show ?thesis by fastforce
qed

text \<open>
  The decimal is rounded after the unit is chosen, so just below a unit the number shown
  is 1024.0 of the unit below: one byte less than a mebibyte is shown as 1024.0 KB.
\<close>

theorem formatBytes_rounds_past_unit: "formatBytes_row 1048575 = js ''1024.0 KB''"
proof -
  have loop: "scale_loop 1048575 0 = (1048575 / 1024, 1)"
    by (simp add: scale_loop.simps [of 1048575 0] scale_loop.simps [of "1048575 / 1024" "Suc 0"])
  have "tenths (1048575 / 1024) = 10240" by (simp add: tenths_def floor_eq_iff)
  then have "to_fixed1 (1048575 / 1024) = js ''1024.0''"
    by (simp add: to_fixed1_def int_to_js_def Let_def digits.simps)
  then show ?thesis
    by (simp add: formatBytes_row_def scaled_def loop byte_units_def)
qed

end
