(* ===== verification/Upload_Zone.thy ===== *)
theory Upload_Zone
  imports Api_Client Js_Number Keyed_List
begin

text \<open>
  \<open>web/src/components/UploadZone.tsx\<close>: the list of uploads and what the steps of each upload
  do to it. An entry is found by the name of its file, so the interface \<open>keyed_update\<close> says
  what several uploads do together.
\<close>

section \<open>State\<close>

datatype upload_status = Uploading | Done | Failed

record upload_item =
  up_name :: jstr
  up_progress :: int
  up_status :: upload_status

text \<open>
  The steps of one upload as they reach the list: its start, a progress event with the bytes
  sent and the total (if known), and the end.
\<close>

datatype upload_event = Started | Progress nat "nat option" | Finished | Rejected

section \<open>Operations\<close>

text \<open>\<open>Math.round((e.loaded * 100) / (e.total || 1))\<close>.\<close>

definition upload_percent :: "nat \<Rightarrow> nat option \<Rightarrow> int" where
  "upload_percent loaded whole =
     (let d = (case whole of None \<Rightarrow> 1 | Some n \<Rightarrow> if n = 0 then 1 else n)
      in math_round (to_double (of_nat (loaded * 100) / of_nat d)))"

text \<open>The object key of a file dropped in a folder, and the content type it is sent with.\<close>

definition upload_key :: "jstr \<Rightarrow> jstr \<Rightarrow> jstr" where
  "upload_key pfx name = pfx @ name"

definition upload_content_type :: "jstr \<Rightarrow> jstr" where
  "upload_content_type file_type =
     (if file_type = [] then js ''application/octet-stream'' else file_type)"

definition apply_event :: "upload_event \<Rightarrow> upload_item \<Rightarrow> upload_item" where
  "apply_event e u =
     (case e of
        Started \<Rightarrow> u
      | Progress loaded whole \<Rightarrow> u\<lparr>up_progress := upload_percent loaded whole\<rparr>
      | Finished \<Rightarrow> u\<lparr>up_progress := 100, up_status := Done\<rparr>
      | Rejected \<Rightarrow> u\<lparr>up_status := Failed\<rparr>)"

definition setUploads :: "jstr \<Rightarrow> upload_event \<Rightarrow> upload_item list \<Rightarrow> upload_item list" where
  "setUploads name e uploads =
     (case e of
        Started \<Rightarrow> uploads @ [\<lparr>up_name = name, up_progress = 0, up_status = Uploading\<rparr>]
      | _ \<Rightarrow> update_at up_name name (apply_event e) uploads)"

text \<open>
  How \<open>customUpload\<close> ends: the event its list sees, the callback of the upload component, the
  message, and whether the listing is refreshed. Building the path can throw as well.
\<close>

datatype upload_effect =
  On_Success | On_Error | Message_Success jstr | Message_Error jstr | On_Uploaded

definition forbidden :: "client_error \<Rightarrow> bool" where
  "forbidden err =
     (case err of Axios_Error (Some r) \<Rightarrow> err_status r = 403 | _ \<Rightarrow> False)"

definition upload_result ::
  "translation \<Rightarrow> jstr \<Rightarrow> jstr \<Rightarrow> jstr \<Rightarrow> (jstr \<Rightarrow> client_error option) \<Rightarrow> upload_event \<times> upload_effect list"
  where
  "upload_result t bucket pfx name put =
     (let fail = (\<lambda>err. (Rejected,
            [On_Error,
             Message_Error (if forbidden err then t (js ''errors.forbidden'') []
               else errorMessage err (t (js ''errors.uploadFailed'') [(js ''name'', name)]))]))
      in case buildObjectPath bucket (upload_key pfx name) of
           None \<Rightarrow> fail (Plain_Error (js ''URI malformed''))
         | Some path \<Rightarrow>
             (case put path of
                Some err \<Rightarrow> fail err
              | None \<Rightarrow> (Finished, [On_Success, Message_Success (t (js ''messages.uploaded'') [(js ''name'', name)]),
                   On_Uploaded])))"

text \<open>The entries shown below the drop area.\<close>

definition visible_uploads :: "upload_item list \<Rightarrow> (jstr \<times> int) list" where
  "visible_uploads uploads =
     map (\<lambda>u. (up_name u, up_progress u)) (filter (\<lambda>u. up_status u = Uploading) uploads)"

section \<open>Lemmas\<close>

lemma apply_event_name: "up_name (apply_event e u) = up_name u"
  by (simp add: apply_event_def split: upload_event.split)

interpretation uploads: keyed_update up_name apply_event
  by unfold_locales (rule apply_event_name)

text \<open>A history of events, each of a file name, from the empty list.\<close>

definition run_uploads :: "(jstr \<times> upload_event) list \<Rightarrow> upload_item list" where
  "run_uploads events = fold (\<lambda>(name, e). setUploads name e) events []"

lemma run_uploads_snoc: "run_uploads (events @ [(name, e)]) = setUploads name e (run_uploads events)"
  by (simp add: run_uploads_def)

definition events_of :: "jstr \<Rightarrow> (jstr \<times> upload_event) list \<Rightarrow> (jstr \<times> upload_event) list" where
  "events_of name events = filter (\<lambda>(n, _). n = name) events"

definition items_of :: "jstr \<Rightarrow> upload_item list \<Rightarrow> upload_item list" where
  "items_of name uploads = filter (\<lambda>u. up_name u = name) uploads"

lemma items_of_update:
  "items_of n (update_at up_name m (apply_event e) us) =
     (if n = m then map (apply_event e) (items_of n us) else items_of n us)"
  by (induction us) (auto simp: items_of_def apply_event_name)

lemma items_of_set:
  "items_of n (setUploads m e us) =
     (if n = m then setUploads m e (items_of n us) else items_of n us)"
proof (cases "e = Started")
  case False
  have "update_at up_name n (apply_event e) (items_of n us) = map (apply_event e) (items_of n us)"
    by (induction us) (auto simp: items_of_def)
  moreover have "setUploads m e vs = update_at up_name m (apply_event e) vs" for vs
    using False by (cases e) (simp_all add: setUploads_def)
  ultimately show ?thesis by (auto simp: items_of_update)
qed (simp add: setUploads_def items_of_def)

section \<open>Properties\<close>

text \<open>
  Uploads of different files do not interfere: after any interleaving of their steps, the
  entries with a given name are those its own steps alone would have left.
\<close>

theorem uploads_do_not_interfere:
  "items_of name (run_uploads events) = run_uploads (events_of name events)"
proof (induction events rule: rev_induct)
  case (snoc ev events)
  obtain m e where ev: "ev = (m, e)" by fastforce
  show ?case
  proof (cases "m = name")
    case True
    then have "events_of name (events @ [ev]) = events_of name events @ [(name, e)]"
      by (simp add: ev events_of_def)
    then show ?thesis using snoc True by (simp add: ev run_uploads_snoc items_of_set)
  next
    case False
    then have "events_of name (events @ [ev]) = events_of name events"
      by (simp add: ev events_of_def)
    then show ?thesis using snoc False by (simp add: ev run_uploads_snoc items_of_set)
  qed
qed (simp add: run_uploads_def items_of_def events_of_def)

text \<open>
  Two uploads with the same file name share their state: when the first has finished both
  entries are marked done and vanish from the list of running uploads, and when the second is
  then rejected the finished one is marked failed.
\<close>

theorem same_name_uploads_share_state:
  "let started = [(name, Started), (name, Started)]
   in length (visible_uploads (run_uploads started)) = 2 \<and>
      visible_uploads (run_uploads (started @ [(name, Finished)])) = [] \<and>
      map up_status (run_uploads (started @ [(name, Finished), (name, Rejected)])) = [Failed, Failed]"
  by (simp add: run_uploads_def setUploads_def visible_uploads_def apply_event_def)

text \<open>
  With a known total the percentage stays between 0 and 100, reaches 100 at the end and
  never falls while more bytes are sent (file sizes up to \<open>2 ^ 46\<close> bytes, so that the products
  are exact); with no total it is a hundred times the number of bytes.
\<close>

theorem upload_percent_bounds:
  assumes "loaded \<le> loaded'" and "loaded' \<le> whole" and "0 < whole" and "whole < 2 ^ 46"
  shows "0 \<le> upload_percent loaded (Some whole) \<and>
    upload_percent loaded (Some whole) \<le> upload_percent loaded' (Some whole) \<and>
    upload_percent loaded' (Some whole) \<le> 100 \<and> upload_percent whole (Some whole) = 100 \<and>
    upload_percent loaded None = 100 * int loaded"
proof -
  let ?r = "\<lambda>n. of_nat (n * 100) / (of_nat whole :: rat)"
  have mono: "?r m \<le> ?r n" if "m \<le> n" for m n
    using that by (simp add: divide_right_mono)
  have full: "?r whole = of_nat 100" using assms(3) by simp
  have top: "to_double (?r whole) = of_nat 100" unfolding full by (rule to_double_nat) simp
  have p: "upload_percent n (Some whole) = math_round (to_double (?r n))" for n
    using assms(3) by (simp add: upload_percent_def)
  have nn: "0 \<le> ?r n" for n by simp
  have r100: "math_round (of_nat 100) = 100" using math_round_int [of 100] by simp
  have le: "upload_percent m (Some whole) \<le> upload_percent n (Some whole)" if "m \<le> n" for m n
    unfolding p by (intro math_round_mono to_double_mono nn mono that)
  have t: "upload_percent whole (Some whole) = 100" unfolding p top r100 ..
  have "upload_percent 0 (Some whole) = 0"
    unfolding p using math_round_int [of 0] by (simp add: to_double_def)
  then have "0 \<le> upload_percent loaded (Some whole)" using le [of 0 loaded] by simp
  moreover have "upload_percent loaded None = 100 * int loaded"
  proof -
    have "loaded * 100 < 2 ^ 53" using assms by simp
    then have "to_double (of_nat (loaded * 100)) = of_int (100 * int loaded)"
      by (subst to_double_nat) simp_all
    then show ?thesis using math_round_int [of "100 * int loaded"] by (simp add: upload_percent_def)
  qed
  ultimately show ?thesis using le assms(1,2) t by fastforce
qed

theorem upload_percent_bounds_witness:
  "upload_percent 1 (Some 3) \<le> upload_percent 2 (Some 3) \<and> upload_percent 1 None = 100"
  using upload_percent_bounds [of 1 2 3] by simp

text \<open>
  A file is uploaded at the key made of the folder and its name, and every way an upload
  can end is reported: success refreshes the listing, and each failure, a path that cannot be
  built included, ends in exactly one error message and no refresh.
\<close>

theorem upload_always_reported:
  "let (e, effects) = upload_result t bucket pfx name put
   in (e = Finished \<longleftrightarrow> (\<exists>path. buildObjectPath bucket (pfx @ name) = Some path \<and> put path = None)) \<and>
      (e = Finished \<longleftrightarrow> On_Uploaded \<in> set effects) \<and>
      (e \<noteq> Finished \<longleftrightarrow> e = Rejected \<and> (\<exists>msg. effects = [On_Error, Message_Error msg]))"
  by (auto simp: upload_result_def upload_key_def Let_def split: option.splits)

end
