(* ===== verification/Object_Browser.thy ===== *)
theory Object_Browser
  imports App_Routes File_Preview Byte_Format Upload_Zone "HOL-Library.List_Lexorder"
begin

text \<open>
  \<open>web/src/components/ObjectBrowser.tsx\<close>: the rows made of a listing, the search, the order
  of the table, what a row offers, deleting and downloading, and the view. Dates are printed
  and names compared with the user's locale, which are parameters (\<open>show_date\<close>, \<open>cmp\<close>).
\<close>

section \<open>Rows\<close>

record row =
  row_key :: jstr
  row_name :: jstr
  row_size :: int
  row_last_modified :: jstr
  row_is_prefix :: bool

definition fileName :: "jstr \<Rightarrow> jstr" where
  "fileName key =
     (let b = last (split_on slash (strip_one_trailing slash key)) in if b = [] then key else b)"

definition matches :: "(jstr \<Rightarrow> jstr) \<Rightarrow> jstr \<Rightarrow> jstr \<Rightarrow> bool" where
  "matches lower needle key \<longleftrightarrow> needle = [] \<or> js_includes (lower key) needle"

definition prefix_row :: "jstr \<Rightarrow> jstr \<Rightarrow> row" where
  "prefix_row pfx p =
     \<lparr>row_key = p, row_name = strip_one_trailing slash (remove_first p pfx), row_size = -1,
      row_last_modified = [], row_is_prefix = True\<rparr>"

definition object_row :: "(jstr \<Rightarrow> jstr) \<Rightarrow> object_info \<Rightarrow> row" where
  "object_row show_date o' =
     \<lparr>row_key = obj_key o', row_name = fileName (obj_key o'), row_size = obj_size o',
      row_last_modified = (if obj_last_modified o' \<noteq> [] then show_date (obj_last_modified o') else []),
      row_is_prefix = False\<rparr>"

definition dataSource ::
  "(jstr \<Rightarrow> jstr) \<Rightarrow> (jstr \<Rightarrow> jstr) \<Rightarrow> jstr \<Rightarrow> jstr \<Rightarrow> jstr list \<Rightarrow> object_info list \<Rightarrow> row list" where
  "dataSource lower show_date searchText pfx pfxs objects =
     (let needle = lower searchText
      in map (prefix_row pfx) (filter (matches lower needle) pfxs)
         @ map (object_row show_date) (filter (\<lambda>o'. matches lower needle (obj_key o')) objects))"

section \<open>Order\<close>

text \<open>
  \<open>localeCompare\<close>: negative, zero or positive, as the collation of the user's locale has it.
\<close>

locale collation =
  fixes cmp :: "jstr \<Rightarrow> jstr \<Rightarrow> int"
  assumes cmp_swap: "cmp a b < 0 \<longleftrightarrow> 0 < cmp b a"
    and cmp_trans: "cmp a b \<le> 0 \<Longrightarrow> cmp b c \<le> 0 \<Longrightarrow> cmp a c \<le> 0"

definition nameSorter :: "(jstr \<Rightarrow> jstr \<Rightarrow> int) \<Rightarrow> row \<Rightarrow> row \<Rightarrow> int" where
  "nameSorter cmp a b =
     (if row_is_prefix a \<noteq> row_is_prefix b then (if row_is_prefix a then -1 else 1)
      else cmp (row_name a) (row_name b))"

definition dateSorter :: "(jstr \<Rightarrow> jstr \<Rightarrow> int) \<Rightarrow> row \<Rightarrow> row \<Rightarrow> int" where
  "dateSorter cmp a b = cmp (row_last_modified a) (row_last_modified b)"

definition sizeSorter :: "row \<Rightarrow> row \<Rightarrow> int" where
  "sizeSorter a b = row_size a - row_size b"

text \<open>A stable sort by a comparison function, as \<open>Array.prototype.sort\<close> is.\<close>

fun insert_by :: "('a \<Rightarrow> 'a \<Rightarrow> int) \<Rightarrow> 'a \<Rightarrow> 'a list \<Rightarrow> 'a list" where
  "insert_by c x [] = [x]"
| "insert_by c x (y # ys) = (if c x y \<le> 0 then x # y # ys else y # insert_by c x ys)"

definition sort_by_cmp :: "('a \<Rightarrow> 'a \<Rightarrow> int) \<Rightarrow> 'a list \<Rightarrow> 'a list" where
  "sort_by_cmp c xs = foldr (insert_by c) xs []"

section \<open>What a row offers\<close>

datatype activation = Navigate_Prefix jstr | Open_Preview jstr int

definition handleRowActivate :: "row \<Rightarrow> activation" where
  "handleRowActivate r =
     (if row_is_prefix r then Navigate_Prefix (row_key r)
      else Open_Preview (row_key r) (row_size r))"

datatype row_action = Download_Action | Info_Action | Delete_Action

definition rowActions :: "bool \<Rightarrow> row_action list" where
  "rowActions writable =
     [Download_Action, Info_Action] @ (if writable then [Delete_Action] else [])"

text \<open>The actions cell: nothing for a folder, else the download button and the menu.\<close>

definition actions_cell :: "bool \<Rightarrow> row \<Rightarrow> row_action list" where
  "actions_cell writable r =
     (if row_is_prefix r then [] else Download_Action # rowActions writable)"

text \<open>Deleting, once confirmed: the messages shown and whether the listing is refreshed.\<close>

datatype ui_effect = Toast_Success jstr | Toast_Error jstr | Refresh_Listing

definition confirm_delete ::
  "(jstr \<Rightarrow> jstr) \<Rightarrow> jstr \<Rightarrow> jstr \<Rightarrow> (jstr \<Rightarrow> client_error option) \<Rightarrow> ui_effect list" where
  "confirm_delete t bucket key delete_request =
     (let fail = (\<lambda>err. [Toast_Error (if forbidden err then t (js ''errors.forbidden'')
            else errorMessage err (t (js ''errors.deleteFailed'')))])
      in case buildObjectPath bucket key of
           None \<Rightarrow> fail (Plain_Error (js ''URI malformed''))
         | Some path \<Rightarrow>
             (case delete_request path of
                Some err \<Rightarrow> fail err
              | None \<Rightarrow> [Toast_Success (t (js ''messages.deleted'')), Refresh_Listing]))"

definition handleDelete ::
  "(jstr \<Rightarrow> jstr) \<Rightarrow> jstr \<Rightarrow> jstr \<Rightarrow> bool \<Rightarrow> (jstr \<Rightarrow> client_error option) \<Rightarrow> ui_effect list" where
  "handleDelete t bucket key confirmed delete_request =
     (if confirmed then confirm_delete t bucket key delete_request else [])"

text \<open>
  Downloading under the name of the file. What \<open>downloadObject\<close> rejects with is no axios
  error; it rejects when the object cannot be fetched or a call of the document throws.
\<close>

definition download_rejects ::
  "jstr option \<Rightarrow> 'blob network \<Rightarrow> (dom_call \<Rightarrow> bool) \<Rightarrow> jstr \<Rightarrow> jstr \<Rightarrow> jstr \<Rightarrow> bool" where
  "download_rejects token net throws bucket key file_name =
     (case fetchObjectBlob token net bucket key of
        Inl _ \<Rightarrow> True
      | Inr _ \<Rightarrow> throws Create_Object_URL \<or> list_ex throws (try_body file_name))"

definition handleDownload ::
  "(jstr \<Rightarrow> jstr) \<Rightarrow> jstr option \<Rightarrow> 'blob network \<Rightarrow> (dom_call \<Rightarrow> bool) \<Rightarrow> jstr \<Rightarrow> jstr \<Rightarrow>
     dom_call list \<times> ui_effect list" where
  "handleDownload t token net throws bucket key =
     (downloadObject token net throws bucket key (fileName key),
      if download_rejects token net throws bucket key (fileName key)
      then [Toast_Error (errorMessage (Plain_Error []) (t (js ''errors.downloadFailed'')))] else [])"

section \<open>View\<close>

text \<open>The cells of a row: icon class, name, date, size.\<close>

record row_view =
  rv_class :: jstr
  rv_name :: jstr
  rv_modified :: jstr
  rv_size :: jstr
  rv_actions :: "row_action list"

definition render_row :: "(jstr \<Rightarrow> jstr) \<Rightarrow> bool \<Rightarrow> row \<Rightarrow> row_view" where
  "render_row t writable r =
     \<lparr>rv_class = (if row_is_prefix r then js ''row-folder'' else js ''row-file''),
      rv_name = row_name r,
      rv_modified = (if row_last_modified r \<noteq> [] then row_last_modified r else t (js ''common.dash'')),
      rv_size = (if row_is_prefix r then t (js ''common.dash'') else formatBytes_row (row_size r)),
      rv_actions = actions_cell writable r\<rparr>"

datatype listing_body = Empty_Listing | Row_Table "row_view list"

datatype browser_view =
  Skeleton_View
| Listing_View bool listing_body bool "jstr option" "(jstr \<times> int) option"

definition ObjectBrowser ::
  "(jstr \<Rightarrow> jstr) \<Rightarrow> (jstr \<Rightarrow> jstr) \<Rightarrow> (jstr \<Rightarrow> jstr) \<Rightarrow> (jstr \<Rightarrow> jstr \<Rightarrow> int) \<Rightarrow> jstr \<Rightarrow> jstr option \<Rightarrow>
     (jstr \<times> int) option \<Rightarrow> jstr \<Rightarrow> object_info list \<Rightarrow> jstr list \<Rightarrow> bool \<Rightarrow> bool \<Rightarrow> bool \<Rightarrow> browser_view" where
  "ObjectBrowser lower t show_date cmp searchText metaKey preview pfx objects pfxs loading writable truncated =
     (let rows = dataSource lower show_date searchText pfx pfxs objects
      in if loading \<and> rows = [] then Skeleton_View
         else Listing_View (truncated \<and> searchText \<noteq> [])
                (if \<not> loading \<and> rows = [] then Empty_Listing
                 else Row_Table (map (render_row t writable) (sort_by_cmp (nameSorter cmp) rows)))
                truncated (if truthy metaKey then metaKey else None) preview)"

section \<open>Lemmas\<close>

lemma mset_insert_by: "mset (insert_by c x xs) = add_mset x (mset xs)"
  by (induction xs) auto

lemma mset_sort_by_cmp: "mset (sort_by_cmp c xs) = mset xs"
  by (induction xs) (simp_all add: sort_by_cmp_def mset_insert_by)

lemma set_insert_by [simp]: "set (insert_by c x xs) = insert x (set xs)"
  by (induction xs) auto

context collation
begin

lemma cmp_linear: "cmp a b \<le> 0 \<or> cmp b a \<le> 0"
proof (cases "cmp a b \<le> 0")
  case False
  then have "cmp b a < 0" using cmp_swap [of b a] by simp
  then show ?thesis by simp
qed simp

lemma sorter_linear: "nameSorter cmp a b \<le> 0 \<or> nameSorter cmp b a \<le> 0"
  using cmp_linear [of "row_name a" "row_name b"] by (simp add: nameSorter_def)

lemma sorter_trans:
  "nameSorter cmp a b \<le> 0 \<Longrightarrow> nameSorter cmp b c \<le> 0 \<Longrightarrow> nameSorter cmp a c \<le> 0"
  using cmp_trans [of "row_name a" "row_name b" "row_name c"]
  by (auto simp: nameSorter_def split: if_splits)

lemma insert_sorted:
  "sorted_wrt (\<lambda>a b. nameSorter cmp a b \<le> 0) ys \<Longrightarrow>
     sorted_wrt (\<lambda>a b. nameSorter cmp a b \<le> 0) (insert_by (nameSorter cmp) x ys)"
proof (induction ys)
  case (Cons y ys)
  show ?case
  proof (cases "nameSorter cmp x y \<le> 0")
    case True
    then show ?thesis using Cons.prems sorter_trans [of x y] by auto
  next
    case False
    then have "nameSorter cmp y x \<le> 0" using sorter_linear [of x y] by simp
    then show ?thesis using Cons False by simp
  qed
qed simp

lemma sort_sorted: "sorted_wrt (\<lambda>a b. nameSorter cmp a b \<le> 0) (sort_by_cmp (nameSorter cmp) rows)"
  by (induction rows) (simp_all add: sort_by_cmp_def insert_sorted)

end

lemma sorted_folders_first:
  assumes "sorted_wrt (\<lambda>a b. nameSorter cmp a b \<le> 0) rows"
  shows "rows = filter row_is_prefix rows @ filter (\<lambda>r. \<not> row_is_prefix r) rows"
  using assms
proof (induction rows)
  case (Cons r rows)
  show ?case
  proof (cases "row_is_prefix r")
    case True
    then show ?thesis using Cons by simp
  next
    case False
    then have "\<forall>x\<in>set rows. \<not> row_is_prefix x"
      using Cons.prems by (auto simp: nameSorter_def split: if_splits)
    then show ?thesis using False by (auto simp: filter_id_conv filter_empty_conv)
  qed
qed simp

lemma sorted_names:
  assumes "sorted_wrt (\<lambda>a b. nameSorter cmp a b \<le> 0) rows"
    and "\<forall>r\<in>set rows. row_is_prefix r = p"
  shows "sorted_wrt (\<lambda>a b. cmp a b \<le> 0) (map row_name rows)"
  using assms by (induction rows) (auto simp: nameSorter_def)

text \<open>The order by code units is a collation.\<close>

definition ordinal_compare :: "jstr \<Rightarrow> jstr \<Rightarrow> int" where
  "ordinal_compare a b = (if a < b then -1 else if a = b then 0 else 1)"

interpretation ordinal: collation ordinal_compare
  by unfold_locales (auto simp: ordinal_compare_def split: if_splits)

lemma fileName_child:
  assumes "slash \<notin> set n" and "n \<noteq> []" and "pfx = [] \<or> last pfx = slash"
  shows "fileName (pfx @ n) = n"
proof -
  have "last n \<noteq> slash" using assms(1,2) last_in_set by metis
  then have "strip_one_trailing slash (pfx @ n) = pfx @ n"
    using assms(2) by (simp add: strip_one_trailing_id)
  moreover have "last (split_on slash (pfx @ n)) = n"
    using assms by (cases pfx rule: rev_cases) (auto simp: split_on_no_sep last_split_append_no_sep)
  ultimately show ?thesis using assms(2) by (simp add: fileName_def)
qed

lemma prefix_row_child: "row_name (prefix_row pfx (pfx @ n @ [slash])) = n"
  by (simp add: prefix_row_def remove_first_prefix)

lemma includes_append: "js_includes s p \<Longrightarrow> js_includes (s @ u) p"
  unfolding includes_sublist by (metis sublist_append_leftI append_assoc sublist_def)

section \<open>Properties\<close>

text \<open>
  Rows stand for the listing and are named by what lies below the folder: for a listing as
  the server gives it for a folder (folders one level below it, objects directly in it), with
  no search, there is one row per folder and then one per object, in order, with their keys,
  and the names shown are exactly the names below the folder.
\<close>

theorem rows_show_relative_names:
  assumes "pfx = [] \<or> last pfx = slash"
    and "\<forall>n\<in>set folders \<union> set files. n \<noteq> [] \<and> slash \<notin> set n"
    and "map obj_key objects = map (\<lambda>n. pfx @ n) files"
    and "lower [] = []"
  shows "let rows = dataSource lower show_date [] pfx (map (\<lambda>n. pfx @ n @ [slash]) folders) objects
    in map row_name rows = folders @ files \<and>
       map row_key rows = map (\<lambda>n. pfx @ n @ [slash]) folders @ map obj_key objects \<and>
       map row_is_prefix rows = replicate (length folders) True @ replicate (length files) False"
proof -
  let ?fs = "map (\<lambda>n. pfx @ n @ [slash]) folders"
  have rows: "dataSource lower show_date [] pfx ?fs objects =
      map (prefix_row pfx) ?fs @ map (object_row show_date) objects"
    using assms(4) by (simp add: dataSource_def matches_def)
  have "map (\<lambda>p. row_name (prefix_row pfx p)) ?fs = folders"
    by (simp add: prefix_row_child comp_def)
  moreover have "map (\<lambda>o'. row_name (object_row show_date o')) objects = map fileName (map obj_key objects)"
    by (simp add: object_row_def comp_def)
  moreover have "map fileName (map obj_key objects) = files"
    unfolding assms(3) using assms(1,2) by (simp add: comp_def fileName_child map_idI)
  moreover have "length objects = length files" using assms(3) by (metis length_map)
  ultimately show ?thesis
    unfolding rows Let_def
    by (simp add: comp_def prefix_row_def object_row_def map_replicate_const)
qed

theorem rows_show_relative_names_witness:
  "map row_name (dataSource lower_ascii id [] (js ''d/'') [js ''d/sub/''] [sample_object (js ''d/x.txt'')]) =
     [js ''sub'', js ''x.txt'']"
proof -
  have "\<forall>n\<in>set [js ''sub''] \<union> set [js ''x.txt'']. n \<noteq> [] \<and> slash \<notin> set n"
    by simp
  then show ?thesis
    using rows_show_relative_names [of "js ''d/''" "[js ''sub'']" "[js ''x.txt'']"
        "[sample_object (js ''d/x.txt'')]" lower_ascii id]
    by (simp add: Let_def sample_object_def)
qed

text \<open>
  Searching keeps exactly the rows whose key contains the text, without regard to case and
  in their order, and says so when unloaded objects could match. It looks at the whole key: text
  that occurs in the folder's own path keeps every row.
\<close>

theorem search_filters_by_key:
  "dataSource lower show_date s pfx pfxs objects =
     filter (\<lambda>r. matches lower (lower s) (row_key r)) (map (prefix_row pfx) pfxs @ map (object_row show_date) objects) \<and>
   (truncated \<and> s \<noteq> [] \<longrightarrow>
      ObjectBrowser lower t show_date cmp s metaKey preview pfx objects pfxs False writable truncated \<noteq> Skeleton_View \<and>
      (\<forall>b body more meta pv. ObjectBrowser lower t show_date cmp s metaKey preview pfx objects pfxs False
         writable truncated = Listing_View b body more meta pv \<longrightarrow> b \<and> more)) \<and>
   ((\<forall>k\<in>set pfxs \<union> obj_key ` set objects. \<exists>r. lower k = lower pfx @ r) \<and> js_includes (lower pfx) (lower s) \<longrightarrow>
      dataSource lower show_date s pfx pfxs objects =
        map (prefix_row pfx) pfxs @ map (object_row show_date) objects)"
proof (intro conjI impI)
  show filt: "dataSource lower show_date s pfx pfxs objects =
      filter (\<lambda>r. matches lower (lower s) (row_key r))
        (map (prefix_row pfx) pfxs @ map (object_row show_date) objects)"
    by (simp add: dataSource_def filter_map comp_def prefix_row_def object_row_def Let_def)
  assume "truncated \<and> s \<noteq> []"
  then show "ObjectBrowser lower t show_date cmp s metaKey preview pfx objects pfxs False writable truncated
      \<noteq> Skeleton_View"
    and "\<forall>b body more meta pv. ObjectBrowser lower t show_date cmp s metaKey preview pfx objects pfxs False
         writable truncated = Listing_View b body more meta pv \<longrightarrow> b \<and> more"
    by (simp_all add: ObjectBrowser_def Let_def)
next
  assume h: "(\<forall>k\<in>set pfxs \<union> obj_key ` set objects. \<exists>r. lower k = lower pfx @ r) \<and>
    js_includes (lower pfx) (lower s)"
  have "matches lower (lower s) k" if "k \<in> set pfxs \<union> obj_key ` set objects" for k
    using h that includes_append [of "lower pfx" "lower s"] unfolding matches_def by metis
  then show "dataSource lower show_date s pfx pfxs objects =
      map (prefix_row pfx) pfxs @ map (object_row show_date) objects"
    unfolding dataSource_def Let_def by (auto simp: filter_id_conv)
qed

theorem search_filters_by_key_witness:
  "length (dataSource lower_ascii id (js ''PHOTO'') (js ''photos/'') []
     [sample_object (js ''photos/a''), sample_object (js ''photos/b'')]) = 2"
proof -
  let ?os = "[sample_object (js ''photos/a''), sample_object (js ''photos/b'')]"
  let ?l = lower_ascii and ?q = "js ''PHOTO''" and ?d = "js ''photos/''"
  have ex: "\<exists>r. ?l (js ''photos/a'') = ?l ?d @ r" "\<exists>r. ?l (js ''photos/b'') = ?l ?d @ r"
    by (rule exI [of _ "js ''a''"], code_simp, rule exI [of _ "js ''b''"], code_simp)
  have "set [] \<union> obj_key ` set ?os = {js ''photos/a'', js ''photos/b''}"
    by (simp add: sample_object_def)
  then have "\<forall>k\<in>set [] \<union> obj_key ` set ?os. \<exists>r. ?l k = ?l ?d @ r"
    by (simp only: ball_simps ex simp_thms)
  moreover have "js_includes (?l ?d) (?l ?q)" by code_simp
  ultimately have "dataSource ?l id ?q ?d [] ?os = map (prefix_row ?d) [] @ map (object_row id) ?os"
    using search_filters_by_key [of ?l id ?q ?d "[]" ?os] by blast
  then show ?thesis by (simp only: list.map length_append list.size)
qed

text \<open>
  The table lists folders before files, each group in the order of the user's collation,
  and is a rearrangement of the rows: nothing is lost or repeated.
\<close>

theorem table_folders_first:
  assumes "collation cmp"
  shows "let shown = sort_by_cmp (nameSorter cmp) rows
    in mset shown = mset rows \<and>
       (\<exists>folders files. shown = folders @ files \<and>
          (\<forall>r\<in>set folders. row_is_prefix r) \<and> (\<forall>r\<in>set files. \<not> row_is_prefix r) \<and>
          sorted_wrt (\<lambda>a b. cmp a b \<le> 0) (map row_name folders) \<and>
          sorted_wrt (\<lambda>a b. cmp a b \<le> 0) (map row_name files))"
proof -
  let ?shown = "sort_by_cmp (nameSorter cmp) rows"
  let ?folders = "filter row_is_prefix ?shown" and ?files = "filter (\<lambda>r. \<not> row_is_prefix r) ?shown"
  have sorted: "sorted_wrt (\<lambda>a b. nameSorter cmp a b \<le> 0) ?shown"
    by (rule collation.sort_sorted [OF assms])
  then have "sorted_wrt (\<lambda>a b. cmp a b \<le> 0) (map row_name ?folders)"
      "sorted_wrt (\<lambda>a b. cmp a b \<le> 0) (map row_name ?files)"
    by (intro sorted_names [of cmp _ True] sorted_names [of cmp _ False]; simp add: sorted_wrt_filter)+
  then show ?thesis
    unfolding Let_def mset_sort_by_cmp
    using sorted_folders_first [OF sorted]
    by (intro conjI refl exI [of _ ?folders] exI [of _ ?files]) auto
qed

theorem table_folders_first_witness:
  "\<exists>folders files. sort_by_cmp (nameSorter ordinal_compare)
     (dataSource lower_ascii id [] [] [js ''z/''] [sample_object (js ''b''), sample_object (js ''a'')]) =
     folders @ files \<and> (\<forall>r\<in>set folders. row_is_prefix r) \<and> (\<forall>r\<in>set files. \<not> row_is_prefix r)"
proof -
  have "collation ordinal_compare" by (rule ordinal.collation_axioms)
  from table_folders_first [OF this] show ?thesis unfolding Let_def by blast
qed

text \<open>
  Deleting is offered for files only and only where the bucket's write right is known to
  be held; nothing is deleted without confirmation, and each outcome of a confirmed deletion is
  reported. (The separate right to delete plays no part in it.)
\<close>

theorem delete_offered_iff_write:
  assumes "Object_Section b q os ps l writable tr \<in> set (browser_page bucket param buckets st)"
  shows "(Delete_Action \<in> set (actions_cell writable r) \<longleftrightarrow>
      \<not> row_is_prefix r \<and> (\<exists>info. bucket_info_for buckets bucket = Some info \<and> perm_write (bi_permissions info))) \<and>
    handleDelete t bucket key False request = [] \<and>
    (handleDelete t bucket key True request = [Toast_Success (t (js ''messages.deleted'')), Refresh_Listing] \<or>
     (\<exists>msg. handleDelete t bucket key True request = [Toast_Error msg]))"
proof -
  have "writable = canWrite (bucket_info_for buckets bucket)"
    using assms by (auto simp: browser_page_def Let_def split: if_splits)
  then show ?thesis
    by (auto simp: actions_cell_def rowActions_def canWrite_def handleDelete_def confirm_delete_def
        Let_def split: option.splits)
qed

definition no_delete_bucket :: bucket_info where
  "no_delete_bucket = (sample_bucket ''a'' True)\<lparr>bi_permissions :=
     \<lparr>perm_read = True, perm_write = True, perm_delete = Some False\<rparr>\<rparr>"

theorem delete_offered_iff_write_witness:
  "Delete_Action \<in> set (actions_cell True (object_row id (sample_object (js ''k''))))"
proof -
  have info: "bucket_info_for [no_delete_bucket] (js ''a'') = Some no_delete_bucket"
      "perm_write (bi_permissions no_delete_bucket)"
    by (simp_all add: bucket_info_for_def no_delete_bucket_def sample_bucket_def)
  then have "Object_Section (js ''a'') [] [] [] False True False \<in>
      set (browser_page (js ''a'') None [no_delete_bucket] br_init)"
    by (simp add: browser_page_def canRead_def canWrite_def page_prefix_def nullish_def br_init_def
        no_delete_bucket_def)
  from delete_offered_iff_write [OF this] info show ?thesis by (simp add: object_row_def)
qed

end
