(* ===== verification/Layout_Shell.thy ===== *)
theory Layout_Shell
  imports Js_Number Js_String Auth_Provider Buckets_Store
begin

text \<open>
  \<open>web/src/components/siderWidth.ts\<close> and \<open>AppShell.tsx\<close>: the width of the sidebar, its
  storage and its dragging, the navigation menu and the view. \<open>localStorage\<close> is a partial map from keys
  to strings, absent outside a browser; \<open>Number\<close> of a stored string is a parameter
  (\<open>to_number\<close>) with the interface \<open>number_reader\<close>.
\<close>

section \<open>The width of the sidebar\<close>

type_synonym storage = "jstr \<rightharpoonup> jstr"

datatype js_num = Fin rat | Non_Finite

definition SIDER_WIDTH_STORAGE_KEY :: jstr where
  "SIDER_WIDTH_STORAGE_KEY = js ''pier.sider.width''"

definition DEFAULT_SIDER_WIDTH :: int where "DEFAULT_SIDER_WIDTH = 240"

definition MIN_SIDER_WIDTH :: int where "MIN_SIDER_WIDTH = 180"

definition MAX_SIDER_WIDTH :: int where "MAX_SIDER_WIDTH = 480"

definition clampSiderWidth :: "js_num \<Rightarrow> int" where
  "clampSiderWidth width =
     (case width of
        Non_Finite \<Rightarrow> DEFAULT_SIDER_WIDTH
      | Fin w \<Rightarrow> min MAX_SIDER_WIDTH (max MIN_SIDER_WIDTH (math_round w)))"

definition loadSiderWidth :: "(jstr \<Rightarrow> js_num) \<Rightarrow> storage option \<Rightarrow> int" where
  "loadSiderWidth to_number st =
     (case st of
        None \<Rightarrow> DEFAULT_SIDER_WIDTH
      | Some ls \<Rightarrow>
          (case ls SIDER_WIDTH_STORAGE_KEY of
             None \<Rightarrow> DEFAULT_SIDER_WIDTH
           | Some raw \<Rightarrow>
               (if raw = [] then DEFAULT_SIDER_WIDTH
                else (case to_number raw of
                        Fin w \<Rightarrow> clampSiderWidth (Fin w)
                      | Non_Finite \<Rightarrow> DEFAULT_SIDER_WIDTH))))"

definition saveSiderWidth :: "js_num \<Rightarrow> storage option \<Rightarrow> storage option" where
  "saveSiderWidth width st =
     map_option (\<lambda>ls. ls(SIDER_WIDTH_STORAGE_KEY \<mapsto> int_to_js (clampSiderWidth width))) st"

text \<open>What is relied on of \<open>Number(raw)\<close>: it reads decimal digits back.\<close>

locale number_reader =
  fixes to_number :: "jstr \<Rightarrow> js_num"
  assumes reads_digits: "to_number (digits n) = Fin (of_nat n)"
begin

lemma reads_int: "0 \<le> n \<Longrightarrow> to_number (int_to_js n) = Fin (of_int n)"
  by (simp add: int_to_js_def reads_digits)

end

definition read_decimal :: "jstr \<Rightarrow> js_num" where
  "read_decimal s =
     (if s \<noteq> [] \<and> list_all (\<lambda>c. 48 \<le> unat c \<and> unat c \<le> 57) s then Fin (of_nat (read_digits s))
      else Non_Finite)"

interpretation decimal: number_reader read_decimal
  using digits_range by unfold_locales (auto simp: read_decimal_def read_digits_digits list_all_iff)

section \<open>The shell\<close>

text \<open>The pointer's origin and the width there, while dragging.\<close>

record shell =
  sh_width :: int
  sh_drag :: "(rat \<times> int) option"
  sh_mobile :: bool
  sh_storage :: "storage option"

definition shell_init :: "(jstr \<Rightarrow> js_num) \<Rightarrow> storage option \<Rightarrow> shell" where
  "shell_init to_number st =
     \<lparr>sh_width = loadSiderWidth to_number st, sh_drag = None, sh_mobile = False, sh_storage = st\<rparr>"

definition dragWidth :: "rat \<times> int \<Rightarrow> rat \<Rightarrow> int" where
  "dragWidth start x = clampSiderWidth (Fin (of_int (snd start) + x - fst start))"

definition onResizePointerDown :: "rat \<Rightarrow> shell \<Rightarrow> shell" where
  "onResizePointerDown x sh = sh\<lparr>sh_drag := Some (x, sh_width sh)\<rparr>"

definition onResizePointerMove :: "rat \<Rightarrow> shell \<Rightarrow> shell" where
  "onResizePointerMove x sh =
     (case sh_drag sh of None \<Rightarrow> sh | Some start \<Rightarrow> sh\<lparr>sh_width := dragWidth start x\<rparr>)"

definition onResizePointerUp :: "rat \<Rightarrow> shell \<Rightarrow> shell" where
  "onResizePointerUp x sh =
     (case sh_drag sh of
        None \<Rightarrow> sh
      | Some start \<Rightarrow>
          (let width = dragWidth start x
           in sh\<lparr>sh_drag := None, sh_width := width,
                 sh_storage := saveSiderWidth (Fin (of_int width)) (sh_storage sh)\<rparr>))"

definition setMobileNavOpen :: "bool \<Rightarrow> shell \<Rightarrow> shell" where
  "setMobileNavOpen b sh = sh\<lparr>sh_mobile := b\<rparr>"

section \<open>The menu\<close>

definition bucket_key :: "jstr \<Rightarrow> jstr" where
  "bucket_key name = js ''bucket:'' @ name"

definition menuItems :: "(jstr \<Rightarrow> jstr) \<Rightarrow> bucket_info list \<Rightarrow> (jstr \<times> jstr) list" where
  "menuItems t buckets =
     (js ''all'', t (js ''nav.allBuckets'')) # map (\<lambda>b. (bucket_key (bi_name b), bi_name b)) buckets"

definition selectedKey :: "jstr option \<Rightarrow> jstr" where
  "selectedKey bucket = (if truthy bucket then bucket_key (the bucket) else js ''all'')"

definition headerTitle :: "(jstr \<Rightarrow> jstr) \<Rightarrow> jstr option \<Rightarrow> jstr" where
  "headerTitle t bucket = (case bucket of Some b \<Rightarrow> b | None \<Rightarrow> t (js ''buckets.title''))"

text \<open>A click on the menu: where it navigates, if anywhere; the drawer closes in any case.\<close>

definition onMenuClick :: "jstr \<Rightarrow> shell \<Rightarrow> jstr option \<times> shell" where
  "onMenuClick key sh =
     ((if key = js ''all'' then Some (js ''/buckets'')
       else if starts_with key (js ''bucket:'') then Some (js ''/buckets/'' @ drop 7 key)
       else None),
      setMobileNavOpen False sh)"

definition user_initial :: "(jstr \<Rightarrow> jstr) \<Rightarrow> user_info option \<Rightarrow> jstr" where
  "user_initial upper user =
     (case user of None \<Rightarrow> js ''?'' | Some u \<Rightarrow> upper (take 1 (ui_username u)))"

section \<open>The view\<close>

text \<open>The buckets are listed when none are there.\<close>

definition shell_lists :: "bucket_info list \<Rightarrow> bool" where
  "shell_lists buckets \<longleftrightarrow> length buckets = 0"

text \<open>The navigation, rendered both in the sidebar and in the drawer.\<close>

record nav_view =
  nav_app_name :: jstr
  nav_label :: jstr
  nav_selected :: "jstr list"
  nav_items :: "(jstr \<times> jstr) list"

definition navContent :: "(jstr \<Rightarrow> jstr) \<Rightarrow> jstr option \<Rightarrow> bucket_info list \<Rightarrow> nav_view" where
  "navContent t bucket buckets =
     \<lparr>nav_app_name = t (js ''common.appName''), nav_label = t (js ''nav.buckets''),
      nav_selected = [selectedKey bucket], nav_items = menuItems t buckets\<rparr>"

text \<open>The user's block: initial, name and the entries of the menu with what they call.\<close>

datatype user_action = Call_Logout

record user_block =
  ub_initial :: jstr
  ub_name :: jstr
  ub_menu :: "(jstr \<times> user_action) list"

definition userMenu :: "(jstr \<Rightarrow> jstr) \<Rightarrow> (jstr \<times> user_action) list" where
  "userMenu t = [(t (js ''auth.logout''), Call_Logout)]"

record shell_view =
  sv_sider :: "int \<times> nav_view"
  sv_handle_label :: jstr
  sv_drawer :: "nav_view option"
  sv_menu_label :: jstr
  sv_title :: jstr
  sv_user :: "user_block option"

definition AppShell ::
  "(jstr \<Rightarrow> jstr) \<Rightarrow> (jstr \<Rightarrow> jstr) \<Rightarrow> jstr option \<Rightarrow> user_info option \<Rightarrow> bucket_info list \<Rightarrow> shell \<Rightarrow> shell_view"
  where
  "AppShell upper t bucket user buckets sh =
     (let nav = navContent t bucket buckets
      in \<lparr>sv_sider = (sh_width sh, nav), sv_handle_label = t (js ''nav.resize''),
          sv_drawer = (if sh_mobile sh then Some nav else None),
          sv_menu_label = t (js ''nav.menu''), sv_title = headerTitle t bucket,
          sv_user = map_option (\<lambda>u. \<lparr>ub_initial = user_initial upper user, ub_name = ui_username u,
                                     ub_menu = userMenu t\<rparr>) user\<rparr>)"

inductive shell_step :: "shell \<Rightarrow> shell \<Rightarrow> bool" where
  sh_down: "shell_step sh (onResizePointerDown x sh)"
| sh_move: "shell_step sh (onResizePointerMove x sh)"
| sh_up: "shell_step sh (onResizePointerUp x sh)"
| sh_nav: "shell_step sh (setMobileNavOpen b sh)"
| sh_menu: "shell_step sh (snd (onMenuClick key sh))"

inductive_cases shell_stepE: "shell_step sh sh'"

section \<open>Lemmas\<close>

lemma clamp_range: "MIN_SIDER_WIDTH \<le> clampSiderWidth w \<and> clampSiderWidth w \<le> MAX_SIDER_WIDTH"
  by (simp add: clampSiderWidth_def MIN_SIDER_WIDTH_def MAX_SIDER_WIDTH_def DEFAULT_SIDER_WIDTH_def
      split: js_num.split)

lemma clamp_fixed:
  "MIN_SIDER_WIDTH \<le> n \<Longrightarrow> n \<le> MAX_SIDER_WIDTH \<Longrightarrow> clampSiderWidth (Fin (of_int n)) = n"
  by (simp add: clampSiderWidth_def)

lemma load_range:
  "MIN_SIDER_WIDTH \<le> loadSiderWidth to_number st \<and> loadSiderWidth to_number st \<le> MAX_SIDER_WIDTH"
  using clamp_range
  by (auto simp: loadSiderWidth_def MIN_SIDER_WIDTH_def MAX_SIDER_WIDTH_def DEFAULT_SIDER_WIDTH_def
      split: option.split js_num.split)

context number_reader
begin

lemma load_saved: "loadSiderWidth to_number (saveSiderWidth w (Some ls)) = clampSiderWidth w"
proof -
  have "0 \<le> clampSiderWidth w" using clamp_range [of w] by (simp add: MIN_SIDER_WIDTH_def)
  moreover have "int_to_js n \<noteq> []" for n by (simp add: int_to_js_def)
  ultimately show ?thesis
    using clamp_range [of w] by (simp add: loadSiderWidth_def saveSiderWidth_def reads_int clamp_fixed)
qed

end

definition width_ok :: "shell \<Rightarrow> bool" where
  "width_ok sh \<longleftrightarrow> MIN_SIDER_WIDTH \<le> sh_width sh \<and> sh_width sh \<le> MAX_SIDER_WIDTH"

lemma shell_step_width: "shell_step s s' \<Longrightarrow> width_ok s \<Longrightarrow> width_ok s'"
  using clamp_range
  by (erule_tac shell_stepE)
     (auto simp: width_ok_def onResizePointerDown_def onResizePointerMove_def onResizePointerUp_def
       setMobileNavOpen_def onMenuClick_def dragWidth_def Let_def split: option.splits)

interpretation shell_width: transition_invariant "shell_init to_number st" shell_step width_ok
  by unfold_locales (simp add: width_ok_def shell_init_def load_range, rule shell_step_width)

lemma starts_drop: "starts_with (p @ s) p \<and> drop (length p) (p @ s) = s"
  by simp

section \<open>Properties\<close>

text \<open>
  Whatever is stored and however the pointer moves, the sidebar is between 180 and 480
  pixels wide; the end of a drag stores the width shown, and the next load reads that width back.
\<close>

theorem sider_width_bounded_and_kept:
  assumes "number_reader to_number" and "reach (shell_init to_number st) shell_step sh"
  shows "180 \<le> sh_width sh \<and> sh_width sh \<le> 480 \<and>
    (sh_drag sh \<noteq> None \<and> sh_storage sh = Some ls \<longrightarrow>
       sh_width (shell_init to_number (sh_storage (onResizePointerUp x sh))) =
       sh_width (onResizePointerUp x sh))"
proof (intro conjI impI)
  have "width_ok sh" using shell_width.always [OF assms(2)] .
  then show "180 \<le> sh_width sh" "sh_width sh \<le> 480"
    by (simp_all add: width_ok_def MIN_SIDER_WIDTH_def MAX_SIDER_WIDTH_def)
  assume h: "sh_drag sh \<noteq> None \<and> sh_storage sh = Some ls"
  then obtain start where start: "sh_drag sh = Some start" by auto
  let ?w = "dragWidth start x"
  have "clampSiderWidth (Fin (of_int ?w)) = ?w"
    using clamp_range by (intro clamp_fixed) (simp_all add: dragWidth_def)
  then show "sh_width (shell_init to_number (sh_storage (onResizePointerUp x sh))) =
      sh_width (onResizePointerUp x sh)"
    using h start number_reader.load_saved [OF assms(1)]
    by (simp add: onResizePointerUp_def shell_init_def Let_def)
qed

theorem sider_width_bounded_and_kept_witness:
  "sh_width (onResizePointerDown 10 (shell_init read_decimal (Some Map.empty))) \<le> 480"
proof -
  have "reach (shell_init read_decimal (Some Map.empty)) shell_step
      (onResizePointerDown 10 (shell_init read_decimal (Some Map.empty)))"
    by (rule reach_one, rule sh_down)
  from sider_width_bounded_and_kept [OF decimal.number_reader_axioms this] show ?thesis by blast
qed

text \<open>
  The menu leads where it says: the entry of a bucket opens that bucket's page and is the
  entry marked there, the first entry opens the list, the entries of buckets with different
  names are different, none of them is taken for the first one, and the drawer closes.
\<close>

theorem menu_entries_faithful:
  "fst (onMenuClick (bucket_key name) sh) = Some (js ''/buckets/'' @ name) \<and>
   (name \<noteq> [] \<longrightarrow> selectedKey (Some name) = bucket_key name) \<and>
   fst (onMenuClick (js ''all'') sh) = Some (js ''/buckets'') \<and>
   (distinct (map bi_name buckets) \<longrightarrow> distinct (map fst (menuItems t buckets))) \<and>
   \<not> sh_mobile (snd (onMenuClick key sh))"
proof -
  have key: "bucket_key name \<noteq> js ''all''" for name
    by (simp add: bucket_key_def)
  have "drop 7 (bucket_key name) = name" "starts_with (bucket_key name) (js ''bucket:'')"
    using starts_drop [of "js ''bucket:''" name] by (simp_all add: bucket_key_def)
  moreover have "inj bucket_key" by (simp add: inj_def bucket_key_def)
  then have "distinct (map bi_name buckets) \<longrightarrow> distinct (map (\<lambda>b. bucket_key (bi_name b)) buckets)"
    using distinct_map [of bucket_key "map bi_name buckets"] inj_on_subset by (auto simp: comp_def)
  moreover have "js ''all'' \<notin> set (map (\<lambda>b. bucket_key (bi_name b)) buckets)"
    using key by (metis (no_types, lifting) ex_map_conv)
  ultimately show ?thesis
    using key
    by (simp add: onMenuClick_def selectedKey_def truthy_def menuItems_def setMobileNavOpen_def comp_def
        del: js_Cons)
qed

theorem menu_entries_faithful_witness:
  "distinct (map fst (menuItems id [sample_bucket ''all'' True, sample_bucket ''b'' True])) \<and>
   fst (onMenuClick (bucket_key (js ''all'')) (shell_init read_decimal None)) = Some (js ''/buckets/all'')"
proof -
  let ?bs = "[sample_bucket ''all'' True, sample_bucket ''b'' True]"
  have "distinct (map bi_name ?bs)" by (simp add: sample_bucket_def)
  moreover have "js ''/buckets/'' @ js ''all'' = js ''/buckets/all''" by simp
  ultimately show ?thesis
    using menu_entries_faithful [of "js ''all''" "shell_init read_decimal None" ?bs id] by metis
qed

text \<open>
  What the shell shows while a bucket is open: its name as the title, and in the sidebar and, if
  open, the drawer the same navigation with exactly the entry of that bucket marked, provided
  it is among the buckets listed; signing out is offered if and only if somebody is signed in.
\<close>

theorem shell_shows_open_bucket:
  assumes "b \<in> set buckets" and "distinct (map bi_name buckets)" and "bi_name b \<noteq> []"
  shows "let v = AppShell upper t (Some (bi_name b)) user buckets sh; nav = snd (sv_sider v)
    in sv_title v = bi_name b \<and>
       filter (\<lambda>(k, _). k \<in> set (nav_selected nav)) (nav_items nav) = [(bucket_key (bi_name b), bi_name b)] \<and>
       (sv_drawer v = None \<or> sv_drawer v = Some nav) \<and>
       ((\<exists>u. sv_user v = Some u \<and> map snd (ub_menu u) = [Call_Logout]) \<longleftrightarrow> user \<noteq> None)"
proof -
  have all: "js ''all'' \<noteq> bucket_key n" for n by (simp add: bucket_key_def)
  have inj: "bucket_key m = bucket_key n \<longleftrightarrow> m = n" for m n by (simp add: bucket_key_def)
  have one: "filter (\<lambda>(k, _). k = bucket_key (bi_name b)) (map (\<lambda>c. (bucket_key (bi_name c), bi_name c)) bs)
      = [(bucket_key (bi_name b), bi_name b)]" if "b \<in> set bs" "distinct (map bi_name bs)" for bs
    using that
  proof (induction bs)
    case (Cons c bs)
    show ?case
    proof (cases "bi_name c = bi_name b")
      case True
      then have "\<forall>d\<in>set bs. bi_name d \<noteq> bi_name b" using Cons(3) by (metis distinct.simps(2) image_eqI list.simps(9) set_map)
      then show ?thesis using True by (simp add: inj filter_empty_conv)
    next
      case False
      then show ?thesis using Cons by (auto simp: inj)
    qed
  qed simp
  show ?thesis using assms(3) all one [OF assms(1,2)]
    by (cases user)
       (simp_all add: AppShell_def navContent_def menuItems_def selectedKey_def truthy_def headerTitle_def
        Let_def userMenu_def del: js_Cons)
qed

theorem shell_shows_open_bucket_witness:
  "sv_title (AppShell id id (Some (js ''b'')) None [sample_bucket ''a'' True, sample_bucket ''b'' True]
     (shell_init read_decimal None)) = js ''b''"
proof -
  let ?a = "sample_bucket ''a'' True" and ?b = "sample_bucket ''b'' True"
  have name: "bi_name ?b = js ''b''" by (simp add: sample_bucket_def)
  have "?b \<in> set [?a, ?b]" "distinct (map bi_name [?a, ?b])" "bi_name ?b \<noteq> []"
    by (simp_all add: sample_bucket_def)
  from shell_shows_open_bucket [OF this, of id id None "shell_init read_decimal None"]
  show ?thesis unfolding Let_def name by (rule conjunct1)
qed

end
