(* ===== verification/Bucket_Views.thy ===== *)
theory Bucket_Views
  imports Byte_Format Buckets_Store App_Routes
begin

text \<open>
  The views that carry computation of their own: the cards of \<open>BucketList.tsx\<close> (access label,
  statistics, quota bar), the crumbs of \<open>Breadcrumb.tsx\<close> and the dialog of \<open>ObjectMeta.tsx\<close>.
\<close>

section \<open>Bucket cards\<close>

datatype access_class = Rw | Wo | Ro

definition accessBadge :: "bucket_perms \<Rightarrow> (jstr \<Rightarrow> jstr) \<Rightarrow> jstr \<times> access_class" where
  "accessBadge perms t =
     (if perm_write perms \<and> perm_read perms then (t (js ''buckets.readWrite''), Rw)
      else if perm_write perms then (t (js ''buckets.writeOnly''), Wo)
      else (t (js ''buckets.read''), Ro))"

text \<open>The bar of a quota: the quotient, the percentage shown and whether it is an alarm.\<close>

definition quota_ratio :: "int \<Rightarrow> int \<Rightarrow> rat" where
  "quota_ratio used quota = to_double (of_int used / of_int quota)"

definition quota_percent :: "int \<Rightarrow> int \<Rightarrow> int" where
  "quota_percent used quota = min 100 (math_round (to_double (quota_ratio used quota * 100)))"

definition quota_alarm :: "int \<Rightarrow> int \<Rightarrow> bool" where
  "quota_alarm used quota \<longleftrightarrow> to_double (9 / 10) \<le> quota_ratio used quota"

record quota_bar =
  qb_percent :: int
  qb_alarm :: bool
  qb_label :: jstr
  qb_tooltip :: "jstr \<times> jstr"

text \<open>A card; \<open>t_objects\<close> is the translation of the number of objects.\<close>

record bucket_card =
  card_name :: jstr
  card_target :: jstr
  card_stats :: "jstr list"
  card_quota :: "quota_bar option"
  card_badge :: "jstr \<times> access_class"

definition lower_bound_mark :: "bucket_info \<Rightarrow> jstr" where
  "lower_bound_mark b = (if bi_stats_truncated b = Some True then [0x2265, 32] else [])"

definition stats_lines :: "(int \<Rightarrow> jstr) \<Rightarrow> jstr \<Rightarrow> bucket_info \<Rightarrow> jstr list" where
  "stats_lines t_objects dash b =
     (case bi_object_count b of None \<Rightarrow> [] | Some n \<Rightarrow> [lower_bound_mark b @ t_objects n])
     @ (case bi_size_bytes b of None \<Rightarrow> [] | Some n \<Rightarrow> [lower_bound_mark b @ formatBytes_bucket (Some n) dash])"

definition quota_of :: "jstr \<Rightarrow> bucket_info \<Rightarrow> quota_bar option" where
  "quota_of dash b =
     (case (bi_quota_bytes b, bi_size_bytes b) of
        (Some quota, Some used) \<Rightarrow>
          (if quota \<noteq> 0
           then Some \<lparr>qb_percent = quota_percent used quota, qb_alarm = quota_alarm used quota,
                  qb_label = formatBytes_bucket (Some quota) dash,
                  qb_tooltip = (formatBytes_bucket (Some used) dash, formatBytes_bucket (Some quota) dash)\<rparr>
           else None)
      | _ \<Rightarrow> None)"

definition card_of :: "(jstr \<Rightarrow> jstr) \<Rightarrow> (int \<Rightarrow> jstr) \<Rightarrow> bucket_info \<Rightarrow> bucket_card" where
  "card_of t t_objects b =
     \<lparr>card_name = bi_name b, card_target = js ''/buckets/'' @ bi_name b,
      card_stats = stats_lines t_objects (t (js ''common.dash'')) b,
      card_quota = quota_of (t (js ''common.dash'')) b,
      card_badge = accessBadge (bi_permissions b) t\<rparr>"

text \<open>Enter and space open a card like a click does.\<close>

definition card_key_down :: "jstr \<Rightarrow> bucket_card \<Rightarrow> jstr option" where
  "card_key_down key c = (if key = js ''Enter'' \<or> key = js '' '' then Some (card_target c) else None)"

datatype bucket_list_view = Cards_Skeleton | No_Buckets | Cards "bucket_card list"

definition BucketList ::
  "(jstr \<Rightarrow> jstr) \<Rightarrow> (int \<Rightarrow> jstr) \<Rightarrow> bucket_info list \<Rightarrow> bool \<Rightarrow> bucket_list_view" where
  "BucketList t t_objects buckets loading =
     (if loading then Cards_Skeleton
      else if length buckets = 0 then No_Buckets
      else Cards (map (card_of t t_objects) buckets))"

section \<open>Breadcrumb\<close>

text \<open>A crumb is a label with the folder it navigates to; the last one is plain text.\<close>

datatype crumb_target = To_Home | To_Folder jstr | Plain_Crumb

definition crumb_parts :: "jstr \<Rightarrow> jstr list" where
  "crumb_parts pfx = filter (\<lambda>p. p \<noteq> []) (split_on slash pfx)"

definition crumb_path :: "jstr list \<Rightarrow> nat \<Rightarrow> jstr" where
  "crumb_path parts i = join_with slash (take (i + 1) parts) @ [slash]"

definition BreadcrumbNav :: "(jstr \<Rightarrow> jstr) \<Rightarrow> jstr \<Rightarrow> jstr \<Rightarrow> (jstr \<times> crumb_target) list" where
  "BreadcrumbNav t bucket pfx =
     (let parts = crumb_parts pfx
      in [(t (js ''nav.buckets''), To_Home), (bucket, To_Folder [])]
         @ map (\<lambda>i. (parts ! i,
                  if i = length parts - 1 then Plain_Crumb else To_Folder (crumb_path parts i)))
             [0..<length parts])"

section \<open>Object metadata\<close>

record meta_data =
  md_key :: jstr
  md_content_type :: jstr
  md_content_length :: "int option"
  md_etag :: jstr
  md_last_modified :: jstr

record meta_state =
  ms_meta :: "meta_data option"
  ms_loading :: bool

definition meta_init :: meta_state where
  "meta_init = \<lparr>ms_meta = None, ms_loading = True\<rparr>"

text \<open>The effect; building the path is outside the promise, so it may throw (none).\<close>

definition meta_effect :: "jstr \<Rightarrow> jstr \<Rightarrow> bool \<Rightarrow> meta_state \<Rightarrow> (meta_state \<times> jstr option) option" where
  "meta_effect bucket key visible st =
     (if \<not> visible then Some (st, None)
      else (case buildMetaPath bucket key of
              None \<Rightarrow> None
            | Some path \<Rightarrow> Some (st\<lparr>ms_loading := True\<rparr>, Some path)))"

definition meta_reply :: "meta_data option \<Rightarrow> meta_state \<Rightarrow> meta_state" where
  "meta_reply reply st = st\<lparr>ms_meta := reply, ms_loading := False\<rparr>"

datatype meta_view = Meta_Skeleton | Meta_Items "(jstr \<times> jstr) list" | Meta_Error jstr

definition ObjectMeta :: "(jstr \<Rightarrow> jstr) \<Rightarrow> (jstr \<Rightarrow> jstr) \<Rightarrow> meta_state \<Rightarrow> meta_view" where
  "ObjectMeta t show_date st =
     (if ms_loading st then Meta_Skeleton
      else (case ms_meta st of
              None \<Rightarrow> Meta_Error (t (js ''errors.loadMeta''))
            | Some m \<Rightarrow> Meta_Items
                [(t (js ''meta.key''), md_key m),
                 (t (js ''meta.contentType''), md_content_type m),
                 (t (js ''meta.size''), formatBytes_meta (md_content_length m)),
                 (t (js ''meta.etag''), md_etag m),
                 (t (js ''meta.lastModified''),
                  if md_last_modified m \<noteq> [] then show_date (md_last_modified m)
                  else t (js ''common.dash''))]))"

section \<open>Lemmas\<close>

definition folder_path :: "jstr list \<Rightarrow> jstr" where
  "folder_path ns = concat (map (\<lambda>n. n @ [slash]) ns)"

lemma join_folder: "ns \<noteq> [] \<Longrightarrow> join_with slash ns @ [slash] = folder_path ns"
  by (induction slash ns rule: join_with.induct) (auto simp: folder_path_def)

lemma split_folder:
  "\<forall>n\<in>set ns. slash \<notin> set n \<Longrightarrow> split_on slash (folder_path ns) = ns @ [[]]"
  by (induction ns) (auto simp: folder_path_def split_on_append_sep)

lemma crumb_parts_folder:
  "\<forall>n\<in>set ns. n \<noteq> [] \<and> slash \<notin> set n \<Longrightarrow> crumb_parts (folder_path ns) = ns"
  by (simp add: crumb_parts_def split_folder filter_id_conv)

lemma crumb_path_folder: "i < length ns \<Longrightarrow> crumb_path ns i = folder_path (take (i + 1) ns)"
  unfolding crumb_path_def by (rule join_folder) (cases ns; simp)

section \<open>Properties\<close>

text \<open>
  The crumbs retrace the path: in a folder each level has its crumb with its name, the
  crumb of a level above leads to exactly the path of that level, whose crumbs are the levels
  down to it, and the last one, the folder shown, is not a link.
\<close>

theorem breadcrumb_retraces_path:
  assumes "\<forall>n\<in>set ns. n \<noteq> [] \<and> slash \<notin> set n" and "i < length ns"
  shows "BreadcrumbNav t bucket (folder_path ns) ! (i + 2) =
      (ns ! i, if i = length ns - 1 then Plain_Crumb else To_Folder (folder_path (take (i + 1) ns))) \<and>
    length (BreadcrumbNav t bucket (folder_path ns)) = length ns + 2 \<and>
    crumb_parts (folder_path (take (i + 1) ns)) = take (i + 1) ns"
proof -
  have "crumb_parts (folder_path (take (i + 1) ns)) = take (i + 1) ns"
    using assms(1) by (intro crumb_parts_folder) (blast dest: in_set_takeD)
  moreover have "crumb_parts (folder_path ns) = ns" by (rule crumb_parts_folder [OF assms(1)])
  then have nav: "BreadcrumbNav t bucket (folder_path ns) =
      [(t (js ''nav.buckets''), To_Home), (bucket, To_Folder [])]
       @ map (\<lambda>i. (ns ! i, if i = length ns - 1 then Plain_Crumb else To_Folder (crumb_path ns i)))
           [0..<length ns]"
    unfolding BreadcrumbNav_def Let_def by (simp only:)
  moreover have "([x, y] @ zs) ! (i + 2) = zs ! i" for x y :: "jstr \<times> crumb_target" and zs
    by simp
  ultimately show ?thesis
    using assms(2) by (simp only: nav) (simp add: crumb_path_folder)
qed

theorem breadcrumb_retraces_path_witness:
  "BreadcrumbNav id (js ''b'') (folder_path [js ''a'', js ''c'']) ! 2 =
     (js ''a'', To_Folder (folder_path [js ''a'']))"
proof -
  have "\<forall>n\<in>set [js ''a'', js ''c'']. n \<noteq> [] \<and> slash \<notin> set n" "0 < length [js ''a'', js ''c'']"
    by simp_all
  from breadcrumb_retraces_path [OF this, of id "js ''b''"] show ?thesis
    by (simp add: numeral_2_eq_2)
qed

text \<open>
  The quota bar stays between 0 and 100 percent, does not fall as the usage grows, is full
  and alarmed from the quota on, and alarmed from nine tenths of it on (with the roundings of
  the double arithmetic).
\<close>

theorem quota_bar_correct:
  assumes "0 < quota" and "0 \<le> used" and "used \<le> used'"
  shows "0 \<le> quota_percent used quota \<and> quota_percent used quota \<le> 100 \<and>
    quota_percent used quota \<le> quota_percent used' quota \<and>
    (quota \<le> used \<longrightarrow> quota_percent used quota = 100) \<and>
    (9 * quota \<le> 10 * used \<longrightarrow> quota_alarm used quota)"
proof -
  let ?r = "\<lambda>u. of_int u / (of_int quota :: rat)"
  have q: "0 < (of_int quota :: rat)" using assms(1) by simp
  have mono: "quota_ratio u quota \<le> quota_ratio v quota" if "0 \<le> u" "u \<le> v" for u v
    unfolding quota_ratio_def using q that
    by (intro to_double_mono) (simp_all add: divide_right_mono)
  have nn: "0 \<le> quota_ratio u quota" if "0 \<le> u" for u
    unfolding quota_ratio_def using q that by (intro to_double_nonneg) simp
  have pmono: "math_round (to_double (quota_ratio u quota * 100)) \<le> math_round (to_double (quota_ratio v quota * 100))"
    if "0 \<le> u" "u \<le> v" for u v
    using mono [OF that] nn [OF that(1)] by (intro math_round_mono to_double_mono) simp_all
  have one: "quota_ratio quota quota = 1"
    using q to_double_nat [of 1] by (simp add: quota_ratio_def)
  have zero: "math_round (to_double (quota_ratio 0 quota * 100)) = 0"
    using math_round_int [of 0] by (simp add: quota_ratio_def to_double_def)
  have full: "math_round (to_double (quota_ratio quota quota * 100)) = 100"
    unfolding one using to_double_nat [of 100] math_round_int [of 100] by simp
  have alarm: "quota_alarm used quota" if "9 * quota \<le> 10 * used"
  proof -
    have "of_int (9 * quota) \<le> (of_int (10 * used) :: rat)" using that by (simp only: of_int_le_iff)
    then have "9 / 10 \<le> ?r used" using q by (simp add: field_simps)
    then show ?thesis unfolding quota_alarm_def quota_ratio_def by (intro to_double_mono) simp_all
  qed
  have "0 \<le> quota_percent used quota"
    using pmono [of 0 used] assms(2) zero by (simp add: quota_percent_def)
  moreover have "quota_percent used quota = 100" if "quota \<le> used"
    using pmono [of quota used] that assms(1) full by (simp add: quota_percent_def)
  ultimately show ?thesis
    using pmono [of used used'] assms alarm by (auto simp: quota_percent_def)
qed

theorem quota_bar_correct_witness:
  "quota_alarm 9 10 \<and> quota_percent 12 10 = 100"
  using quota_bar_correct [of 10 9 9] quota_bar_correct [of 10 12 12] by simp

text \<open>
  The access label tells read-write, write-only and the rest apart; a bucket with neither
  right is labelled as readable.
\<close>

lemma access_badge_class:
  "snd (accessBadge perms t) = (if perm_write perms then if perm_read perms then Rw else Wo else Ro)"
  by (simp add: accessBadge_def)

end
