(* ===== verification/Theme_Palette.thy ===== *)
theory Theme_Palette
  imports Prelude
begin

text \<open>
  \<open>web/src/theme/types.ts\<close>, \<open>presets.ts\<close> and \<open>tokens.ts\<close>: the presets, how a preset's
  surfaces overlay those of a scheme, the configuration handed to AntD and the CSS variables.
  An object of optional keys is an association list; the palette it is spread into a map. What
  AntD computes from a configuration (\<open>getDesignToken\<close>) is a parameter.
\<close>

section \<open>Presets\<close>

type_synonym scheme = jstr

definition light :: scheme where "light = js ''light''"
definition dark :: scheme where "dark = js ''dark''"

type_synonym palette = "string \<rightharpoonup> jstr"

record preset =
  p_id :: jstr
  p_name :: jstr
  p_base :: scheme
  p_primary :: jstr
  p_radius :: int
  p_surfaces :: "(string \<times> jstr) list option"

definition rose_pine :: preset where
  "rose_pine =
    \<lparr>p_id = js ''rose-pine'', p_name = js ''Ros'' @ [233] @ js '' Pine'', p_base = dark, p_primary = js ''#C4A7E7'', p_radius = 10,
      p_surfaces = Some
       [(''bgLayout'', js ''#191724''), (''bgContainer'', js ''#1F1D2E''),
        (''bgElevated'', js ''#26233A''), (''border'', js ''#26233A''),
        (''borderSecondary'', js ''#211F30''), (''surface2'', js ''#26233A''),
        (''borderStrong'', js ''#403D52''), (''text'', js ''#E0DEF4''),
        (''textMuted'', js ''#908CAA'')]\<rparr>"

definition gruvbox :: preset where
  "gruvbox =
    \<lparr>p_id = js ''gruvbox'', p_name = js ''Gruvbox'', p_base = dark, p_primary = js ''#FE8019'', p_radius = 6,
      p_surfaces = Some
       [(''bgLayout'', js ''#1D2021''), (''bgContainer'', js ''#282828''),
        (''bgElevated'', js ''#3C3836''), (''border'', js ''#504945''),
        (''borderSecondary'', js ''#3C3836''), (''surface2'', js ''#3C3836''),
        (''borderStrong'', js ''#665C54''), (''text'', js ''#EBDBB2''),
        (''textMuted'', js ''#A89984'')]\<rparr>"

definition PRESET_THEMES :: "preset list" where
  "PRESET_THEMES =
   [\<lparr>p_id = js ''ocean'', p_name = js ''Ocean'', p_base = light, p_primary = js ''#0EA5E9'', p_radius = 10,
      p_surfaces = None\<rparr>,
    \<lparr>p_id = js ''midnight'', p_name = js ''Midnight'', p_base = dark, p_primary = js ''#6366F1'', p_radius = 10,
      p_surfaces = None\<rparr>,
    \<lparr>p_id = js ''emerald'', p_name = js ''Emerald'', p_base = dark, p_primary = js ''#10B981'', p_radius = 10,
      p_surfaces = None\<rparr>,
    \<lparr>p_id = js ''github-light'', p_name = js ''GitHub Light'', p_base = light, p_primary = js ''#0969DA'', p_radius = 6,
      p_surfaces = Some
       [(''bgLayout'', js ''#F6F8FA''), (''bgContainer'', js ''#FFFFFF''),
        (''bgElevated'', js ''#FFFFFF''), (''border'', js ''#D0D7DE''),
        (''borderSecondary'', js ''#D8DEE4''), (''surface2'', js ''#F6F8FA''),
        (''borderStrong'', js ''#AFB8C1''), (''text'', js ''#1F2328''),
        (''textMuted'', js ''#656D76'')]\<rparr>,
    \<lparr>p_id = js ''github-dark'', p_name = js ''GitHub Dark'', p_base = dark, p_primary = js ''#2F81F7'', p_radius = 6,
      p_surfaces = Some
       [(''bgLayout'', js ''#010409''), (''bgContainer'', js ''#0D1117''),
        (''bgElevated'', js ''#161B22''), (''border'', js ''#30363D''),
        (''borderSecondary'', js ''#21262D''), (''surface2'', js ''#161B22''),
        (''borderStrong'', js ''#3D444D''), (''text'', js ''#E6EDF3''),
        (''textMuted'', js ''#8B949E'')]\<rparr>,
    \<lparr>p_id = js ''claude-light'', p_name = js ''Claude Light'', p_base = light, p_primary = js ''#C96442'', p_radius = 8,
      p_surfaces = Some
       [(''bgLayout'', js ''#F0EEE6''), (''bgContainer'', js ''#FAF9F5''),
        (''bgElevated'', js ''#FFFFFF''), (''border'', js ''#DAD3C2''),
        (''borderSecondary'', js ''#E7E1D5''), (''surface2'', js ''#F0EEE6''),
        (''borderStrong'', js ''#C9BFA8''), (''text'', js ''#29261F''),
        (''textMuted'', js ''#6B6456'')]\<rparr>,
    \<lparr>p_id = js ''claude-dark'', p_name = js ''Claude Dark'', p_base = dark, p_primary = js ''#D97757'', p_radius = 8,
      p_surfaces = Some
       [(''bgLayout'', js ''#1F1E1D''), (''bgContainer'', js ''#262624''),
        (''bgElevated'', js ''#30302E''), (''border'', js ''#3E3E3A''),
        (''borderSecondary'', js ''#333330''), (''surface2'', js ''#2A2A28''),
        (''borderStrong'', js ''#4A4A45''), (''text'', js ''#ECEAE2''),
        (''textMuted'', js ''#A6A095'')]\<rparr>,
    \<lparr>p_id = js ''dracula'', p_name = js ''Dracula'', p_base = dark, p_primary = js ''#BD93F9'', p_radius = 8,
      p_surfaces = Some
       [(''bgLayout'', js ''#21222C''), (''bgContainer'', js ''#282A36''),
        (''bgElevated'', js ''#343746''), (''border'', js ''#44475A''),
        (''borderSecondary'', js ''#343746''), (''surface2'', js ''#343746''),
        (''borderStrong'', js ''#6272A4''), (''text'', js ''#F8F8F2''),
        (''textMuted'', js ''#9AA0B5'')]\<rparr>,
    \<lparr>p_id = js ''nord'', p_name = js ''Nord'', p_base = dark, p_primary = js ''#88C0D0'', p_radius = 8,
      p_surfaces = Some
       [(''bgLayout'', js ''#2E3440''), (''bgContainer'', js ''#3B4252''),
        (''bgElevated'', js ''#434C5E''), (''border'', js ''#4C566A''),
        (''borderSecondary'', js ''#434C5E''), (''surface2'', js ''#434C5E''),
        (''borderStrong'', js ''#4C566A''), (''text'', js ''#ECEFF4''),
        (''textMuted'', js ''#AEB6C7'')]\<rparr>,
    \<lparr>p_id = js ''solarized-light'', p_name = js ''Solarized Light'', p_base = light, p_primary = js ''#268BD2'', p_radius = 6,
      p_surfaces = Some
       [(''bgLayout'', js ''#EEE8D5''), (''bgContainer'', js ''#FDF6E3''),
        (''bgElevated'', js ''#FDF6E3''), (''border'', js ''#E3DCC6''),
        (''borderSecondary'', js ''#EEE8D5''), (''surface2'', js ''#EEE8D5''),
        (''borderStrong'', js ''#CFC8B0''), (''text'', js ''#657B83''),
        (''textMuted'', js ''#93A1A1'')]\<rparr>,
    rose_pine, gruvbox]"

definition DBX_PRIMARY :: jstr where
  "DBX_PRIMARY = js ''#4F46E5''"

definition DBX_RADIUS :: int where
  "DBX_RADIUS = 10"

section \<open>Surfaces\<close>

definition SURFACES :: "scheme \<Rightarrow> (string \<times> jstr) list" where
  "SURFACES s =
     (if s = light then
        [(''bgLayout'', js ''#F6F8FB''), (''bgContainer'', js ''#FFFFFF''),
         (''bgElevated'', js ''#FFFFFF''), (''border'', js ''#E2E8F0''),
         (''borderSecondary'', js ''#EAEEF4''), (''surface2'', js ''#F1F5F9''),
         (''borderStrong'', js ''#CBD5E1''),
         (''shadowSm'', js ''0 1px 2px rgba(15, 23, 42, 0.06)''),
         (''shadow'', js ''0 6px 18px rgba(15, 23, 42, 0.08)''),
         (''shadowLg'', js ''0 18px 44px rgba(15, 23, 42, 0.14)'')]
      else if s = dark then
        [(''bgLayout'', js ''#0B1120''), (''bgContainer'', js ''#141B2E''),
         (''bgElevated'', js ''#1B2540''), (''border'', js ''#2A344E''),
         (''borderSecondary'', js ''#202A42''), (''surface2'', js ''#1B2540''),
         (''borderStrong'', js ''#334155''),
         (''shadowSm'', js ''0 1px 2px rgba(0, 0, 0, 0.4)''),
         (''shadow'', js ''0 8px 24px rgba(0, 0, 0, 0.45)''),
         (''shadowLg'', js ''0 24px 60px rgba(0, 0, 0, 0.6)'')]
      else [])"

text \<open>Object spread: the later object wins key by key, and spreading nothing adds nothing.\<close>

definition resolveSurfaces :: "scheme \<Rightarrow> preset option \<Rightarrow> palette" where
  "resolveSurfaces s p =
     map_of (SURFACES s) ++ map_of (case p of None \<Rightarrow> [] | Some q \<Rightarrow> (case p_surfaces q of None \<Rightarrow> [] | Some x \<Rightarrow> x))"

section \<open>The AntD configuration\<close>

datatype token_value = Str_Value jstr | Num_Value int

datatype algorithm = Default_Algorithm | Dark_Algorithm

text \<open>An object literal; a key whose value is undefined has none.\<close>

type_synonym literal = "(string \<times> token_value option) list"

record theme_config =
  tc_algorithm :: algorithm
  tc_token :: literal
  tc_components :: "(string \<times> literal) list"

definition FONT_FAMILY :: jstr where
  "FONT_FAMILY = js ''\"Inter\", -apple-system, \"Segoe UI\", Roboto, sans-serif''"

definition MONO_FAMILY :: jstr where
  "MONO_FAMILY = js ''\"JetBrains Mono\", ui-monospace, SFMono-Regular, Menlo, Consolas, monospace''"

definition truthy_text :: "jstr option \<Rightarrow> bool" where
  "truthy_text x = (case x of Some s \<Rightarrow> s \<noteq> [] | None \<Rightarrow> False)"

definition buildThemeConfig :: "scheme \<Rightarrow> preset option \<Rightarrow> theme_config" where
  "buildThemeConfig sc p =
     (let algorithm = (if sc = dark then Dark_Algorithm else Default_Algorithm);
          primary = (case p of Some q \<Rightarrow> p_primary q | None \<Rightarrow> DBX_PRIMARY);
          radius = (case p of Some q \<Rightarrow> p_radius q | None \<Rightarrow> DBX_RADIUS);
          s = (\<lambda>k. map_option Str_Value (resolveSurfaces sc p k));
          str = (\<lambda>x. Some (Str_Value (js x)));
          num = (\<lambda>n. Some (Num_Value n));
          token =
            [(''colorPrimary'', Some (Str_Value primary)), (''borderRadius'', num radius),
             (''fontFamily'', Some (Str_Value FONT_FAMILY)), (''fontSize'', num 14),
             (''colorBgLayout'', s ''bgLayout''), (''colorBgContainer'', s ''bgContainer''),
             (''colorBgElevated'', s ''bgElevated''), (''colorBorder'', s ''border''),
             (''colorBorderSecondary'', s ''borderSecondary''), (''controlHeight'', num 36),
             (''boxShadowSecondary'', s ''shadow'')]
            @ (if truthy_text (resolveSurfaces sc p ''text'')
               then [(''colorText'', s ''text'')] else [])
            @ (if truthy_text (resolveSurfaces sc p ''textMuted'')
               then [(''colorTextSecondary'', s ''textMuted''), (''colorTextTertiary'', s ''textMuted'')]
               else [])
      in \<lparr>tc_algorithm = algorithm, tc_token = token,
          tc_components =
            [(''Layout'', [(''headerBg'', s ''bgContainer''), (''siderBg'', s ''bgContainer''), (''bodyBg'', s ''bgLayout'')]),
             (''Menu'', [(''itemBorderRadius'', num radius), (''itemHeight'', num 40), (''itemMarginInline'', num 8),
                        (''activeBarWidth'', num 0)]),
             (''Card'', [(''borderRadiusLG'', num (max radius 12))]),
             (''Table'', [(''headerBg'', s ''surface2''), (''rowHoverBg'', s ''surface2'')]),
             (''Button'', [(''fontWeight'', num 500), (''primaryShadow'', str ''none'')])]\<rparr>)"

section \<open>The CSS variables\<close>

definition DbxCssVars :: "string list" where
  "DbxCssVars =
     [''--dbx-blue'', ''--dbx-blue-hover'', ''--dbx-blue-soft'', ''--dbx-border'',
      ''--dbx-border-strong'', ''--dbx-bg'', ''--dbx-text'', ''--dbx-muted'', ''--dbx-surface'',
      ''--dbx-surface-2'', ''--dbx-elevated'', ''--dbx-row-hover'', ''--dbx-dropzone-hover'',
      ''--dbx-shadow-sm'', ''--dbx-shadow'', ''--dbx-shadow-lg'', ''--dbx-gradient'', ''--dbx-mono'']"

type_synonym css_vars = "(string \<times> jstr option) list"

definition computeCssVars ::
  "(theme_config \<Rightarrow> string \<Rightarrow> jstr) \<Rightarrow> theme_config \<Rightarrow> scheme \<Rightarrow> preset option \<Rightarrow> css_vars" where
  "computeCssVars getDesignToken config sc p =
     (let t = getDesignToken config; tok = (\<lambda>k. Some (t k)); s = resolveSurfaces sc p
      in [(''--dbx-blue'', tok ''colorPrimary''),
          (''--dbx-blue-hover'', tok ''colorPrimaryHover''),
          (''--dbx-blue-soft'', tok ''colorPrimaryBg''),
          (''--dbx-border'', tok ''colorBorderSecondary''),
          (''--dbx-border-strong'', s ''borderStrong''),
          (''--dbx-bg'', tok ''colorBgLayout''),
          (''--dbx-text'', case s ''text'' of Some c \<Rightarrow> Some c | None \<Rightarrow> tok ''colorText''),
          (''--dbx-muted'', case s ''textMuted'' of Some c \<Rightarrow> Some c | None \<Rightarrow> tok ''colorTextSecondary''),
          (''--dbx-surface'', tok ''colorBgContainer''),
          (''--dbx-surface-2'', s ''surface2''),
          (''--dbx-elevated'', tok ''colorBgElevated''),
          (''--dbx-row-hover'', s ''surface2''),
          (''--dbx-dropzone-hover'', tok ''colorPrimaryBg''),
          (''--dbx-shadow-sm'', s ''shadowSm''),
          (''--dbx-shadow'', s ''shadow''),
          (''--dbx-shadow-lg'', s ''shadowLg''),
          (''--dbx-gradient'',
             Some (js ''linear-gradient(135deg, '' @ t ''colorPrimaryHover'' @ js '' 0%, '' @ t ''colorPrimary''
                   @ js '' 55%, '' @ t ''colorPrimaryActive'' @ js '' 100%)'')),
          (''--dbx-mono'', Some MONO_FAMILY)])"

section \<open>Lemmas\<close>

text \<open>
  What the type \<open>DbxCssVars\<close> promises: each variable, once, with a value. It needs the scheme
  to be one of the two.
\<close>

definition css_complete :: "css_vars \<Rightarrow> bool" where
  "css_complete vs \<longleftrightarrow> map fst vs = DbxCssVars \<and> list_all (\<lambda>(k, v). v \<noteq> None) vs"

lemma light_dark [simp]: "light \<noteq> dark" "dark \<noteq> light"
  by (simp_all add: light_def dark_def js_inject del: js_Cons)

definition surface_keys :: "string list" where
  "surface_keys = [''bgLayout'', ''bgContainer'', ''bgElevated'', ''border'', ''borderSecondary'',
     ''surface2'', ''borderStrong'', ''shadowSm'', ''shadow'', ''shadowLg'']"

lemma surface_defined:
  assumes "sc = light \<or> sc = dark" and "k \<in> set surface_keys"
  shows "resolveSurfaces sc p k \<noteq> None"
proof -
  have "map fst (SURFACES sc) = surface_keys"
    using assms(1) by (auto simp only: SURFACES_def surface_keys_def light_dark simp_thms if_True if_False list.map prod.sel)
  then have "k \<in> fst ` set (SURFACES sc)" using assms(2) by (metis set_map)
  then have "map_of (SURFACES sc) k \<noteq> None" by (simp add: map_of_eq_None_iff)
  then show ?thesis by (auto simp: resolveSurfaces_def map_add_def split: option.split)
qed

lemma surface_key: "list_all (\<lambda>k. k \<in> set surface_keys)
    [''borderStrong'', ''surface2'', ''shadowSm'', ''shadow'', ''shadowLg'']"
  by code_simp

lemma css_names: "map fst (computeCssVars g c sc p) = DbxCssVars"
  unfolding computeCssVars_def Let_def DbxCssVars_def by (simp only: list.map prod.sel)

lemma names_distinct: "distinct DbxCssVars"
  by code_simp

lemma vars_complete:
  assumes "sc = light \<or> sc = dark"
  shows "css_complete (computeCssVars g c sc p)"
proof -
  have "list_all (\<lambda>(k, v). v \<noteq> None) (computeCssVars g c sc p)"
    using surface_defined [OF assms] surface_key
    by (simp add: computeCssVars_def Let_def split: option.split)
  then show ?thesis by (simp add: css_complete_def css_names)
qed

text \<open>A preset's own surface is the one in force, and a key it leaves out is the scheme's.\<close>

lemma surfaces_overlay:
  "p_surfaces q = Some x \<Longrightarrow> map_of x k = Some c \<Longrightarrow> resolveSurfaces sc (Some q) k = Some c"
  "p_surfaces q = Some x \<Longrightarrow> map_of x k = None \<Longrightarrow> resolveSurfaces sc (Some q) k = map_of (SURFACES sc) k"
  by (simp_all add: resolveSurfaces_def map_add_def)

lemma preset_facts:
  "distinct (map p_id PRESET_THEMES) \<and>
   list_all (\<lambda>p. p_id p \<noteq> [] \<and> (p_base p = light \<or> p_base p = dark)) PRESET_THEMES"
  by (simp add: PRESET_THEMES_def rose_pine_def gruvbox_def js_words del: js_Cons)

end
