(* ===== verification/Theme.thy ===== *)
theory Theme
  imports Theme_Palette Js_Json Reachability
begin

text \<open>
  \<open>web/src/theme/storage.ts\<close>, \<open>ThemeProvider.tsx\<close> and \<open>ThemeSwitcher.tsx\<close>: the selection and
  how it is stored, the provider with the root element it styles, and the menu. A selection
  carries its mode as the string the code has, since the menu's click handler only casts it;
  that it is one of the three is shown (\<open>theme_always_typed\<close>). Writes to the storage succeed.
\<close>

section \<open>Selections\<close>

datatype theme_selection = Sel_Mode jstr | Sel_Preset jstr

definition SELECTION_STORAGE_KEY :: jstr where
  "SELECTION_STORAGE_KEY = js ''pier.theme.selection''"

definition DEFAULT_SELECTION :: theme_selection where
  "DEFAULT_SELECTION = Sel_Preset (js ''claude-light'')"

text \<open>The object of a selection, and what a property access on a JSON value finds.\<close>

definition selection_json :: "theme_selection \<Rightarrow> 'n json" where
  "selection_json sel =
     (case sel of
        Sel_Mode m \<Rightarrow> J_Obj [(js ''kind'', J_Str (js ''mode'')), (js ''mode'', J_Str m)]
      | Sel_Preset i \<Rightarrow> J_Obj [(js ''kind'', J_Str (js ''preset'')), (js ''id'', J_Str i)])"

definition property :: "'n json \<Rightarrow> string \<Rightarrow> 'n json option" where
  "property v k = (case v of J_Obj ms \<Rightarrow> map_of ms (js k) | _ \<Rightarrow> None)"

definition safeParse :: "(jstr \<Rightarrow> 'n) \<Rightarrow> jstr option \<Rightarrow> 'n json" where
  "safeParse to_num raw =
     (case raw of
        None \<Rightarrow> J_Null
      | Some s \<Rightarrow> if s = [] then J_Null
                 else (case json_parse to_num s of Some v \<Rightarrow> v | None \<Rightarrow> J_Null))"

definition is_object :: "'n json \<Rightarrow> bool" where
  "is_object v = (case v of J_Obj ms \<Rightarrow> True | J_Arr vs \<Rightarrow> True | _ \<Rightarrow> False)"

definition is_mode :: "jstr \<Rightarrow> bool" where
  "is_mode m \<longleftrightarrow> m = js ''system'' \<or> m = js ''light'' \<or> m = js ''dark''"

definition isValidSelection :: "'n json \<Rightarrow> bool" where
  "isValidSelection v =
     (if \<not> is_object v then False
      else if property v ''kind'' = Some (J_Str (js ''mode'')) then
        (case property v ''mode'' of Some (J_Str m) \<Rightarrow> is_mode m | _ \<Rightarrow> False)
      else if property v ''kind'' = Some (J_Str (js ''preset'')) then
        (case property v ''id'' of Some (J_Str i) \<Rightarrow> i \<noteq> [] | _ \<Rightarrow> False)
      else False)"

text \<open>The stored object, read as a selection; other properties it may have are never looked at.\<close>

definition string_property :: "'n json \<Rightarrow> string \<Rightarrow> jstr" where
  "string_property v k = (case property v k of Some (J_Str s) \<Rightarrow> s | _ \<Rightarrow> [])"

definition as_selection :: "'n json \<Rightarrow> theme_selection" where
  "as_selection v =
     (if property v ''kind'' = Some (J_Str (js ''mode'')) then Sel_Mode (string_property v ''mode'')
      else Sel_Preset (string_property v ''id''))"

text \<open>\<open>localStorage\<close>, absent outside a browser.\<close>

type_synonym storage = "(jstr \<rightharpoonup> jstr) option"

definition loadSelection :: "(jstr \<Rightarrow> 'n) \<Rightarrow> storage \<Rightarrow> theme_selection" where
  "loadSelection to_num storage =
     (let parsed = safeParse to_num (case storage of None \<Rightarrow> None | Some m \<Rightarrow> m SELECTION_STORAGE_KEY)
      in if isValidSelection parsed then as_selection parsed else DEFAULT_SELECTION)"

definition saveSelection :: "('n \<Rightarrow> jstr option) \<Rightarrow> theme_selection \<Rightarrow> storage \<Rightarrow> storage" where
  "saveSelection of_num sel storage =
     map_option (\<lambda>m. m(SELECTION_STORAGE_KEY \<mapsto> json_stringify of_num 0 (selection_json sel))) storage"

section \<open>The scheme in force\<close>

text \<open>What \<open>matchMedia('(prefers-color-scheme: dark)')\<close> answers, none where it does not exist.\<close>

definition getSystemScheme :: "bool option \<Rightarrow> scheme" where
  "getSystemScheme prefers_dark = (if prefers_dark = Some True then dark else light)"

definition find_preset :: "preset list \<Rightarrow> jstr \<Rightarrow> preset option" where
  "find_preset presets i = find (\<lambda>p. p_id p = i) presets"

definition resolveScheme :: "theme_selection \<Rightarrow> scheme \<Rightarrow> preset list \<Rightarrow> scheme" where
  "resolveScheme sel systemScheme presets =
     (case sel of
        Sel_Mode m \<Rightarrow> if m = js ''system'' then systemScheme else m
      | Sel_Preset i \<Rightarrow>
          (case find_preset presets i of Some p \<Rightarrow> p_base p | None \<Rightarrow> systemScheme))"

section \<open>The provider\<close>

text \<open>The root element: its CSS variables and its \<open>data-theme\<close>.\<close>

record root_element =
  root_style :: "string \<rightharpoonup> jstr option"
  root_theme :: "jstr option"

record provider =
  tp_selection :: theme_selection
  tp_system :: scheme
  tp_storage :: storage
  tp_root :: root_element

definition activePreset :: "provider \<Rightarrow> preset option" where
  "activePreset s =
     (case tp_selection s of Sel_Mode _ \<Rightarrow> None | Sel_Preset i \<Rightarrow> find_preset PRESET_THEMES i)"

definition effectiveScheme :: "provider \<Rightarrow> scheme" where
  "effectiveScheme s = resolveScheme (tp_selection s) (tp_system s) PRESET_THEMES"

definition themeConfig :: "provider \<Rightarrow> theme_config" where
  "themeConfig s = buildThemeConfig (effectiveScheme s) (activePreset s)"

definition applyCssVars ::
  "(theme_config \<Rightarrow> string \<Rightarrow> jstr) \<Rightarrow> theme_config \<Rightarrow> scheme \<Rightarrow> preset option \<Rightarrow> root_element \<Rightarrow> root_element"
  where
  "applyCssVars getDesignToken config sc p el =
     el\<lparr>root_style := fold (\<lambda>(k, v) m. m(k \<mapsto> v)) (computeCssVars getDesignToken config sc p) (root_style el),
          root_theme := Some sc\<rparr>"

text \<open>A render runs the effect that mirrors the palette, when something it depends on changed.\<close>

definition render :: "(theme_config \<Rightarrow> string \<Rightarrow> jstr) \<Rightarrow> provider \<Rightarrow> provider" where
  "render getDesignToken s =
     s\<lparr>tp_root := applyCssVars getDesignToken (themeConfig s) (effectiveScheme s) (activePreset s) (tp_root s)\<rparr>"

definition mount_theme ::
  "(theme_config \<Rightarrow> string \<Rightarrow> jstr) \<Rightarrow> (jstr \<Rightarrow> 'n) \<Rightarrow> bool option \<Rightarrow> storage \<Rightarrow> provider" where
  "mount_theme getDesignToken to_num prefers_dark storage =
     render getDesignToken
       \<lparr>tp_selection = loadSelection to_num storage, tp_system = getSystemScheme prefers_dark,
        tp_storage = storage, tp_root = \<lparr>root_style = Map.empty, root_theme = None\<rparr>\<rparr>"

definition persistSelection :: "('n \<Rightarrow> jstr option) \<Rightarrow> theme_selection \<Rightarrow> provider \<Rightarrow> provider" where
  "persistSelection of_num next s =
     s\<lparr>tp_selection := next, tp_storage := saveSelection of_num next (tp_storage s)\<rparr>"

definition setMode :: "('n \<Rightarrow> jstr option) \<Rightarrow> jstr \<Rightarrow> provider \<Rightarrow> provider" where
  "setMode of_num m = persistSelection of_num (Sel_Mode m)"

definition selectPreset :: "('n \<Rightarrow> jstr option) \<Rightarrow> jstr \<Rightarrow> provider \<Rightarrow> provider" where
  "selectPreset of_num i = persistSelection of_num (Sel_Preset i)"

definition system_change :: "bool \<Rightarrow> provider \<Rightarrow> provider" where
  "system_change matches s = s\<lparr>tp_system := if matches then dark else light\<rparr>"

section \<open>The menu\<close>

definition activeKey :: "theme_selection \<Rightarrow> jstr" where
  "activeKey sel = (case sel of Sel_Mode m \<Rightarrow> js ''mode:'' @ m | Sel_Preset i \<Rightarrow> js ''preset:'' @ i)"

text \<open>An entry: its key, whether it is checked, and its label.\<close>

datatype menu_item = Menu_Item (item_key: jstr) (item_checked: bool) (item_label: jstr) | Divider

definition menu_items :: "(jstr \<Rightarrow> jstr) \<Rightarrow> theme_selection \<Rightarrow> preset list \<Rightarrow> menu_item list" where
  "menu_items t sel presets =
     (let check = (\<lambda>key. activeKey sel = key)
      in [Menu_Item (js ''mode:system'') (check (js ''mode:system'')) (t (js ''theme.system'')),
          Menu_Item (js ''mode:light'') (check (js ''mode:light'')) (t (js ''theme.light'')),
          Menu_Item (js ''mode:dark'') (check (js ''mode:dark'')) (t (js ''theme.dark''))]
         @ (if presets = [] then []
            else Divider # map (\<lambda>p. Menu_Item (js ''preset:'' @ p_id p) (check (js ''preset:'' @ p_id p)) (p_name p))
                             presets))"

definition menu_keys :: "menu_item list \<Rightarrow> jstr list" where
  "menu_keys items = concat (map (\<lambda>i. case i of Menu_Item k _ _ \<Rightarrow> [k] | Divider \<Rightarrow> []) items)"

definition menu_click :: "('n \<Rightarrow> jstr option) \<Rightarrow> jstr \<Rightarrow> provider \<Rightarrow> provider" where
  "menu_click of_num key s =
     (if starts_with key (js ''mode:'') then setMode of_num (drop 5 key) s
      else if starts_with key (js ''preset:'') then selectPreset of_num (drop 7 key) s
      else s)"

text \<open>What can happen: a change of the system's scheme, and a click on an entry of the menu.\<close>

inductive theme_step ::
  "(theme_config \<Rightarrow> string \<Rightarrow> jstr) \<Rightarrow> ('n \<Rightarrow> jstr option) \<Rightarrow> provider \<Rightarrow> provider \<Rightarrow> bool"
  for getDesignToken of_num where
  ts_system: "theme_step getDesignToken of_num s (render getDesignToken (system_change matches s))"
| ts_click: "key \<in> set (menu_keys (menu_items t (tp_selection s) PRESET_THEMES)) \<Longrightarrow>
    theme_step getDesignToken of_num s (render getDesignToken (menu_click of_num key s))"

inductive_cases theme_stepE: "theme_step g of_num s s'"

section \<open>Storing a selection\<close>

definition valid_selection :: "theme_selection \<Rightarrow> bool" where
  "valid_selection sel = (case sel of Sel_Mode m \<Rightarrow> is_mode m | Sel_Preset i \<Rightarrow> i \<noteq> [])"

text \<open>A selection has no numbers, so any printing of numbers does.\<close>

interpretation no_numbers: number_text "\<lambda>_. None"
  by unfold_locales simp

lemma key_facts:
  "\<not> is_index (js ''kind'')" "\<not> is_index (js ''mode'')" "\<not> is_index (js ''id'')"
  by code_simp+

lemma selection_wf: "json_wf ok (selection_json sel)"
  by (cases sel) (simp_all add: selection_json_def own_properties_def key_facts js_words del: js_Cons)

lemma selection_text:
  "json_stringify of_num 0 (selection_json sel) = json_stringify (\<lambda>_. None) 0 (selection_json sel)"
  by (cases sel) (simp_all add: selection_json_def json_stringify_def del: js_Cons)

lemma selection_parses:
  fixes to_num :: "jstr \<Rightarrow> 'n"
  shows "json_parse to_num (json_stringify of_num 0 (selection_json sel)) = Some (selection_json sel)"
proof -
  have "json_stringify of_num 0 (selection_json sel) = json_stringify (\<lambda>_::'n. None) 0 (selection_json sel)"
    by (rule selection_text)
  then show ?thesis by (simp only: no_numbers.stringify_parses [OF selection_wf])
qed

lemma selection_text_ne: "json_stringify of_num 0 (selection_json sel) \<noteq> []"
  by (cases sel) (simp_all add: selection_json_def json_stringify_def)

lemma selection_valid: "isValidSelection (selection_json sel) \<longleftrightarrow> valid_selection sel"
  by (cases sel) (simp_all add: selection_json_def isValidSelection_def valid_selection_def is_object_def
      property_def js_words del: js_Cons)

lemma as_selection_json: "as_selection (selection_json sel) = sel"
  by (cases sel) (simp_all add: selection_json_def as_selection_def string_property_def
      property_def js_words del: js_Cons)

lemma load_save:
  "valid_selection sel \<Longrightarrow> storage \<noteq> None \<Longrightarrow> loadSelection to_num (saveSelection of_num sel storage) = sel"
  by (auto simp: loadSelection_def saveSelection_def safeParse_def selection_parses selection_text_ne
      selection_valid as_selection_json)

lemma default_valid: "valid_selection DEFAULT_SELECTION"
  by (simp add: valid_selection_def DEFAULT_SELECTION_def)

lemma valid_as_selection: "isValidSelection v \<Longrightarrow> valid_selection (as_selection v)"
  by (auto simp: isValidSelection_def valid_selection_def as_selection_def string_property_def
      simp del: js_Cons split: if_splits option.splits json.splits)

lemma load_valid: "valid_selection (loadSelection to_num storage)"
  by (simp add: loadSelection_def Let_def default_valid valid_as_selection)

lemma stored_default: "loadSelection to_num None = DEFAULT_SELECTION"
  by (simp add: loadSelection_def safeParse_def isValidSelection_def is_object_def)

lemma distinct_filter_one: "distinct xs \<Longrightarrow> x \<in> set xs \<Longrightarrow> filter (\<lambda>y. x = y) xs = [x]"
  by (induction xs) (auto simp: filter_empty_conv)

section \<open>The menu and the keys\<close>

lemma starts_mode [simp]: "starts_with (js ''mode:'' @ m) (js ''mode:'')"
  "\<not> starts_with (js ''preset:'' @ i) (js ''mode:'')" "starts_with (js ''preset:'' @ i) (js ''preset:'')"
  by simp_all

lemma click_active:
  "menu_click of_num (activeKey sel) s = persistSelection of_num sel s"
  by (cases sel) (simp_all add: menu_click_def activeKey_def setMode_def selectPreset_def)

lemma menu_keys_selection:
  assumes "key \<in> set (menu_keys (menu_items t sel presets))" and "list_all (\<lambda>p. p_id p \<noteq> []) presets"
  obtains sel' where "key = activeKey sel'" and "valid_selection sel'"
proof -
  have "key \<in> {activeKey (Sel_Mode (js ''system'')), activeKey (Sel_Mode (js ''light'')),
      activeKey (Sel_Mode (js ''dark''))} \<or> (\<exists>p\<in>set presets. key = activeKey (Sel_Preset (p_id p)))"
    using assms(1) by (auto simp: menu_keys_def menu_items_def activeKey_def Let_def simp del: js_Cons split: if_splits) (simp_all add: js_def)
  then show thesis
    using that assms(2) by (auto simp: valid_selection_def is_mode_def list_all_iff simp del: js_Cons)
qed

section \<open>The root element\<close>

lemma fold_style: "fold (\<lambda>(k, v) m. m(k \<mapsto> v)) vs m = m ++ map_of (rev vs)"
  by (induction vs arbitrary: m) (auto simp: map_add_def fun_eq_iff split: option.split)

lemma applied:
  assumes "dom (root_style el) \<subseteq> set DbxCssVars"
  shows "root_style (applyCssVars g c sc p el) = map_of (computeCssVars g c sc p)"
    and "root_theme (applyCssVars g c sc p el) = Some sc"
proof -
  let ?vs = "computeCssVars g c sc p"
  have "distinct (map fst ?vs)" using names_distinct by (simp add: css_names)
  then have rev: "map_of (rev ?vs) = map_of ?vs"
    by (subst map_of_inject_set) (simp_all add: rev_map [symmetric])
  have dom: "dom (map_of ?vs) = set DbxCssVars" by (metis css_names dom_map_of_conv_image_fst set_map)
  have "root_style el ++ map_of ?vs = map_of ?vs"
  proof
    fix k show "(root_style el ++ map_of ?vs) k = map_of ?vs k"
    proof (cases "map_of ?vs k")
      case None
      then have "k \<notin> dom (root_style el)" using assms unfolding dom [symmetric] by blast
      then show ?thesis using None by (simp add: map_add_def domIff)
    qed (simp add: map_add_def)
  qed
  then show "root_style (applyCssVars g c sc p el) = map_of ?vs"
    by (simp add: applyCssVars_def fold_style rev)
qed (simp add: applyCssVars_def)

text \<open>
  A provider in order: a selection of the type's shape, one of the two schemes in force, the
  root element in step with them, and a storage that a reload would read the selection from.
\<close>

definition theme_ok :: "(theme_config \<Rightarrow> string \<Rightarrow> jstr) \<Rightarrow> (jstr \<Rightarrow> 'n) \<Rightarrow> provider \<Rightarrow> bool" where
  "theme_ok g to_num s \<longleftrightarrow>
     valid_selection (tp_selection s) \<and>
     tp_system s \<in> {light, dark} \<and> effectiveScheme s \<in> {light, dark} \<and>
     root_theme (tp_root s) = Some (effectiveScheme s) \<and>
     root_style (tp_root s) = map_of (computeCssVars g (themeConfig s) (effectiveScheme s) (activePreset s)) \<and>
     (tp_storage s \<noteq> None \<longrightarrow> loadSelection to_num (tp_storage s) = tp_selection s)"

lemma find_preset_base: "find_preset PRESET_THEMES i = Some p \<Longrightarrow> p_base p \<in> {light, dark}"
  using preset_facts unfolding find_preset_def list_all_iff find_Some_iff by (metis insertCI nth_mem)

lemma scheme_typed:
  "valid_selection sel \<Longrightarrow> sys \<in> {light, dark} \<Longrightarrow> resolveScheme sel sys PRESET_THEMES \<in> {light, dark}"
  using find_preset_base
  by (auto simp: resolveScheme_def valid_selection_def is_mode_def light_def dark_def
      simp del: js_Cons split: theme_selection.splits option.split)

lemma render_ok:
  assumes "valid_selection (tp_selection s)" and "tp_system s \<in> {light, dark}"
    and "tp_storage s \<noteq> None \<longrightarrow> loadSelection to_num (tp_storage s) = tp_selection s"
    and "dom (root_style (tp_root s)) \<subseteq> set DbxCssVars"
  shows "theme_ok g to_num (render g s)"
proof -
  have same: "tp_selection (render g s) = tp_selection s" "tp_system (render g s) = tp_system s"
    "tp_storage (render g s) = tp_storage s" "effectiveScheme (render g s) = effectiveScheme s"
    "activePreset (render g s) = activePreset s" "themeConfig (render g s) = themeConfig s"
    by (simp_all add: render_def effectiveScheme_def activePreset_def themeConfig_def)
  have root: "tp_root (render g s) = applyCssVars g (themeConfig s) (effectiveScheme s) (activePreset s) (tp_root s)"
    by (simp add: render_def)
  have "effectiveScheme s \<in> {light, dark}" unfolding effectiveScheme_def using assms(1,2) by (rule scheme_typed)
  then show ?thesis unfolding theme_ok_def same root applied [OF assms(4)] using assms(1-3) by simp
qed

lemma ok_dom: "theme_ok g to_num s \<Longrightarrow> dom (root_style (tp_root s)) \<subseteq> set DbxCssVars"
  unfolding theme_ok_def by (metis css_names dom_map_of_conv_image_fst set_map order_refl)

interpretation theming: transition_invariant "mount_theme g to_num prefers storage" "theme_step g of_num"
  "theme_ok g to_num"
proof
  show "theme_ok g to_num (mount_theme g to_num prefers storage)"
    unfolding mount_theme_def
    by (rule render_ok) (simp_all add: load_valid getSystemScheme_def)
next
  fix s s' assume step: "theme_step g of_num s s'" and ok: "theme_ok g to_num s"
  show "theme_ok g to_num s'"
  proof (cases rule: theme_stepE [OF step])
    case (1 matches)
    show ?thesis unfolding 1
      by (rule render_ok) (use ok ok_dom [OF ok] in \<open>auto simp: system_change_def theme_ok_def\<close>)
  next
    case (2 key t)
    have "list_all (\<lambda>p. p_id p \<noteq> []) PRESET_THEMES" using preset_facts by (auto simp: list_all_iff)
    then obtain sel where key: "key = activeKey sel" and sel: "valid_selection sel"
      using menu_keys_selection [OF 2(2)] by blast
    show ?thesis unfolding 2(1) key click_active
    proof (rule render_ok)
      show "tp_storage (persistSelection of_num sel s) \<noteq> None \<longrightarrow>
          loadSelection to_num (tp_storage (persistSelection of_num sel s)) = tp_selection (persistSelection of_num sel s)"
        using load_save [OF sel, of "tp_storage s" to_num of_num]
        by (simp add: persistSelection_def saveSelection_def)
    qed (use ok ok_dom [OF ok] sel in \<open>simp_all add: persistSelection_def theme_ok_def\<close>)
  qed
qed

section \<open>What the theme promises\<close>

text \<open>
  C37. Wherever the provider gets to, from whatever the storage held at the start: the selection
  is a well-formed one, the scheme in force is \<open>light\<close> or \<open>dark\<close> although the menu only casts
  its keys, the root element carries that scheme and the palette computed for the selection,
  each of its CSS variables with a value, and a reload finds the same selection.
\<close>

theorem theme_always_typed:
  assumes "reach (mount_theme g to_num prefers storage) (theme_step g of_num) s"
  shows "theme_ok g to_num s \<and>
    css_complete (computeCssVars g (themeConfig s) (effectiveScheme s) (activePreset s))"
proof -
  have ok: "theme_ok g to_num s" using assms by (rule theming.always)
  then have "effectiveScheme s = light \<or> effectiveScheme s = dark" by (simp add: theme_ok_def)
  then show ?thesis using ok vars_complete by blast
qed

definition night :: provider where
  "night = render (\<lambda>_ _. js ''#123456'') (menu_click int_literal (js ''mode:dark'')
     (mount_theme (\<lambda>_ _. js ''#123456'') read_int (Some False) (Some [SELECTION_STORAGE_KEY \<mapsto> js ''{not json''])))"

theorem theme_always_typed_witness:
  "theme_ok (\<lambda>_ _. js ''#123456'') read_int night \<and> effectiveScheme night = dark"
proof -
  let ?s = "mount_theme (\<lambda>_ _. js ''#123456'') read_int (Some False) (Some [SELECTION_STORAGE_KEY \<mapsto> js ''{not json''])"
  have "js ''mode:dark'' \<in> set (menu_keys (menu_items id (tp_selection ?s) PRESET_THEMES))"
    by (simp add: menu_keys_def menu_items_def Let_def del: js_Cons)
  then have "reach ?s (theme_step (\<lambda>_ _. js ''#123456'') int_literal) night"
    unfolding night_def by (intro reach_one ts_click)
  then have "theme_ok (\<lambda>_ _. js ''#123456'') read_int night"
    using theme_always_typed by blast
  moreover have "effectiveScheme night = dark"
    by (simp add: night_def render_def effectiveScheme_def menu_click_def setMode_def persistSelection_def
        resolveScheme_def dark_def)
  ultimately show ?thesis by blast
qed

text \<open>
  C39. A selection survives the storage: what was saved is what is loaded, through the JSON text
  and whatever characters a preset's id has; other keys of the storage stay as they were.
\<close>

theorem selection_survives_storage:
  assumes "valid_selection sel"
  shows "loadSelection to_num (saveSelection of_num sel (Some m)) = sel \<and>
    (k \<noteq> SELECTION_STORAGE_KEY \<longrightarrow> the (saveSelection of_num sel (Some m)) k = m k)"
  using load_save [OF assms, of "Some m" to_num of_num] by (simp add: saveSelection_def)

theorem selection_survives_storage_witness:
  "loadSelection read_int (saveSelection int_literal (Sel_Preset (js ''a\"b'' @ [55296])) (Some Map.empty))
   = Sel_Preset (js ''a\"b'' @ [55296])"
  using selection_survives_storage [of "Sel_Preset (js ''a\"b'' @ [55296])" read_int int_literal Map.empty]
  by (simp add: valid_selection_def)

text \<open>
  Nothing in the storage can break the start: with no storage, no entry, or one that is not
  JSON the default is selected; and any entry at all, whatever its shape, gives either the
  default or the selection that the entry spells, with a mode that exists or a non-empty id.
\<close>

theorem stored_junk_is_default:
  "valid_selection (loadSelection to_num storage) \<and>
   (case storage of
      None \<Rightarrow> loadSelection to_num storage = DEFAULT_SELECTION
    | Some m \<Rightarrow>
        (case m SELECTION_STORAGE_KEY of
           None \<Rightarrow> loadSelection to_num storage = DEFAULT_SELECTION
         | Some raw \<Rightarrow>
             (case json_parse to_num raw of
                None \<Rightarrow> loadSelection to_num storage = DEFAULT_SELECTION
              | Some v \<Rightarrow> loadSelection to_num storage =
                  (if isValidSelection v then as_selection v else DEFAULT_SELECTION))))"
proof -
  have null: "\<not> isValidSelection (J_Null :: 'a json)" by (simp add: isValidSelection_def is_object_def)
  have "json_parse to_num [] = None" by (simp add: json_parse_def skip_ws_def)
  then show ?thesis
    using null by (auto simp: load_valid) (auto simp: loadSelection_def safeParse_def Let_def split: option.split)
qed

definition checked_keys :: "menu_item list \<Rightarrow> jstr list" where
  "checked_keys items =
     concat (map (\<lambda>i. case i of Menu_Item k c _ \<Rightarrow> if c then [k] else [] | Divider \<Rightarrow> []) items)"

lemma checked_filter:
  "checked_keys (menu_items t sel presets) = filter (\<lambda>k. activeKey sel = k) (menu_keys (menu_items t sel' presets))"
proof -
  have "concat (map ((\<lambda>i. case i of Menu_Item k c _ \<Rightarrow> if c then [k] else [] | Divider \<Rightarrow> [])
      \<circ> (\<lambda>p. Menu_Item (h p) (a = h p) (p_name p))) ps) =
    filter (\<lambda>k. a = k) (concat (map ((\<lambda>i. case i of Menu_Item k _ _ \<Rightarrow> [k] | Divider \<Rightarrow> [])
      \<circ> (\<lambda>p. Menu_Item (h p) (b = h p) (p_name p))) ps))" for a b :: jstr and h and ps :: "preset list"
    by (induction ps) auto
  then show ?thesis by (simp add: checked_keys_def menu_keys_def menu_items_def Let_def del: js_Cons)
qed

lemma menu_distinct: "distinct (menu_keys (menu_items t sel PRESET_THEMES))"
proof -
  have keys: "menu_keys (menu_items t sel ps) = [js ''mode:system'', js ''mode:light'', js ''mode:dark'']
      @ map (\<lambda>p. js ''preset:'' @ p_id p) ps" for ps
    by (simp add: menu_keys_def menu_items_def Let_def comp_def del: js_Cons)
  have "distinct (map (\<lambda>p. js ''preset:'' @ p_id p) PRESET_THEMES)"
    using preset_facts by (simp add: distinct_map inj_on_def)
  then show ?thesis unfolding keys by (auto simp: js_words)
qed

text \<open>
  A click on an entry of the menu selects what the entry names: afterwards that entry, and
  no other, is checked, for the three modes and for each preset.
\<close>

theorem menu_click_checks:
  assumes "key \<in> set (menu_keys (menu_items t (tp_selection s) PRESET_THEMES))"
  shows "checked_keys (menu_items t (tp_selection (menu_click of_num key s)) PRESET_THEMES) = [key]"
proof -
  have "list_all (\<lambda>p. p_id p \<noteq> []) PRESET_THEMES" using preset_facts by (auto simp: list_all_iff)
  then obtain sel where key: "key = activeKey sel" using menu_keys_selection [OF assms] by blast
  have "checked_keys (menu_items t (tp_selection (menu_click of_num key s)) PRESET_THEMES)
      = filter (\<lambda>k. key = k) (menu_keys (menu_items t (tp_selection s) PRESET_THEMES))"
    unfolding key click_active checked_filter [where sel' = "tp_selection s"]
    by (simp add: persistSelection_def)
  also have "\<dots> = [key]"
    by (rule distinct_filter_one [OF menu_distinct assms])
  finally show ?thesis .
qed

theorem menu_click_checks_witness:
  "checked_keys (menu_items id (tp_selection (menu_click int_literal (js ''mode:light'') night)) PRESET_THEMES)
   = [js ''mode:light'']"
proof -
  have "js ''mode:light'' \<in> set (menu_keys (menu_items id (tp_selection night) PRESET_THEMES))"
    by (simp add: menu_keys_def menu_items_def Let_def del: js_Cons)
  then show ?thesis by (rule menu_click_checks)
qed

text \<open>
  While a preset is active its base is the scheme in force, its accent and radius are the
  tokens handed to AntD, and each surface it defines overrides the scheme's, which fills in
  only what the preset leaves out.
\<close>

theorem active_preset_in_force:
  assumes "activePreset s = Some p"
  shows "effectiveScheme s = p_base p \<and>
    map_of (tc_token (themeConfig s)) ''colorPrimary'' = Some (Some (Str_Value (p_primary p))) \<and>
    map_of (tc_token (themeConfig s)) ''borderRadius'' = Some (Some (Num_Value (p_radius p))) \<and>
    resolveSurfaces (effectiveScheme s) (activePreset s) k =
      (case map_of (case p_surfaces p of Some x \<Rightarrow> x | None \<Rightarrow> []) k of
         Some c \<Rightarrow> Some c
       | None \<Rightarrow> map_of (SURFACES (p_base p)) k)"
proof -
  obtain i where i: "tp_selection s = Sel_Preset i" "find_preset PRESET_THEMES i = Some p"
    using assms by (auto simp: activePreset_def split: theme_selection.splits)
  then have scheme: "effectiveScheme s = p_base p" by (simp add: effectiveScheme_def resolveScheme_def)
  show ?thesis unfolding scheme assms
    by (simp add: themeConfig_def assms buildThemeConfig_def Let_def resolveSurfaces_def map_add_def
        split: option.split)
qed

theorem active_preset_in_force_witness:
  "effectiveScheme (mount_theme (\<lambda>_ _. []) read_int None None) = light"
proof -
  let ?s = "mount_theme (\<lambda>_ _. []) read_int None None"
  have default: "find_preset PRESET_THEMES (js ''claude-light'') = Some (PRESET_THEMES ! 5)" and
    base: "p_base (PRESET_THEMES ! 5) = light"
    by (simp_all add: find_preset_def PRESET_THEMES_def js_inject del: js_Cons)
  have "tp_selection ?s = DEFAULT_SELECTION"
    using stored_default by (simp add: mount_theme_def render_def)
  then have "activePreset ?s = Some (PRESET_THEMES ! 5)"
    using default by (simp add: activePreset_def DEFAULT_SELECTION_def del: js_Cons)
  then show ?thesis using active_preset_in_force [of ?s] base by simp
qed

end
