(* ===== verification/I18n_Bundles.thy ===== *)
theory I18n_Bundles
  imports Prelude
begin

text \<open>
  The translation bundles of \<open>web/src/i18n\<close>: per section, the keys with their texts in the
  order of the files. A text is written as pieces: ASCII, or the code units of other characters
  (and of the apostrophe); \<open>units\<close> is the string it stands for.
\<close>

datatype piece = S string | U "int list"

type_synonym text_bundle = "(string \<times> (string \<times> piece list) list) list"

definition units :: "piece list \<Rightarrow> jstr" where
  "units ps = concat (map (\<lambda>p. case p of S s \<Rightarrow> js s | U us \<Rightarrow> map of_int us) ps)"

definition en_bundle :: text_bundle where
  "en_bundle =
    [(''common'',
       [(''appName'', [S ''Pier S3'']),
        (''nativeName'', [S ''English'']),
        (''size'', [S ''Size'']),
        (''name'', [S ''Name'']),
        (''lastModified'', [S ''Last modified'']),
        (''actions'', [S ''Actions'']),
        (''cancel'', [S ''Cancel'']),
        (''delete'', [S ''Delete'']),
        (''download'', [S ''Download'']),
        (''info'', [S ''Info'']),
        (''retry'', [S ''Retry'']),
        (''loadMore'', [S ''Load more'']),
        (''search'', [S ''Search by name...'']),
        (''empty'', [S ''Nothing here yet'']),
        (''downloadFile'', [S ''Download {{name}}'']),
        (''moreActions'', [S ''More actions for {{name}}'']),
        (''openFolder'', [S ''Open folder {{name}}'']),
        (''showInfo'', [S ''Show info for {{name}}'']),
        (''objects'', [S ''{{count}} objects'']),
        (''objects_one'', [S ''{{count}} object'']),
        (''objects_other'', [S ''{{count}} objects'']),
        (''dash'', [S ''-'']),
        (''language'', [S ''Language''])]),
     (''nav'',
       [(''buckets'', [S ''Buckets'']),
        (''allBuckets'', [S ''All buckets'']),
        (''menu'', [S ''Open menu'']),
        (''resize'', [S ''Resize sidebar''])]),
     (''theme'',
       [(''label'', [S ''Theme'']),
        (''system'', [S ''System'']),
        (''light'', [S ''Light'']),
        (''dark'', [S ''Dark''])]),
     (''auth'',
       [(''title'', [S ''Pier S3'']),
        (''subtitle'', [S ''Sign in to access your storage.'']),
        (''signIn'', [S ''Sign in with Keycloak'']),
        (''logout'', [S ''Log out''])]),
     (''buckets'',
       [(''title'', [S ''Buckets'']),
        (''readWrite'', [S ''R/W'']),
        (''read'', [S ''R'']),
        (''writeOnly'', [S ''W'']),
        (''access'', [S ''Access'']),
        (''quotaUsage'', [S ''{{used}} of {{quota}} used''])]),
     (''browser'',
       [(''upload'', [S ''Upload'']),
        (''dropHint'', [S ''Drag files here or click to select'']),
        (''dropSubHint'', [S ''Your files will be uploaded to this folder'']),
        (''deleteTitle'', [S ''Delete confirmation'']),
        (''deleteConfirm'', [S ''Delete file \"{{name}}\"?'']),
        (''searchTruncated'',
         [S ''Search covers only loaded objects. Click \"Load more\" to expand the selection.'']),
        (''emptyTitle'', [S ''This folder is empty'']),
        (''emptyHint'', [S ''Upload files to get started'']),
        (''writeOnlyTitle'', [S ''Upload-only bucket'']),
        (''writeOnlyHint'', [S ''You can upload files here,
         but listing and downloading are not permitted for your access level.''])]),
     (''meta'',
       [(''title'', [S ''Object metadata'']),
        (''key'', [S ''Key'']),
        (''contentType'', [S ''Content-Type'']),
        (''size'', [S ''Size'']),
        (''etag'', [S ''ETag'']),
        (''lastModified'', [S ''Last modified''])]),
     (''preview'',
       [(''title'', [S ''Preview'']),
        (''open'', [S ''Preview {{name}}'']),
        (''unsupported'', [S ''Preview is not available for this file type'']),
        (''tooLarge'', [S ''This file is too large to preview'']),
        (''downloadToView'', [S ''Download to view it'']),
        (''failed'', [S ''Failed to load preview'']),
        (''modeRendered'', [S ''Rendered'']),
        (''modeSource'', [S ''Source'']),
        (''modeTable'', [S ''Table'']),
        (''modeFormatted'', [S ''Formatted'']),
        (''tableTruncated'', [S ''Large file: the table preview is truncated''])]),
     (''messages'',
       [(''uploaded'', [S ''{{name}} uploaded'']),
        (''deleted'', [S ''File deleted''])]),
     (''errors'',
       [(''generic'', [S ''Error'']),
        (''loadBuckets'', [S ''Failed to load buckets'']),
        (''loadObjects'', [S ''Failed to load objects'']),
        (''loadMore'', [S ''Failed to load more'']),
        (''loadMeta'', [S ''Failed to load metadata'']),
        (''deleteFailed'', [S ''Failed to delete'']),
        (''downloadFailed'', [S ''Failed to download'']),
        (''uploadFailed'', [S ''Failed to upload {{name}}'']),
        (''forbidden'', [S ''You do not have permission for this operation''])])]"

definition ru_bundle :: text_bundle where
  "ru_bundle =
    [(''common'',
       [(''appName'', [S ''Pier S3'']),
        (''nativeName'', [U [1056, 1091, 1089, 1089, 1082, 1080, 1081]]),
        (''size'', [U [1056, 1072, 1079, 1084, 1077, 1088]]),
        (''name'', [U [1048, 1084, 1103]]),
        (''lastModified'', [U [1048, 1079, 1084, 1077, 1085, 1105, 1085]]),
        (''actions'', [U [1044, 1077, 1081, 1089, 1090, 1074, 1080, 1103]]),
        (''cancel'', [U [1054, 1090, 1084, 1077, 1085, 1072]]),
        (''delete'', [U [1059, 1076, 1072, 1083, 1080, 1090, 1100]]),
        (''download'', [U [1057, 1082, 1072, 1095, 1072, 1090, 1100]]),
        (''info'', [U [1052, 1077, 1090, 1072, 1076, 1072, 1085, 1085, 1099, 1077]]),
        (''retry'', [U [1055, 1086, 1074, 1090, 1086, 1088, 1080, 1090, 1100]]),
        (''loadMore'', [U [1047, 1072, 1075, 1088, 1091, 1079, 1080, 1090, 1100, 32, 1077, 1097,
         1105]]),
        (''search'', [U [1055, 1086, 1080, 1089, 1082, 32, 1087, 1086, 32, 1080, 1084, 1077, 1085,
         1080, 46, 46, 46]]),
        (''empty'', [U [1047, 1076, 1077, 1089, 1100, 32, 1087, 1086, 1082, 1072, 32, 1085, 1080,
         1095, 1077, 1075, 1086, 32, 1085, 1077, 1090]]),
        (''downloadFile'', [U [1057, 1082, 1072, 1095, 1072, 1090, 1100, 32], S ''{{name}}'']),
        (''moreActions'', [U [1044, 1088, 1091, 1075, 1080, 1077, 32, 1076, 1077, 1081, 1089,
         1090, 1074, 1080, 1103, 32, 1076, 1083, 1103, 32], S ''{{name}}'']),
        (''openFolder'', [U [1054, 1090, 1082, 1088, 1099, 1090, 1100, 32, 1087, 1072, 1087, 1082,
         1091, 32], S ''{{name}}'']),
        (''showInfo'', [U [1055, 1086, 1082, 1072, 1079, 1072, 1090, 1100, 32, 1089, 1074, 1077,
         1076, 1077, 1085, 1080, 1103, 32, 1086, 32], S ''{{name}}'']),
        (''objects'', [S ''{{count}}'', U [32, 1086, 1073, 1098, 1077, 1082, 1090, 1086, 1074]]),
        (''objects_one'', [S ''{{count}}'', U [32, 1086, 1073, 1098, 1077, 1082, 1090]]),
        (''objects_few'', [S ''{{count}}'', U [32, 1086, 1073, 1098, 1077, 1082, 1090, 1072]]),
        (''objects_many'', [S ''{{count}}'', U [32, 1086, 1073, 1098, 1077, 1082, 1090, 1086,
         1074]]),
        (''dash'', [S ''-'']),
        (''language'', [U [1071, 1079, 1099, 1082]])]),
     (''nav'',
       [(''buckets'', [U [1041, 1072, 1082, 1077, 1090, 1099]]),
        (''allBuckets'', [U [1042, 1089, 1077, 32, 1073, 1072, 1082, 1077, 1090, 1099]]),
        (''menu'', [U [1054, 1090, 1082, 1088, 1099, 1090, 1100, 32, 1084, 1077, 1085, 1102]]),
        (''resize'', [U [1048, 1079, 1084, 1077, 1085, 1080, 1090, 1100, 32, 1096, 1080, 1088,
         1080, 1085, 1091, 32, 1073, 1086, 1082, 1086, 1074, 1086, 1081, 32, 1087, 1072, 1085,
         1077, 1083, 1080]])]),
     (''theme'',
       [(''label'', [U [1058, 1077, 1084, 1072]]),
        (''system'', [U [1057, 1080, 1089, 1090, 1077, 1084, 1085, 1072, 1103]]),
        (''light'', [U [1057, 1074, 1077, 1090, 1083, 1072, 1103]]),
        (''dark'', [U [1058, 1105, 1084, 1085, 1072, 1103]])]),
     (''auth'',
       [(''title'', [S ''Pier S3'']),
        (''subtitle'', [U [1042, 1086, 1081, 1076, 1080, 1090, 1077, 32, 1076, 1083, 1103, 32,
         1076, 1086, 1089, 1090, 1091, 1087, 1072, 32, 1082, 32, 1093, 1088, 1072, 1085, 1080,
         1083, 1080, 1097, 1091, 46]]),
        (''signIn'', [U [1042, 1086, 1081, 1090, 1080, 32, 1095, 1077, 1088, 1077, 1079, 32, 75,
         101, 121, 99, 108, 111, 97, 107]]),
        (''logout'', [U [1042, 1099, 1081, 1090, 1080]])]),
     (''buckets'',
       [(''title'', [U [1044, 1086, 1089, 1090, 1091, 1087, 1085, 1099, 1077, 32, 1073, 1072,
         1082, 1077, 1090, 1099]]),
        (''readWrite'', [S ''R/W'']),
        (''read'', [S ''R'']),
        (''writeOnly'', [S ''W'']),
        (''access'', [U [1044, 1086, 1089, 1090, 1091, 1087]]),
        (''quotaUsage'', [U [1047, 1072, 1085, 1103, 1090, 1086], S '' {{used}} '', U [1080,
         1079], S '' {{quota}}''])]),
     (''browser'',
       [(''upload'', [U [1047, 1072, 1075, 1088, 1091, 1079, 1080, 1090, 1100]]),
        (''dropHint'', [U [1055, 1077, 1088, 1077, 1090, 1072, 1097, 1080, 1090, 1077, 32, 1092,
         1072, 1081, 1083, 1099, 32, 1080, 1083, 1080, 32, 1085, 1072, 1078, 1084, 1080, 1090,
         1077, 32, 1076, 1083, 1103, 32, 1074, 1099, 1073, 1086, 1088, 1072]]),
        (''dropSubHint'', [U [1060, 1072, 1081, 1083, 1099, 32, 1073, 1091, 1076, 1091, 1090, 32,
         1079, 1072, 1075, 1088, 1091, 1078, 1077, 1085, 1099, 32, 1074, 32, 1090, 1077, 1082,
         1091, 1097, 1091, 1102, 32, 1087, 1072, 1087, 1082, 1091]]),
        (''deleteTitle'', [U [1055, 1086, 1076, 1090, 1074, 1077, 1088, 1078, 1076, 1077, 1085,
         1080, 1077, 32, 1091, 1076, 1072, 1083, 1077, 1085, 1080, 1103]]),
        (''deleteConfirm'', [U [1059, 1076, 1072, 1083, 1080, 1090, 1100, 32, 1092, 1072, 1081,
         1083, 32, 171], S ''{{name}}'', U [187, 63]]),
        (''searchTruncated'', [U [1055, 1086, 1080, 1089, 1082, 32, 1086, 1093, 1074, 1072, 1090,
         1099, 1074, 1072, 1077, 1090, 32, 1090, 1086, 1083, 1100, 1082, 1086, 32, 1079, 1072,
         1075, 1088, 1091, 1078, 1077, 1085, 1085, 1099, 1077, 32, 1086, 1073, 1098, 1077, 1082,
         1090, 1099, 46, 32, 1053, 1072, 1078, 1084, 1080, 1090, 1077, 32, 171, 1047, 1072, 1075,
         1088, 1091, 1079, 1080, 1090, 1100, 32, 1077, 1097, 1105, 187, 44, 32, 1095, 1090, 1086,
         1073, 1099, 32, 1088, 1072, 1089, 1096, 1080, 1088, 1080, 1090, 1100, 32, 1074, 1099,
         1073, 1086, 1088, 1082, 1091, 46]]),
        (''emptyTitle'', [U [1069, 1090, 1072, 32, 1087, 1072, 1087, 1082, 1072, 32, 1087, 1091,
         1089, 1090, 1072]]),
        (''emptyHint'', [U [1047, 1072, 1075, 1088, 1091, 1079, 1080, 1090, 1077, 32, 1092, 1072,
         1081, 1083, 1099, 44, 32, 1095, 1090, 1086, 1073, 1099, 32, 1085, 1072, 1095, 1072, 1090,
         1100]]),
        (''writeOnlyTitle'', [U [1041, 1072, 1082, 1077, 1090, 32, 1090, 1086, 1083, 1100, 1082,
         1086, 32, 1076, 1083, 1103, 32, 1079, 1072, 1075, 1088, 1091, 1079, 1082, 1080]]),
        (''writeOnlyHint'', [U [1057, 1102, 1076, 1072, 32, 1084, 1086, 1078, 1085, 1086, 32,
         1079, 1072, 1075, 1088, 1091, 1078, 1072, 1090, 1100, 32, 1092, 1072, 1081, 1083, 1099,
         44, 32, 1085, 1086, 32, 1087, 1088, 1086, 1089, 1084, 1086, 1090, 1088, 32, 1080, 32,
         1089, 1082, 1072, 1095, 1080, 1074, 1072, 1085, 1080, 1077, 32, 1085, 1077, 1076, 1086,
         1089, 1090, 1091, 1087, 1085, 1099, 32, 1076, 1083, 1103, 32, 1074, 1072, 1096, 1077,
         1075, 1086, 32, 1091, 1088, 1086, 1074, 1085, 1103, 32, 1076, 1086, 1089, 1090, 1091,
         1087, 1072, 46]])]),
     (''meta'',
       [(''title'', [U [1052, 1077, 1090, 1072, 1076, 1072, 1085, 1085, 1099, 1077, 32, 1086,
         1073, 1098, 1077, 1082, 1090, 1072]]),
        (''key'', [U [1050, 1083, 1102, 1095]]),
        (''contentType'', [S ''Content-Type'']),
        (''size'', [U [1056, 1072, 1079, 1084, 1077, 1088]]),
        (''etag'', [S ''ETag'']),
        (''lastModified'', [U [1055, 1086, 1089, 1083, 1077, 1076, 1085, 1077, 1077, 32, 1080,
         1079, 1084, 1077, 1085, 1077, 1085, 1080, 1077]])]),
     (''preview'',
       [(''title'', [U [1055, 1088, 1086, 1089, 1084, 1086, 1090, 1088]]),
        (''open'', [U [1055, 1088, 1086, 1089, 1084, 1086, 1090, 1088, 32], S ''{{name}}'']),
        (''unsupported'', [U [1055, 1088, 1086, 1089, 1084, 1086, 1090, 1088, 32, 1085, 1077,
         1076, 1086, 1089, 1090, 1091, 1087, 1077, 1085, 32, 1076, 1083, 1103, 32, 1101, 1090,
         1086, 1075, 1086, 32, 1090, 1080, 1087, 1072, 32, 1092, 1072, 1081, 1083, 1072]]),
        (''tooLarge'', [U [1060, 1072, 1081, 1083, 32, 1089, 1083, 1080, 1096, 1082, 1086, 1084,
         32, 1073, 1086, 1083, 1100, 1096, 1086, 1081, 32, 1076, 1083, 1103, 32, 1087, 1088, 1086,
         1089, 1084, 1086, 1090, 1088, 1072]]),
        (''downloadToView'', [U [1057, 1082, 1072, 1095, 1072, 1081, 1090, 1077, 44, 32, 1095,
         1090, 1086, 1073, 1099, 32, 1086, 1090, 1082, 1088, 1099, 1090, 1100]]),
        (''failed'', [U [1053, 1077, 32, 1091, 1076, 1072, 1083, 1086, 1089, 1100, 32, 1079, 1072,
         1075, 1088, 1091, 1079, 1080, 1090, 1100, 32, 1087, 1088, 1086, 1089, 1084, 1086, 1090,
         1088]]),
        (''modeRendered'', [U [1056, 1077, 1085, 1076, 1077, 1088]]),
        (''modeSource'', [U [1048, 1089, 1093, 1086, 1076, 1085, 1080, 1082]]),
        (''modeTable'', [U [1058, 1072, 1073, 1083, 1080, 1094, 1072]]),
        (''modeFormatted'', [U [1060, 1086, 1088, 1084, 1072, 1090, 1080, 1088, 1086, 1074, 1072,
         1085, 1085, 1099, 1081]]),
        (''tableTruncated'', [U [1041, 1086, 1083, 1100, 1096, 1086, 1081, 32, 1092, 1072, 1081,
         1083, 58, 32, 1090, 1072, 1073, 1083, 1080, 1094, 1072, 32, 1074, 32, 1087, 1088, 1086,
         1089, 1084, 1086, 1090, 1088, 1077, 32, 1086, 1073, 1088, 1077, 1079, 1072, 1085, 1072]])]),
     (''messages'',
       [(''uploaded'', [S ''{{name}}'', U [32, 1079, 1072, 1075, 1088, 1091, 1078, 1077, 1085]]),
        (''deleted'', [U [1060, 1072, 1081, 1083, 32, 1091, 1076, 1072, 1083, 1105, 1085]])]),
     (''errors'',
       [(''generic'', [U [1054, 1096, 1080, 1073, 1082, 1072]]),
        (''loadBuckets'', [U [1053, 1077, 32, 1091, 1076, 1072, 1083, 1086, 1089, 1100, 32, 1079,
         1072, 1075, 1088, 1091, 1079, 1080, 1090, 1100, 32, 1073, 1072, 1082, 1077, 1090, 1099]]),
        (''loadObjects'', [U [1053, 1077, 32, 1091, 1076, 1072, 1083, 1086, 1089, 1100, 32, 1079,
         1072, 1075, 1088, 1091, 1079, 1080, 1090, 1100, 32, 1086, 1073, 1098, 1077, 1082, 1090,
         1099]]),
        (''loadMore'', [U [1053, 1077, 32, 1091, 1076, 1072, 1083, 1086, 1089, 1100, 32, 1079,
         1072, 1075, 1088, 1091, 1079, 1080, 1090, 1100, 32, 1077, 1097, 1105]]),
        (''loadMeta'', [U [1053, 1077, 32, 1091, 1076, 1072, 1083, 1086, 1089, 1100, 32, 1079,
         1072, 1075, 1088, 1091, 1079, 1080, 1090, 1100, 32, 1084, 1077, 1090, 1072, 1076, 1072,
         1085, 1085, 1099, 1077]]),
        (''deleteFailed'', [U [1054, 1096, 1080, 1073, 1082, 1072, 32, 1091, 1076, 1072, 1083,
         1077, 1085, 1080, 1103]]),
        (''downloadFailed'', [U [1054, 1096, 1080, 1073, 1082, 1072, 32, 1089, 1082, 1072, 1095,
         1080, 1074, 1072, 1085, 1080, 1103]]),
        (''uploadFailed'', [U [1054, 1096, 1080, 1073, 1082, 1072, 32, 1079, 1072, 1075, 1088,
         1091, 1079, 1082, 1080, 32], S ''{{name}}'']),
        (''forbidden'', [U [1053, 1077, 1090, 32, 1087, 1088, 1072, 1074, 32, 1085, 1072, 32,
         1101, 1090, 1091, 32, 1086, 1087, 1077, 1088, 1072, 1094, 1080, 1102]])])]"

definition es_bundle :: text_bundle where
  "es_bundle =
    [(''common'',
       [(''appName'', [S ''Pier S3'']),
        (''nativeName'', [S ''Espa'', U [241], S ''ol'']),
        (''size'', [S ''Tama'', U [241], S ''o'']),
        (''name'', [S ''Nombre'']),
        (''lastModified'', [U [218], S ''ltima modificaci'', U [243], S ''n'']),
        (''actions'', [S ''Acciones'']),
        (''cancel'', [S ''Cancelar'']),
        (''delete'', [S ''Eliminar'']),
        (''download'', [S ''Descargar'']),
        (''info'', [S ''Informaci'', U [243], S ''n'']),
        (''retry'', [S ''Reintentar'']),
        (''loadMore'', [S ''Cargar m'', U [225], S ''s'']),
        (''search'', [S ''Buscar por nombre...'']),
        (''empty'', [S ''A'', U [250], S ''n no hay nada aqu'', U [237]]),
        (''downloadFile'', [S ''Descargar {{name}}'']),
        (''moreActions'', [S ''M'', U [225], S ''s acciones para {{name}}'']),
        (''openFolder'', [S ''Abrir carpeta {{name}}'']),
        (''showInfo'', [S ''Mostrar informaci'', U [243], S ''n de {{name}}'']),
        (''objects'', [S ''{{count}} objetos'']),
        (''objects_one'', [S ''{{count}} objeto'']),
        (''objects_other'', [S ''{{count}} objetos'']),
        (''dash'', [S ''-'']),
        (''language'', [S ''Idioma''])]),
     (''nav'',
       [(''buckets'', [S ''Buckets'']),
        (''allBuckets'', [S ''Todos los buckets'']),
        (''menu'', [S ''Abrir men'', U [250]]),
        (''resize'', [S ''Redimensionar la barra lateral''])]),
     (''theme'',
       [(''label'', [S ''Tema'']),
        (''system'', [S ''Sistema'']),
        (''light'', [S ''Claro'']),
        (''dark'', [S ''Oscuro''])]),
     (''auth'',
       [(''title'', [S ''Pier S3'']),
        (''subtitle'', [S ''Inicia sesi'', U [243], S ''n para acceder a tu almacenamiento.'']),
        (''signIn'', [S ''Iniciar sesi'', U [243], S ''n con Keycloak'']),
        (''logout'', [S ''Cerrar sesi'', U [243], S ''n''])]),
     (''buckets'',
       [(''title'', [S ''Buckets'']),
        (''readWrite'', [S ''R/W'']),
        (''read'', [S ''R'']),
        (''writeOnly'', [S ''W'']),
        (''access'', [S ''Acceso'']),
        (''quotaUsage'', [S ''{{used}} de {{quota}} usados''])]),
     (''browser'',
       [(''upload'', [S ''Subir'']),
        (''dropHint'', [S ''Arrastra archivos aqu'', U [237], S '' o haz clic para seleccionar'']),
        (''dropSubHint'', [S ''Tus archivos se subir'', U [225], S ''n a esta carpeta'']),
        (''deleteTitle'', [S ''Confirmar eliminaci'', U [243], S ''n'']),
        (''deleteConfirm'', [U [191], S ''Eliminar el archivo \"{{name}}\"?'']),
        (''searchTruncated'', [S ''La b'', U [250],
         S ''squeda solo cubre los objetos cargados. Haz clic en \"Cargar m'', U [225],
         S ''s\" para ampliar la selecci'', U [243], S ''n.'']),
        (''emptyTitle'', [S ''Esta carpeta est'', U [225], S '' vac'', U [237], S ''a'']),
        (''emptyHint'', [S ''Sube archivos para empezar'']),
        (''writeOnlyTitle'', [S ''Bucket solo de subida'']),
        (''writeOnlyHint'', [S ''Aqu'', U [237], S '' puedes subir archivos,
         pero listar y descargar no est'', U [225], S '' permitido para tu nivel de acceso.''])]),
     (''meta'',
       [(''title'', [S ''Metadatos del objeto'']),
        (''key'', [S ''Clave'']),
        (''contentType'', [S ''Content-Type'']),
        (''size'', [S ''Tama'', U [241], S ''o'']),
        (''etag'', [S ''ETag'']),
        (''lastModified'', [U [218], S ''ltima modificaci'', U [243], S ''n''])]),
     (''preview'',
       [(''title'', [S ''Vista previa'']),
        (''open'', [S ''Vista previa de {{name}}'']),
        (''unsupported'', [S ''La vista previa no est'', U [225],
         S '' disponible para este tipo de archivo'']),
        (''tooLarge'', [S ''El archivo es demasiado grande para la vista previa'']),
        (''downloadToView'', [S ''Desc'', U [225], S ''rgalo para verlo'']),
        (''failed'', [S ''No se pudo cargar la vista previa'']),
        (''modeRendered'', [S ''Renderizado'']),
        (''modeSource'', [S ''C'', U [243], S ''digo fuente'']),
        (''modeTable'', [S ''Tabla'']),
        (''modeFormatted'', [S ''Formateado'']),
        (''tableTruncated'', [S ''Archivo grande: la tabla de vista previa est'', U [225],
         S '' recortada''])]),
     (''messages'',
       [(''uploaded'', [S ''{{name}} subido'']),
        (''deleted'', [S ''Archivo eliminado''])]),
     (''errors'',
       [(''generic'', [S ''Error'']),
        (''loadBuckets'', [S ''No se pudieron cargar los buckets'']),
        (''loadObjects'', [S ''No se pudieron cargar los objetos'']),
        (''loadMore'', [S ''No se pudo cargar m'', U [225], S ''s'']),
        (''loadMeta'', [S ''No se pudieron cargar los metadatos'']),
        (''deleteFailed'', [S ''No se pudo eliminar'']),
        (''downloadFailed'', [S ''No se pudo descargar'']),
        (''uploadFailed'', [S ''No se pudo subir {{name}}'']),
        (''forbidden'', [S ''No tienes permiso para esta operaci'', U [243], S ''n''])])]"

definition it_bundle :: text_bundle where
  "it_bundle =
    [(''common'',
       [(''appName'', [S ''Pier S3'']),
        (''nativeName'', [S ''Italiano'']),
        (''size'', [S ''Dimensione'']),
        (''name'', [S ''Nome'']),
        (''lastModified'', [S ''Ultima modifica'']),
        (''actions'', [S ''Azioni'']),
        (''cancel'', [S ''Annulla'']),
        (''delete'', [S ''Elimina'']),
        (''download'', [S ''Scarica'']),
        (''info'', [S ''Informazioni'']),
        (''retry'', [S ''Riprova'']),
        (''loadMore'', [S ''Carica altro'']),
        (''search'', [S ''Cerca per nome...'']),
        (''empty'', [S ''Ancora niente qui'']),
        (''downloadFile'', [S ''Scarica {{name}}'']),
        (''moreActions'', [S ''Altre azioni per {{name}}'']),
        (''openFolder'', [S ''Apri la cartella {{name}}'']),
        (''showInfo'', [S ''Mostra informazioni su {{name}}'']),
        (''objects'', [S ''{{count}} oggetti'']),
        (''objects_one'', [S ''{{count}} oggetto'']),
        (''objects_other'', [S ''{{count}} oggetti'']),
        (''dash'', [S ''-'']),
        (''language'', [S ''Lingua''])]),
     (''nav'',
       [(''buckets'', [S ''Bucket'']),
        (''allBuckets'', [S ''Tutti i bucket'']),
        (''menu'', [S ''Apri menu'']),
        (''resize'', [S ''Ridimensiona la barra laterale''])]),
     (''theme'',
       [(''label'', [S ''Tema'']),
        (''system'', [S ''Sistema'']),
        (''light'', [S ''Chiaro'']),
        (''dark'', [S ''Scuro''])]),
     (''auth'',
       [(''title'', [S ''Pier S3'']),
        (''subtitle'', [S ''Accedi per usare il tuo archivio.'']),
        (''signIn'', [S ''Accedi con Keycloak'']),
        (''logout'', [S ''Esci''])]),
     (''buckets'',
       [(''title'', [S ''Bucket'']),
        (''readWrite'', [S ''R/W'']),
        (''read'', [S ''R'']),
        (''writeOnly'', [S ''W'']),
        (''access'', [S ''Accesso'']),
        (''quotaUsage'', [S ''{{used}} di {{quota}} in uso''])]),
     (''browser'',
       [(''upload'', [S ''Carica'']),
        (''dropHint'', [S ''Trascina i file qui o fai clic per selezionare'']),
        (''dropSubHint'', [S ''I tuoi file verranno caricati in questa cartella'']),
        (''deleteTitle'', [S ''Conferma eliminazione'']),
        (''deleteConfirm'', [S ''Eliminare il file \"{{name}}\"?'']),
        (''searchTruncated'',
         [S ''La ricerca copre solo gli oggetti caricati. Fai clic su \"Carica altro\" per ampliare la selezione.'']),
        (''emptyTitle'', [S ''Questa cartella '', U [232], S '' vuota'']),
        (''emptyHint'', [S ''Carica dei file per iniziare'']),
        (''writeOnlyTitle'', [S ''Bucket solo di caricamento'']),
        (''writeOnlyHint'', [S ''Qui puoi caricare file, ma l'', U [39],
         S ''elenco e il download non sono consentiti per il tuo livello di accesso.''])]),
     (''meta'',
       [(''title'', [S ''Metadati dell'', U [39], S ''oggetto'']),
        (''key'', [S ''Chiave'']),
        (''contentType'', [S ''Content-Type'']),
        (''size'', [S ''Dimensione'']),
        (''etag'', [S ''ETag'']),
        (''lastModified'', [S ''Ultima modifica''])]),
     (''preview'',
       [(''title'', [S ''Anteprima'']),
        (''open'', [S ''Anteprima di {{name}}'']),
        (''unsupported'', [S ''L'', U [39], S ''anteprima non '', U [232],
         S '' disponibile per questo tipo di file'']),
        (''tooLarge'', [S ''Il file '', U [232], S '' troppo grande per l'', U [39],
         S ''anteprima'']),
        (''downloadToView'', [S ''Scaricalo per visualizzarlo'']),
        (''failed'', [S ''Impossibile caricare l'', U [39], S ''anteprima'']),
        (''modeRendered'', [S ''Renderizzato'']),
        (''modeSource'', [S ''Sorgente'']),
        (''modeTable'', [S ''Tabella'']),
        (''modeFormatted'', [S ''Formattato'']),
        (''tableTruncated'', [S ''File di grandi dimensioni: la tabella in anteprima '', U [232],
         S '' troncata''])]),
     (''messages'',
       [(''uploaded'', [S ''{{name}} caricato'']),
        (''deleted'', [S ''File eliminato''])]),
     (''errors'',
       [(''generic'', [S ''Errore'']),
        (''loadBuckets'', [S ''Impossibile caricare i bucket'']),
        (''loadObjects'', [S ''Impossibile caricare gli oggetti'']),
        (''loadMore'', [S ''Impossibile caricare altro'']),
        (''loadMeta'', [S ''Impossibile caricare i metadati'']),
        (''deleteFailed'', [S ''Impossibile eliminare'']),
        (''downloadFailed'', [S ''Impossibile scaricare'']),
        (''uploadFailed'', [S ''Impossibile caricare {{name}}'']),
        (''forbidden'', [S ''Non hai i permessi per questa operazione''])])]"

definition fr_bundle :: text_bundle where
  "fr_bundle =
    [(''common'',
       [(''appName'', [S ''Pier S3'']),
        (''nativeName'', [S ''Fran'', U [231], S ''ais'']),
        (''size'', [S ''Taille'']),
        (''name'', [S ''Nom'']),
        (''lastModified'', [S ''Derni'', U [232], S ''re modification'']),
        (''actions'', [S ''Actions'']),
        (''cancel'', [S ''Annuler'']),
        (''delete'', [S ''Supprimer'']),
        (''download'', [S ''T'', U [233], S ''l'', U [233], S ''charger'']),
        (''info'', [S ''Informations'']),
        (''retry'', [S ''R'', U [233], S ''essayer'']),
        (''loadMore'', [S ''Charger plus'']),
        (''search'', [S ''Rechercher par nom...'']),
        (''empty'', [S ''Rien ici pour l'', U [39], S ''instant'']),
        (''downloadFile'', [S ''T'', U [233], S ''l'', U [233], S ''charger {{name}}'']),
        (''moreActions'', [S ''Plus d'', U [39], S ''actions pour {{name}}'']),
        (''openFolder'', [S ''Ouvrir le dossier {{name}}'']),
        (''showInfo'', [S ''Afficher les informations de {{name}}'']),
        (''objects'', [S ''{{count}} objets'']),
        (''objects_one'', [S ''{{count}} objet'']),
        (''objects_other'', [S ''{{count}} objets'']),
        (''dash'', [S ''-'']),
        (''language'', [S ''Langue''])]),
     (''nav'',
       [(''buckets'', [S ''Buckets'']),
        (''allBuckets'', [S ''Tous les buckets'']),
        (''menu'', [S ''Ouvrir le menu'']),
        (''resize'', [S ''Redimensionner la barre lat'', U [233], S ''rale''])]),
     (''theme'',
       [(''label'', [S ''Th'', U [232], S ''me'']),
        (''system'', [S ''Syst'', U [232], S ''me'']),
        (''light'', [S ''Clair'']),
        (''dark'', [S ''Sombre''])]),
     (''auth'',
       [(''title'', [S ''Pier S3'']),
        (''subtitle'', [S ''Connectez-vous pour acc'', U [233], S ''der '', U [224],
         S '' votre stockage.'']),
        (''signIn'', [S ''Se connecter avec Keycloak'']),
        (''logout'', [S ''Se d'', U [233], S ''connecter''])]),
     (''buckets'',
       [(''title'', [S ''Buckets'']),
        (''readWrite'', [S ''R/W'']),
        (''read'', [S ''R'']),
        (''writeOnly'', [S ''W'']),
        (''access'', [S ''Acc'', U [232], S ''s'']),
        (''quotaUsage'', [S ''{{used}} sur {{quota}} utilis'', U [233], S ''s''])]),
     (''browser'',
       [(''upload'', [S ''Importer'']),
        (''dropHint'', [S ''Glissez des fichiers ici ou cliquez pour s'', U [233],
         S ''lectionner'']),
        (''dropSubHint'', [S ''Vos fichiers seront import'', U [233], S ''s dans ce dossier'']),
        (''deleteTitle'', [S ''Confirmation de suppression'']),
        (''deleteConfirm'', [S ''Supprimer le fichier '', U [171], S '' {{name}} '', U [187],
         S '' ?'']),
        (''searchTruncated'', [S ''La recherche ne couvre que les objets charg'', U [233],
         S ''s. Cliquez sur '', U [171], S '' Charger plus '', U [187], S '' pour '', U [233],
         S ''largir la s'', U [233], S ''lection.'']),
        (''emptyTitle'', [S ''Ce dossier est vide'']),
        (''emptyHint'', [S ''Importez des fichiers pour commencer'']),
        (''writeOnlyTitle'', [S ''Bucket en envoi seul'']),
        (''writeOnlyHint'', [S ''Vous pouvez importer des fichiers ici, mais le listage et le t'',
         U [233], S ''l'', U [233], S ''chargement ne sont pas autoris'', U [233],
         S ''s pour votre niveau d'', U [39], S ''acc'', U [232], S ''s.''])]),
     (''meta'',
       [(''title'', [S ''M'', U [233], S ''tadonn'', U [233], S ''es de l'', U [39], S ''objet'']),
        (''key'', [S ''Cl'', U [233]]),
        (''contentType'', [S ''Content-Type'']),
        (''size'', [S ''Taille'']),
        (''etag'', [S ''ETag'']),
        (''lastModified'', [S ''Derni'', U [232], S ''re modification''])]),
     (''preview'',
       [(''title'', [S ''Aper'', U [231], S ''u'']),
        (''open'', [S ''Aper'', U [231], S ''u de {{name}}'']),
        (''unsupported'', [S ''L'', U [39], S ''aper'', U [231], S ''u n'', U [39],
         S ''est pas disponible pour ce type de fichier'']),
        (''tooLarge'', [S ''Le fichier est trop volumineux pour l'', U [39], S ''aper'', U [231],
         S ''u'']),
        (''downloadToView'', [S ''T'', U [233], S ''l'', U [233],
         S ''chargez-le pour le consulter'']),
        (''failed'', [U [201], S ''chec du chargement de l'', U [39], S ''aper'', U [231],
         S ''u'']),
        (''modeRendered'', [S ''Rendu'']),
        (''modeSource'', [S ''Source'']),
        (''modeTable'', [S ''Tableau'']),
        (''modeFormatted'', [S ''Format'', U [233]]),
        (''tableTruncated'', [S ''Fichier volumineux : le tableau de l'', U [39], S ''aper'',
         U [231], S ''u est tronqu'', U [233]])]),
     (''messages'',
       [(''uploaded'', [S ''{{name}} import'', U [233]]),
        (''deleted'', [S ''Fichier supprim'', U [233]])]),
     (''errors'',
       [(''generic'', [S ''Erreur'']),
        (''loadBuckets'', [U [201], S ''chec du chargement des buckets'']),
        (''loadObjects'', [U [201], S ''chec du chargement des objets'']),
        (''loadMore'', [U [201], S ''chec du chargement suppl'', U [233], S ''mentaire'']),
        (''loadMeta'', [U [201], S ''chec du chargement des m'', U [233], S ''tadonn'', U [233],
         S ''es'']),
        (''deleteFailed'', [U [201], S ''chec de la suppression'']),
        (''downloadFailed'', [U [201], S ''chec du t'', U [233], S ''l'', U [233],
         S ''chargement'']),
        (''uploadFailed'', [U [201], S ''chec de l'', U [39], S ''import de {{name}}'']),
        (''forbidden'', [S ''Vous n'', U [39], S ''avez pas l'', U [39],
         S ''autorisation pour cette op'', U [233], S ''ration''])])]"

end
