(* ===== verification/I18n.thy ===== *)
theory I18n
  imports I18n_Bundles
begin

text \<open>
  \<open>web/src/i18n/index.ts\<close> and \<open>LanguageSwitcher.tsx\<close>: the registry of languages and what is
  derived from it. The lookup of a key for the detected language is i18next's; here a key names
  a text of a bundle by its section and name.
\<close>

section \<open>The registry\<close>

record language_def =
  lang_code :: jstr
  lang_label :: jstr
  lang_bundle :: text_bundle

definition message :: "text_bundle \<Rightarrow> string \<Rightarrow> string \<Rightarrow> jstr option" where
  "message b sec k = (case map_of b sec of None \<Rightarrow> None | Some kvs \<Rightarrow> map_option units (map_of kvs k))"

definition endonym :: "text_bundle \<Rightarrow> jstr" where
  "endonym b = (case message b ''common'' ''nativeName'' of Some n \<Rightarrow> n | None \<Rightarrow> [])"

definition REGISTRY :: "(jstr \<times> text_bundle) list" where
  "REGISTRY =
     [(js ''en'', en_bundle), (js ''ru'', ru_bundle), (js ''es'', es_bundle), (js ''it'', it_bundle),
      (js ''fr'', fr_bundle)]"

definition LANGUAGES :: "language_def list" where
  "LANGUAGES = map (\<lambda>(code, b). \<lparr>lang_code = code, lang_label = endonym b, lang_bundle = b\<rparr>) REGISTRY"

definition SUPPORTED_LANGUAGES :: "jstr list" where
  "SUPPORTED_LANGUAGES = map lang_code LANGUAGES"

definition LANGUAGE_OPTIONS :: "(jstr \<times> jstr) list" where
  "LANGUAGE_OPTIONS = map (\<lambda>l. (lang_code l, lang_label l)) LANGUAGES"

definition resources :: "jstr \<rightharpoonup> text_bundle" where
  "resources = map_of (map (\<lambda>l. (lang_code l, lang_bundle l)) LANGUAGES)"

text \<open>The options that i18next is started with.\<close>

record i18n_options =
  fallbackLng :: jstr
  supportedLngs :: "jstr list"
  nonExplicitSupportedLngs :: bool
  escapeValue :: bool
  detection_order :: "jstr list"
  lookupLocalStorage :: jstr
  detection_caches :: "jstr list"

definition init_options :: i18n_options where
  "init_options =
     \<lparr>fallbackLng = js ''en'', supportedLngs = SUPPORTED_LANGUAGES, nonExplicitSupportedLngs = True,
      escapeValue = False, detection_order = [js ''localStorage'', js ''navigator''],
      lookupLocalStorage = js ''lang'', detection_caches = [js ''localStorage'']\<rparr>"

text \<open>The language the switcher shows for the one i18next resolved.\<close>

definition current_language :: "jstr option \<Rightarrow> jstr" where
  "current_language resolvedLanguage =
     (let resolved = (case resolvedLanguage of Some l \<Rightarrow> l | None \<Rightarrow> [])
      in if resolved \<in> set SUPPORTED_LANGUAGES then resolved else js ''en'')"

section \<open>Complete bundles\<close>

text \<open>The names interpolated into a text: \<open>{{name}}\<close>.\<close>

fun placeholders :: "jstr \<Rightarrow> jstr list" where
  "placeholders [] = []"
| "placeholders (c # cs) =
     (if c = 123 \<and> take 1 cs = [123] then takeWhile (\<lambda>d. d \<noteq> 125) (drop 1 cs) # placeholders cs
      else placeholders cs)"

text \<open>The plural forms of \<open>objects\<close>, which differ from language to language.\<close>

definition plural_forms :: "string list" where
  "plural_forms = [''objects_one'', ''objects_few'', ''objects_many'', ''objects_other'']"

definition covers :: "text_bundle \<Rightarrow> text_bundle \<Rightarrow> bool" where
  "covers a b \<longleftrightarrow>
     list_all (\<lambda>(sec, kvs). list_all (\<lambda>(k, s).
       k \<in> set plural_forms \<or>
       (case message b sec k of
          Some s' \<Rightarrow> s' \<noteq> [] \<and> placeholders s' = placeholders (units s)
        | None \<Rightarrow> False)) kvs) a"

text \<open>The same on the pieces, where each placeholder lies within one piece.\<close>

fun string_placeholders :: "string \<Rightarrow> string list" where
  "string_placeholders [] = []"
| "string_placeholders (c # cs) =
     (if c = CHR 0x7B \<and> take 1 cs = [CHR 0x7B]
      then takeWhile (\<lambda>d. d \<noteq> CHR 0x7D) (drop 1 cs) # string_placeholders cs
      else string_placeholders cs)"

text \<open>Closed: the last character opens nothing, and what a \<open>{{\<close> opens is closed in the piece.\<close>

fun closed :: "string \<Rightarrow> bool" where
  "closed [] = True"
| "closed (c # cs) =
     ((c = CHR 0x7B \<longrightarrow> cs \<noteq> [] \<and> (take 1 cs = [CHR 0x7B] \<longrightarrow> CHR 0x7D \<in> set cs)) \<and> closed cs)"

fun piece_placeholders :: "piece \<Rightarrow> string list" where
  "piece_placeholders (S s) = string_placeholders s"
| "piece_placeholders (U us) = []"

fun piece_closed :: "piece \<Rightarrow> bool" where
  "piece_closed (S s) = closed s"
| "piece_closed (U us) = list_all (\<lambda>u. 0 \<le> u \<and> u < 65536 \<and> u \<noteq> 123) us"

definition entry_covered :: "text_bundle \<Rightarrow> string \<Rightarrow> string \<Rightarrow> piece list \<Rightarrow> bool" where
  "entry_covered b sec k s =
     (if k \<in> set plural_forms then True
      else
        (case map_of b sec of
           Some kvs' \<Rightarrow>
             (case map_of kvs' k of
                Some s' \<Rightarrow> list_all piece_closed s \<and> list_all piece_closed s' \<and> s' \<noteq> [] \<and>
                  (case hd s' of S x \<Rightarrow> x \<noteq> [] | U us \<Rightarrow> us \<noteq> []) \<and>
                  concat (map piece_placeholders s') = concat (map piece_placeholders s)
              | None \<Rightarrow> False)
         | None \<Rightarrow> False))"

definition covers_pieces :: "text_bundle \<Rightarrow> text_bundle \<Rightarrow> bool" where
  "covers_pieces a b \<longleftrightarrow>
     list_all (\<lambda>(sec, kvs). list_all (\<lambda>(k, s). entry_covered b sec k s) kvs) a"

lemma unit_open: "(of_char c :: jchar) = 123 \<longleftrightarrow> c = CHR 0x7B" "(of_char c :: jchar) = 125 \<longleftrightarrow> c = CHR 0x7D"
  using of_char_jchar_eq [of c "CHR 0x7B"] of_char_jchar_eq [of c "CHR 0x7D"] by simp_all

lemma take_open: "cs \<noteq> [] \<Longrightarrow> take 1 (js cs @ t) = [123] \<longleftrightarrow> take 1 cs = [CHR 0x7B]"
  by (cases cs) (simp_all add: unit_open)

lemma take_name:
  "CHR 0x7D \<in> set cs \<Longrightarrow> takeWhile (\<lambda>d. d \<noteq> 125) (js cs @ t) = js (takeWhile (\<lambda>d. d \<noteq> CHR 0x7D) cs)"
  by (induction cs) (auto simp: unit_open)

lemma placeholders_string:
  "closed s \<Longrightarrow> placeholders (js s @ t) = map js (string_placeholders s) @ placeholders t"
proof (induction s)
  case (Cons c cs)
  show ?case
  proof (cases "c = CHR 0x7B \<and> take 1 cs = [CHR 0x7B]")
    case True
    then obtain ds where ds: "cs = CHR 0x7B # ds" "CHR 0x7D \<in> set ds" using Cons(2) by (cases cs) auto
    then show ?thesis using True Cons take_name [OF ds(2), of t] by (simp add: unit_open)
  next
    case False
    then have "\<not> ((of_char c :: jchar) = 123 \<and> take 1 (js cs @ t) = [123])"
      using take_open [of cs t] Cons(2) by (auto simp: unit_open)
    then show ?thesis using False Cons by (simp add: unit_open)
  qed
qed simp

lemma placeholders_units_skip:
  "list_all (\<lambda>u. 0 \<le> u \<and> u < 65536 \<and> u \<noteq> 123) us \<Longrightarrow>
     placeholders (map of_int us @ t) = placeholders t"
proof (induction us)
  case (Cons u us)
  have "(of_int u :: jchar) \<noteq> 123"
  proof
    assume eq: "(of_int u :: jchar) = 123"
    have "uint (of_int u :: jchar) = u" using Cons(2) by (simp add: uint_word_of_int take_bit_eq_mod)
    then show False using Cons(2) eq by simp
  qed
  then show ?case using Cons by simp
qed simp

lemma placeholders_pieces:
  "list_all piece_closed ps \<Longrightarrow>
     placeholders (units ps) = map js (concat (map piece_placeholders ps))"
proof (induction ps)
  case (Cons p ps)
  then show ?case
    by (cases p) (simp_all add: units_def placeholders_string placeholders_units_skip)
qed (simp add: units_def)

lemma units_ne: "ps \<noteq> [] \<Longrightarrow> (case hd ps of S x \<Rightarrow> x \<noteq> [] | U us \<Rightarrow> us \<noteq> []) \<Longrightarrow> units ps \<noteq> []"
  by (cases ps) (auto simp: units_def js_def split: piece.splits)

lemma entry_covered_message:
  "entry_covered b sec k s \<Longrightarrow> k \<in> set plural_forms \<or>
     (case message b sec k of
        Some s' \<Rightarrow> s' \<noteq> [] \<and> placeholders s' = placeholders (units s)
      | None \<Rightarrow> False)"
  by (auto simp: entry_covered_def message_def placeholders_pieces units_ne
      split: option.splits if_splits)

lemma covers_pieces_covers: "covers_pieces a b \<Longrightarrow> covers a b"
  unfolding covers_pieces_def covers_def list_all_iff using entry_covered_message by blast

text \<open>The bundles, one by one.\<close>

lemma en_covers: "covers_pieces en_bundle en_bundle" by code_simp

lemma ru_covers: "covers_pieces en_bundle ru_bundle" by code_simp

lemma es_covers: "covers_pieces en_bundle es_bundle" by code_simp

lemma it_covers: "covers_pieces en_bundle it_bundle" by code_simp

lemma fr_covers: "covers_pieces en_bundle fr_bundle" by code_simp

lemmas bundles_cover = en_covers ru_covers es_covers it_covers fr_covers

section \<open>What the localisation promises\<close>

text \<open>
  Every language of the registry is complete: for each text of the English bundle, except
  the plural forms that depend on the language, its bundle has a non-empty text with the same
  interpolated names in the same order, so no view shows a key or drops a value; and its own
  name is there for the switcher.
\<close>

theorem languages_complete:
  "list_all (\<lambda>l. covers en_bundle (lang_bundle l) \<and> lang_label l \<noteq> []) LANGUAGES"
proof -
  have covered: "list_all (\<lambda>(code, b). covers en_bundle b) REGISTRY"
    using bundles_cover [THEN covers_pieces_covers] by (simp add: REGISTRY_def)
  have "list_ex (\<lambda>(sec, kvs). sec = ''common'' \<and> list_ex (\<lambda>(k, s). k = ''nativeName'') kvs) en_bundle"
    by code_simp
  then have "endonym b \<noteq> []" if "covers en_bundle b" for b
    using that by (force simp: covers_def list_all_iff list_ex_iff endonym_def plural_forms_def split: option.splits)
  then show ?thesis using covered by (auto simp: LANGUAGES_def list_all_iff)
qed

text \<open>
  The language switcher always shows one of the languages on offer: the one i18next
  resolved if it is in the registry, English otherwise; the codes are distinct, each is
  registered with its bundle, and the fallback of i18next is one of them.
\<close>

theorem current_language_offered:
  "current_language r \<in> set (map fst LANGUAGE_OPTIONS) \<and> distinct (map fst LANGUAGE_OPTIONS) \<and>
   (case r of
      Some l \<Rightarrow> current_language r = (if l \<in> set SUPPORTED_LANGUAGES then l else js ''en'')
    | None \<Rightarrow> current_language r = js ''en'') \<and>
   resources (current_language r) \<noteq> None \<and> fallbackLng init_options \<in> set (supportedLngs init_options)"
proof -
  have codes: "SUPPORTED_LANGUAGES = map js [''en'', ''ru'', ''es'', ''it'', ''fr'']"
    and options: "map fst LANGUAGE_OPTIONS = SUPPORTED_LANGUAGES"
    by (simp_all add: SUPPORTED_LANGUAGES_def LANGUAGE_OPTIONS_def LANGUAGES_def REGISTRY_def del: js_Cons)
  have "current_language r \<in> set SUPPORTED_LANGUAGES"
    by (auto simp: current_language_def codes Let_def simp del: js_Cons)
  moreover have "resources l \<noteq> None" if "l \<in> set SUPPORTED_LANGUAGES" for l
    using that by (auto simp: resources_def map_of_eq_None_iff SUPPORTED_LANGUAGES_def image_iff)
  moreover have "distinct SUPPORTED_LANGUAGES" by (simp add: codes js_inject del: js_Cons)
  moreover have "[] \<notin> set SUPPORTED_LANGUAGES" by (simp add: codes)
  moreover have "fallbackLng init_options \<in> set (supportedLngs init_options)"
    by (simp add: init_options_def codes del: js_Cons)
  ultimately show ?thesis
    unfolding options by (auto simp: current_language_def split: option.split)
qed

end
