(* ===== verification/Gateway_Routes.thy ===== *)
theory Gateway_Routes
  imports Api_Client
begin

text \<open>
  From a path the client built to the names the gateway's handlers work on: the routes of
  \<open>RegisterRoutes\<close> (\<open>internal/webui/api.go\<close>), the request multiplexer of Go 1.22 that serves
  them (it redirects to the cleaned path, then matches segments and decodes the wildcards), the
  helpers that read the wildcards, and a browser that resolves a path and follows redirects.
\<close>

section \<open>Cleaning a path\<close>

text \<open>
  \<open>path.Clean\<close> on a rooted path, on its segments: empty segments and \<open>.\<close> are dropped, \<open>..\<close>
  removes the segment before it. \<open>cleanPath\<close> of the multiplexer puts a trailing slash back.
\<close>

fun clean_segments :: "jstr list \<Rightarrow> jstr list \<Rightarrow> jstr list" where
  "clean_segments kept [] = rev kept"
| "clean_segments kept (s # ss) =
     (if s = [] \<or> s = js ''.'' then clean_segments kept ss
      else if s = js ''..'' then clean_segments (tl kept) ss
      else clean_segments (s # kept) ss)"

definition clean_path :: "jstr \<Rightarrow> jstr" where
  "clean_path p =
     (if p = [] then [slash]
      else
        (let q = (if hd p = slash then p else slash # p);
             np = slash # join_with slash (clean_segments [] (split_on slash q))
         in if last q = slash \<and> np \<noteq> [slash] then np @ [slash] else np))"

section \<open>Routes\<close>

text \<open>
  Any other method by its name. (For \<open>CONNECT\<close> the multiplexer does not clean the path; browsers do
  not send it to a path, and no policy grants it.)
\<close>

datatype http_method = GET | HEAD | PUT | POST | DELETE | OPTIONS | Other_Method "byte list"

datatype route =
  Auth_Login | Auth_Callback | Auth_Me | Auth_Logout | List_Buckets | Bucket_Stats
| Get_Object_Meta | Get_Object | Put_Object | Delete_Object | List_Objects

text \<open>A literal segment, \<open>{name}\<close>, and \<open>{name...}\<close>.\<close>

datatype segment = Lit string | One string | Rest string

definition api_routes :: "(http_method \<times> segment list \<times> route) list" where
  "api_routes =
     (let api = (\<lambda>ps. Lit ''api'' # Lit ''v1'' # ps)
      in [(GET, api [Lit ''auth'', Lit ''login''], Auth_Login),
          (GET, api [Lit ''auth'', Lit ''callback''], Auth_Callback),
          (GET, api [Lit ''auth'', Lit ''me''], Auth_Me),
          (POST, api [Lit ''auth'', Lit ''logout''], Auth_Logout),
          (GET, api [Lit ''buckets''], List_Buckets),
          (GET, api [Lit ''buckets'', One ''bucket'', Lit ''stats''], Bucket_Stats),
          (GET, api [Lit ''buckets'', One ''bucket'', Lit ''meta'', Rest ''key''], Get_Object_Meta),
          (GET, api [Lit ''buckets'', One ''bucket'', Lit ''objects'', Rest ''key''], Get_Object),
          (PUT, api [Lit ''buckets'', One ''bucket'', Lit ''objects'', Rest ''key''], Put_Object),
          (DELETE, api [Lit ''buckets'', One ''bucket'', Lit ''objects'', Rest ''key''], Delete_Object),
          (GET, api [Lit ''buckets'', One ''bucket'', Lit ''objects''], List_Objects)])"

text \<open>A pattern for \<open>GET\<close> serves \<open>HEAD\<close> too.\<close>

definition allows :: "http_method \<Rightarrow> http_method \<Rightarrow> bool" where
  "allows pat m \<longleftrightarrow> pat = m \<or> pat = GET \<and> m = HEAD"

text \<open>
  Segments are compared and bound after decoding; a single wildcard does not match the empty
  segment after a trailing slash, a final one takes the decoded remainder, slashes included.
\<close>

type_synonym path_values = "(string \<times> byte list) list"

fun match_pattern :: "segment list \<Rightarrow> jstr list \<Rightarrow> path_values option" where
  "match_pattern [] [] = Some []"
| "match_pattern [Rest n] (s # ss) =
     map_option (\<lambda>v. [(n, v)]) (percent_decode (join_with slash (s # ss)))"
| "match_pattern (Lit l # ps) (s # ss) =
     (if percent_decode s = Some (bytes l) then match_pattern ps ss else None)"
| "match_pattern (One n # ps) (s # ss) =
     (if s = [] then None
      else case percent_decode s of
             None \<Rightarrow> None
           | Some v \<Rightarrow> map_option ((#) (n, v)) (match_pattern ps ss))"
| "match_pattern _ _ = None"

fun first_match ::
  "(http_method \<times> segment list \<times> route) list \<Rightarrow> http_method \<Rightarrow> jstr list \<Rightarrow> (route \<times> path_values) option" where
  "first_match [] m ss = None"
| "first_match ((pat, ps, r) # rs) m ss =
     (if allows pat m then
        (case match_pattern ps ss of
           Some vs \<Rightarrow> Some (r, vs)
         | None \<Rightarrow> first_match rs m ss)
      else first_match rs m ss)"

definition find_route :: "http_method \<Rightarrow> jstr \<Rightarrow> (route \<times> path_values) option" where
  "find_route m p = first_match api_routes m (split_on slash (tl p))"

text \<open>
  What the multiplexer answers: 400 for a path that does not decode, a redirect to the path with
  a slash added when only that one is registered, a redirect to the cleaned path when the path is
  not clean, otherwise the handler of the route, or the static files behind \<open>/\<close>.
\<close>

datatype mux_reply =
  Malformed | Add_Slash | Moved jstr | Static_Files | Handler route path_values

definition wants_slash :: "http_method \<Rightarrow> jstr \<Rightarrow> bool" where
  "wants_slash m p \<longleftrightarrow> last p \<noteq> slash \<and> find_route m p = None \<and>
     (case find_route m (p @ [slash]) of
        Some (r, vs) \<Rightarrow> vs \<noteq> [] \<and> snd (last vs) = []
      | None \<Rightarrow> False)"

definition mux_serve :: "http_method \<Rightarrow> jstr \<Rightarrow> mux_reply" where
  "mux_serve m p =
     (if percent_decode p = None then Malformed
      else
        (let q = clean_path p
         in if wants_slash m q then Add_Slash
            else if q \<noteq> p then Moved q
            else case find_route m q of
                   Some (r, vs) \<Rightarrow> Handler r vs
                 | None \<Rightarrow> Static_Files))"

section \<open>What the handlers read\<close>

definition PathValue :: "path_values \<Rightarrow> string \<Rightarrow> byte list" where
  "PathValue vs n = (case map_of vs n of Some v \<Rightarrow> v | None \<Rightarrow> [])"

fun split_bytes :: "byte \<Rightarrow> byte list \<Rightarrow> byte list list" where
  "split_bytes c [] = [[]]"
| "split_bytes c (x # xs) =
     (if x = c then [] # split_bytes c xs
      else (case split_bytes c xs of [] \<Rightarrow> [[x]] | p # ps \<Rightarrow> (x # p) # ps))"

fun segment_after :: "byte list \<Rightarrow> byte list list \<Rightarrow> byte list" where
  "segment_after s (p # q # ps) = (if p = s then q else segment_after s (q # ps))"
| "segment_after s _ = []"

definition extractPathParam :: "byte list \<Rightarrow> byte list \<Rightarrow> byte list" where
  "extractPathParam path segment =
     segment_after segment
       (split_bytes 47 (rev (dropWhile (\<lambda>c. c = 47) (rev (dropWhile (\<lambda>c. c = 47) path)))))"

definition bucketFromRequest :: "path_values \<Rightarrow> byte list \<Rightarrow> byte list" where
  "bucketFromRequest vs path =
     (let b = PathValue vs ''bucket'' in if b \<noteq> [] then b else extractPathParam path (bytes ''buckets''))"

definition bucketAndKeyFromRequest :: "path_values \<Rightarrow> byte list \<Rightarrow> byte list \<times> byte list" where
  "bucketAndKeyFromRequest vs path =
     (let bucket = PathValue vs ''bucket''; key = PathValue vs ''key''
      in if bucket \<noteq> [] \<and> key \<noteq> [] then (bucket, key) else extractBucketAndKey path)"

definition bucketAndKeyMetaFromRequest :: "path_values \<Rightarrow> byte list \<Rightarrow> byte list \<times> byte list" where
  "bucketAndKeyMetaFromRequest vs path =
     (let bucket = PathValue vs ''bucket''; key = PathValue vs ''key''
      in if bucket \<noteq> [] \<and> key \<noteq> [] then (bucket, key) else extractBucketAndKeyMeta path)"

text \<open>
  A browser resolves the path, sends it, and follows up to twenty redirects with the same method
  (a \<open>301\<close> changes the method of a \<open>POST\<close> only, which is not sent to these routes). How the
  server prints a location, \<open>URL.String\<close>, is the parameter \<open>loc\<close>.
\<close>

primrec browse ::
  "(jstr \<Rightarrow> jstr) \<Rightarrow> nat \<Rightarrow> http_method \<Rightarrow> jstr \<Rightarrow> (jstr \<times> mux_reply) option" where
  "browse loc 0 m p = None"
| "browse loc (Suc n) m p =
     (let q = resolve_path p
      in case mux_serve m q of
           Moved c \<Rightarrow> browse loc n m (loc c)
         | reply \<Rightarrow> Some (q, reply))"

text \<open>The handler a request ends at, with the bucket and the key it works on.\<close>

definition gateway_object ::
  "(jstr \<Rightarrow> jstr) \<Rightarrow> http_method \<Rightarrow> jstr \<Rightarrow> (route \<times> byte list \<times> byte list) option" where
  "gateway_object loc m p =
     (case browse loc 21 m p of
        Some (q, Handler r vs) \<Rightarrow>
          map_option (\<lambda>path. (r, if r = Get_Object_Meta then bucketAndKeyMetaFromRequest vs path
                                 else bucketAndKeyFromRequest vs path)) (percent_decode q)
      | _ \<Rightarrow> None)"


section \<open>Cleaning the paths of objects\<close>

text \<open>A list of segments without the empty ones, except the last, and a key treated so.\<close>

definition squeeze :: "jstr list \<Rightarrow> jstr list" where
  "squeeze ss = filter (\<lambda>s. s \<noteq> []) (butlast ss) @ [last ss]"

definition squeeze_key :: "jstr \<Rightarrow> jstr" where
  "squeeze_key k = join_with slash (squeeze (split_on slash k))"

lemma clean_segments_no_dots:
  "\<forall>s\<in>set ss. \<not> dot_name s \<Longrightarrow> clean_segments kept ss = rev kept @ filter (\<lambda>s. s \<noteq> []) ss"
  by (induction kept ss rule: clean_segments.induct) (auto simp: dot_name_def)

lemma last_join_with:
  "ss \<noteq> [] \<Longrightarrow> last (c # join_with c ss) = (if last ss = [] then c else last (last ss))"
  by (induction c ss rule: join_with.induct) auto

lemma join_with_snoc_Nil: "ss \<noteq> [] \<Longrightarrow> join_with c (ss @ [[]]) = join_with c ss @ [c]"
  by (induction c ss rule: join_with.induct) auto

lemma join_with_eq_Nil: "join_with c ss = [] \<Longrightarrow> ss \<noteq> [] \<Longrightarrow> ss = [[]]"
  by (induction c ss rule: join_with.induct) auto

lemma squeeze_Cons: "ss \<noteq> [] \<Longrightarrow> squeeze (s # ss) = (if s = [] then squeeze ss else s # squeeze ss)"
  by (simp add: squeeze_def)

lemma squeeze_id: "ss \<noteq> [] \<Longrightarrow> \<forall>s\<in>set (butlast ss). s \<noteq> [] \<Longrightarrow> squeeze ss = ss"
  by (simp add: squeeze_def filter_id_conv)

lemma squeeze_map: 
  "ss \<noteq> [] \<Longrightarrow> \<forall>s\<in>set ss. f s = Some [] \<longleftrightarrow> s = [] \<Longrightarrow> map f ss = map Some ts \<Longrightarrow>
   map f (squeeze ss) = map Some (squeeze ts)"
proof (induction ss arbitrary: ts)
  case (Cons s ss)
  then obtain t us where ts: "ts = t # us" "f s = Some t" "map f ss = map Some us" by auto
  show ?case
  proof (cases "ss = []")
    case True
    then show ?thesis using ts by (simp add: squeeze_def)
  next
    case False
    then have "us \<noteq> []" using ts(3) by auto
    then show ?thesis
      using Cons.IH [OF False _ ts(3)] Cons.prems(2) ts False by (auto simp: squeeze_Cons)
  qed
qed simp

lemma clean_path_joined:
  assumes "ss \<noteq> []" and "\<forall>s\<in>set ss. slash \<notin> set s \<and> \<not> dot_name s" and "hd ss \<noteq> []" and "tl ss \<noteq> []"
  shows "clean_path (slash # join_with slash ss) = slash # join_with slash (squeeze ss)"
proof -
  let ?f = "filter (\<lambda>s. s \<noteq> [])"
  have segs: "split_on slash (slash # join_with slash ss) = [] # ss"
    using split_join [OF assms(1), of slash] assms(2) by simp
  have clean: "clean_segments [] ([] # ss) = ?f ss"
    using assms(2) by (simp add: clean_segments_no_dots)
  obtain x y ys where ss: "ss = x # y # ys" "x \<noteq> []"
    using assms(1,3,4) by (cases ss; cases "tl ss") auto
  have ne: "?f (butlast ss) \<noteq> []" using ss by simp
  have split: "?f ss = ?f (butlast ss) @ (if last ss = [] then [] else [last ss])"
    using append_butlast_last_id [OF assms(1)] filter_append [of "\<lambda>s. s \<noteq> []" "butlast ss" "[last ss]"]
    by (simp split: if_splits)
  have not_root: "slash # join_with slash (?f ss) \<noteq> [slash]"
  proof
    assume "slash # join_with slash (?f ss) = [slash]"
    then have "join_with slash (?f ss) = []" by simp
    moreover have "?f ss \<noteq> []" using ss by simp
    ultimately have "?f ss = [[]]" by (rule join_with_eq_Nil)
    then have "[] \<in> set (?f ss)" by simp
    then show False by simp
  qed
  have "last ss \<in> set ss" using assms(1) by simp
  then have last: "last (slash # join_with slash ss) = slash \<longleftrightarrow> last ss = []"
    using last_join_with [OF assms(1), of slash] assms(2) by (metis last_in_set)
  show ?thesis
  proof (cases "last ss = []")
    case True
    then have "join_with slash (squeeze ss) = join_with slash (?f ss) @ [slash]"
      using split ne by (simp add: squeeze_def join_with_snoc_Nil)
    then show ?thesis
      using True last segs clean not_root by (simp only: clean_path_def list.sel list.distinct
          if_False Let_def simp_thms if_True append_Cons)
  next
    case False
    then have "squeeze ss = ?f ss" using split by (simp add: squeeze_def)
    then show ?thesis
      using False last segs clean by (simp only: clean_path_def list.sel list.distinct
          if_False Let_def simp_thms if_True)
  qed
qed

lemma encode_Nil_iff: "encodeURIComponent s = Some [] \<longleftrightarrow> s = []"
proof -
  have "encodeURIComponent [] = Some []" by code_simp
  then show ?thesis using encode_inj by metis
qed

lemma encoded_not_dot: "encodeURIComponent s = Some e \<Longrightarrow> \<not> dot_name s \<Longrightarrow> \<not> dot_name e"
  using encode_keeps_dots [of s e] by (auto simp: dot_name_def single_dot_def double_dot_def)

lemma api_head_facts: "hd api_head \<noteq> []" "\<forall>s\<in>set api_head. slash \<notin> set s \<and> \<not> dot_name s \<and> s \<noteq> []"
  by (simp_all add: dot_name_def)

lemma squeeze_key_segments: "split_on slash (squeeze_key k) = squeeze (split_on slash k)"
  unfolding squeeze_key_def
proof (rule split_join)
  show "\<forall>q\<in>set (squeeze (split_on slash k)). slash \<notin> set q"
    using split_on_parts [of _ slash k] split_on_last_no_sep [of slash k]
    by (auto simp: squeeze_def dest: in_set_butlastD)
qed (simp add: squeeze_def)

text \<open>
  Cleaning the path of a key gives the path of the squeezed key, for a bucket name that is not
  empty and names without dot segments.
\<close>

lemma clean_api_path:
  assumes "encodeURIComponent (js route) = Some (js route)" and "js route \<noteq> []" and "\<not> dot_name (js route)"
    and "api_path route b k = Some p" and "b \<noteq> []" and "\<not> dot_name b"
    and "\<forall>s\<in>set (split_on slash k). \<not> dot_name s"
  shows "api_path route b (squeeze_key k) = Some (clean_path p)"
proof -
  let ?parts = "route_parts route b k"
  obtain es where es: "those (map encodeURIComponent ?parts) = Some es"
      and p: "p = slash # join_with slash (api_head @ es)"
    using assms(4) unfolding api_path_segments [OF assms(1)] by blast
  have enc: "map encodeURIComponent ?parts = map Some es" using es by (simp only: those_map_Some)
  have no_dot: "\<forall>s\<in>set ?parts. \<not> dot_name s" using assms(3,6,7) by (simp add: route_parts_def)
  have "\<not> dot_name e" if "e \<in> set es" for e
  proof -
    have "Some e \<in> encodeURIComponent ` set ?parts" using uri.those_images [OF es] that by simp
    then show ?thesis using no_dot encoded_not_dot by (metis imageE)
  qed
  then have plain: "\<forall>s\<in>set (api_head @ es). slash \<notin> set s \<and> \<not> dot_name s"
    using uri.those_no_slash [OF es] api_head_facts(2) by auto
  have clean: "clean_path p = slash # join_with slash (squeeze (api_head @ es))"
    unfolding p by (rule clean_path_joined) (use plain in simp_all)
  have ne: "es \<noteq> []" using uri.those_ne [OF es] by (simp add: route_parts_def)
  then have head: "squeeze (api_head @ es) = api_head @ squeeze es" by (simp add: squeeze_Cons)
  have "map encodeURIComponent (squeeze ?parts) = map Some (squeeze es)"
    by (rule squeeze_map [OF _ _ enc]) (simp_all add: encode_Nil_iff route_parts_def)
  then have enc': "those (map encodeURIComponent (squeeze ?parts)) = Some (squeeze es)"
    by (simp only: those_map_Some)
  have "squeeze ?parts = b # js route # squeeze (split_on slash k)"
    using assms(2,5) by (simp add: route_parts_def squeeze_Cons)
  then have "squeeze ?parts = route_parts route b (squeeze_key k)"
    by (simp add: route_parts_def squeeze_key_segments)
  then show ?thesis
    unfolding api_path_segments [OF assms(1)] clean head using enc' by auto
qed


section \<open>Matching the paths of objects\<close>

lemma of_char_byte_eq: "(of_char c :: byte) = of_char d \<longleftrightarrow> c = d"
proof
  have "(of_char x :: nat) < 256" for x :: char
    using of_char_mod_256 [of x, where 'a = nat] by (metis mod_less_divisor zero_less_numeral)
  then have "unat (of_nat (of_char x) :: byte) = of_char x" for x :: char
    by (simp add: unat_of_nat take_bit_eq_mod)
  then have "unat (of_char x :: byte) = of_char x" for x :: char by (simp add: of_nat_of_char)
  moreover assume "(of_char c :: byte) = of_char d"
  ultimately have "(of_char c :: nat) = of_char d" by metis
  then show "c = d" by simp
qed simp

lemma bytes_inject [js_words]: "bytes a = bytes b \<longleftrightarrow> a = b"
  by (auto simp: bytes_def inj_map_eq_map inj_def of_char_byte_eq)

lemma route_words [js_words]:
  "percent_decode (js ''api'') = Some (bytes ''api'')" "percent_decode (js ''v1'') = Some (bytes ''v1'')"
  "percent_decode (js ''buckets'') = Some (bytes ''buckets'')"
  "percent_decode (js ''objects'') = Some (bytes ''objects'')"
  "percent_decode (js ''meta'') = Some (bytes ''meta'')"
  by code_simp+

definition object_values :: "byte list \<Rightarrow> byte list \<Rightarrow> path_values" where
  "object_values bucket key = [(''bucket'', bucket), (''key'', key)]"

lemma PathValue_object [simp]:
  "PathValue (object_values b k) ''bucket'' = b" "PathValue (object_values b k) ''key'' = k"
  by (simp_all add: PathValue_def object_values_def)

lemma match_object_routes:
  assumes "percent_decode eb = Some bb" and "eb \<noteq> []"
    and "percent_decode (join_with slash (e # es)) = Some kb"
  shows "first_match api_routes GET (api_head @ eb # js ''objects'' # e # es) = Some (Get_Object, object_values bb kb)"
    and "first_match api_routes PUT (api_head @ eb # js ''objects'' # e # es) = Some (Put_Object, object_values bb kb)"
    and "first_match api_routes DELETE (api_head @ eb # js ''objects'' # e # es) =
      Some (Delete_Object, object_values bb kb)"
    and "first_match api_routes GET (api_head @ eb # js ''meta'' # e # es) = Some (Get_Object_Meta, object_values bb kb)"
  using assms
  by (simp_all add: api_routes_def Let_def allows_def object_values_def js_words del: js_Cons)

text \<open>The route and method of each request a client makes for an object.\<close>

definition route_of :: "string \<Rightarrow> http_method \<Rightarrow> route option" where
  "route_of name m =
     (if name = ''objects'' then
        (case m of GET \<Rightarrow> Some Get_Object | PUT \<Rightarrow> Some Put_Object | DELETE \<Rightarrow> Some Delete_Object | _ \<Rightarrow> None)
      else if name = ''meta'' \<and> m = GET then Some Get_Object_Meta
      else None)"

lemma route_of_cases:
  assumes "route_of name m = Some r"
  obtains "name = ''objects''" "m = GET" "r = Get_Object" | "name = ''objects''" "m = PUT" "r = Put_Object"
    | "name = ''objects''" "m = DELETE" "r = Delete_Object" | "name = ''meta''" "m = GET" "r = Get_Object_Meta"
  using assms by (auto simp: route_of_def split: if_splits http_method.splits)

lemma route_name_facts:
  assumes "route_of name m = Some r"
  shows "encodeURIComponent (js name) = Some (js name)" "js name \<noteq> []" "\<not> dot_name (js name)"
  using assms encode_routes by (auto elim!: route_of_cases simp: dot_name_def)

lemma find_object_route:
  assumes r: "route_of name m = Some r" and p: "api_path name b k = Some p" and b: "b \<noteq> []"
  shows "\<exists>bb kb. utf8_bytes b = Some bb \<and> utf8_bytes k = Some kb \<and>
    find_route m p = Some (r, object_values bb kb)"
proof -
  obtain eb ek where eb: "encodeURIComponent b = Some eb" and ek: "encodeKey k = Some ek"
    using p by (auto simp: api_path_def split: option.splits)
  obtain es where es: "those (map encodeURIComponent (split_on slash k)) = Some es" "ek = join_with slash es"
    using ek by (auto simp: encodeKey_def)
  obtain bb where bb: "utf8_bytes b = Some bb" "percent_decode eb = Some bb"
    using encode_defined [OF eb] encode_decodes [OF eb] by auto
  obtain kb where kb: "utf8_bytes k = Some kb" "percent_decode (join_with slash es) = Some kb"
    using encodeKey_decodes [OF ek] es(2) by blast
  obtain e fs where es_ne: "es = e # fs" using uri.those_ne [OF es(1)] by (cases es) auto
  have "eb \<noteq> []" using eb b encode_Nil_iff by auto
  note match = match_object_routes [OF bb(2) this kb(2) [unfolded es_ne]]
  have name: "encodeURIComponent (js name) = Some (js name)" using route_name_facts [OF r] by simp
  have parts: "those (map encodeURIComponent (route_parts name b k)) = Some (eb # js name # es)"
    using eb es(1) name by (simp add: route_parts_def)
  then have path: "p = slash # join_with slash (api_head @ eb # js name # es)"
    using p unfolding api_path_segments [OF name] by auto
  then have "split_on slash (tl p) = api_head @ eb # js name # e # fs"
    using split_api_path [OF parts] es_ne by (simp add: route_parts_def)
  then have "find_route m p = Some (r, object_values bb kb)"
    using r match by (auto simp: find_route_def elim!: route_of_cases)
  then show ?thesis using bb kb by blast
qed

lemma api_path_decodes:
  assumes "encodeURIComponent (js route) = Some (js route)" and "api_path route b k = Some p"
  shows "percent_decode p \<noteq> None"
proof -
  obtain es where es: "those (map encodeURIComponent (route_parts route b k)) = Some es"
      and p: "p = slash # join_with slash (api_head @ es)"
    using assms(2) unfolding api_path_segments [OF assms(1)] by blast
  have ne: "es \<noteq> []" using uri.those_ne [OF es] by (simp add: route_parts_def)
  obtain bs where "percent_decode (join_with slash es) = Some bs"
    using joined_decodes [OF _ es] by (auto simp: route_parts_def)
  moreover have "p = js ''/api/v1/buckets/'' @ join_with slash es"
    unfolding p using ne by (simp add: join_with_Cons)
  moreover have "percent_decode (js ''/api/v1/buckets/'') = Some (bytes ''/api/v1/buckets/'')" by code_simp
  ultimately show ?thesis by (simp add: percent_decode_append del: js_Cons)
qed

text \<open>The multiplexer serves the path of a squeezed key and redirects the path of any other to it.\<close>

lemma mux_serve_object:
  assumes r: "route_of name m = Some r" and p: "api_path name b k = Some p"
    and b: "b \<noteq> []" "\<not> dot_name b" and k: "\<forall>s\<in>set (split_on slash k). \<not> dot_name s"
  shows "\<exists>q. api_path name b (squeeze_key k) = Some q \<and>
    (if q = p then \<exists>bb kb. utf8_bytes b = Some bb \<and> utf8_bytes k = Some kb \<and>
                     mux_serve m p = Handler r (object_values bb kb)
     else mux_serve m p = Moved q)"
proof -
  note name = route_name_facts [OF r]
  have clean: "api_path name b (squeeze_key k) = Some (clean_path p)"
    by (rule clean_api_path [OF name p b k])
  obtain bb kb where found: "find_route m (clean_path p) = Some (r, object_values bb kb)"
    using find_object_route [OF r clean b(1)] by blast
  have serve: "mux_serve m p = (if clean_path p \<noteq> p then Moved (clean_path p) else Handler r (object_values bb kb))"
  proof -
    have "\<not> wants_slash m (clean_path p)" by (simp add: wants_slash_def found)
    moreover have "(case find_route m (clean_path p) of Some (r, vs) \<Rightarrow> Handler r vs | None \<Rightarrow> Static_Files) =
        Handler r (object_values bb kb)" by (simp add: found)
    ultimately show ?thesis
      using api_path_decodes [OF name(1) p] by (simp only: mux_serve_def Let_def if_False)
  qed
  show ?thesis
  proof (cases "clean_path p = p")
    case True
    then show ?thesis using clean serve found find_object_route [OF r p b(1)] by auto
  next
    case False
    then show ?thesis using clean serve by auto
  qed
qed


section \<open>What reaches the gateway\<close>

lemma squeeze_key_id:
  assumes "\<forall>s\<in>set (butlast (split_on slash k)). s \<noteq> []"
  shows "squeeze_key k = k"
  using squeeze_id [OF _ assms] by (simp add: squeeze_key_def)

lemma built_path_is_kept:
  assumes "route_of name m = Some r" and "api_path name b k = Some p" and "\<not> dot_name b"
    and "\<forall>s\<in>set (split_on slash k). \<not> dot_name s"
  shows "resolve_path p = p"
  using built_path_kept route_name_facts [OF assms(1)] assms(2-4) by blast

lemma handler_reads:
  assumes "bb \<noteq> []" and "kb \<noteq> []"
  shows "bucketAndKeyFromRequest (object_values bb kb) path = (bb, kb)"
    and "bucketAndKeyMetaFromRequest (object_values bb kb) path = (bb, kb)"
  using assms by (simp_all add: bucketAndKeyFromRequest_def bucketAndKeyMetaFromRequest_def)

lemma utf8_Nil_iff: "utf8_bytes s = Some [] \<longleftrightarrow> s = []"
proof -
  have "utf8_bytes [] = Some []" by code_simp
  then show ?thesis using utf8_bytes_inj by metis
qed

lemma request_served:
  assumes r: "route_of name m = Some r" and p: "api_path name b k = Some p"
    and b: "b \<noteq> []" "\<not> dot_name b" and k: "k \<noteq> []" "\<forall>s\<in>set (split_on slash k). \<not> dot_name s"
    and inner: "\<forall>s\<in>set (butlast (split_on slash k)). s \<noteq> []"
  shows "\<exists>bb kb. utf8_bytes b = Some bb \<and> utf8_bytes k = Some kb \<and> bb \<noteq> [] \<and> kb \<noteq> [] \<and>
    mux_serve m p = Handler r (object_values bb kb) \<and> 
    (\<forall>n. browse loc (Suc n) m p = Some (p, Handler r (object_values bb kb)))"
proof -
  obtain bb kb where names: "utf8_bytes b = Some bb" "utf8_bytes k = Some kb"
      and served: "mux_serve m p = Handler r (object_values bb kb)"
    using mux_serve_object [OF r p b k(2)] p unfolding squeeze_key_id [OF inner] by auto
  then have ne: "bb \<noteq> []" "kb \<noteq> []" using utf8_Nil_iff [of b] utf8_Nil_iff [of k] b(1) k(1) by auto
  have "browse loc (Suc n) m p = Some (p, Handler r (object_values bb kb))" for n
    using built_path_is_kept [OF r p b(2) k(2)] served by (simp add: Let_def)
  then show ?thesis using names ne served by blast
qed

text \<open>A request that ends at an object's handler works on the names bound there.\<close>

lemma gateway_object_by:
  assumes "route_of name m' = Some r" and "api_path name b k = Some q"
    and "browse loc 21 m p = Some (q, Handler r (object_values bb kb))" and "bb \<noteq> []" and "kb \<noteq> []"
  shows "gateway_object loc m p = Some (r, bb, kb)"
  using api_path_decodes [OF route_name_facts(1) [OF assms(1)] assms(2)] handler_reads [OF assms(4,5)] assms(3)
  by (auto simp: gateway_object_def)

lemma request_arrives:
  assumes r: "route_of name m = Some r" and p: "api_path name b k = Some p"
    and "b \<noteq> []" "\<not> dot_name b" and "k \<noteq> []" "\<forall>s\<in>set (split_on slash k). \<not> dot_name s"
    and "\<forall>s\<in>set (butlast (split_on slash k)). s \<noteq> []"
  shows "\<exists>bb kb. utf8_bytes b = Some bb \<and> utf8_bytes k = Some kb \<and> gateway_object loc m p = Some (r, bb, kb)"
proof -
  obtain bb kb where "utf8_bytes b = Some bb" "utf8_bytes k = Some kb" "bb \<noteq> []" "kb \<noteq> []"
      and "browse loc (Suc 20) m p = Some (p, Handler r (object_values bb kb))"
    using request_served [OF assms] by blast
  then show ?thesis using gateway_object_by [OF r p] by (simp del: browse.simps)
qed

lemma squeeze_key_no_dots:
  "\<forall>s\<in>set (split_on slash k). \<not> dot_name s \<Longrightarrow> \<forall>s\<in>set (split_on slash (squeeze_key k)). \<not> dot_name s"
  unfolding squeeze_key_segments by (auto simp: squeeze_def dest: in_set_butlastD)

lemma squeeze_key_inner: "\<forall>s\<in>set (butlast (split_on slash (squeeze_key k))). s \<noteq> []"
  unfolding squeeze_key_segments by (simp add: squeeze_def)

section \<open>Properties\<close>

text \<open>
  C3. Every request for an object reaches the gateway's handler for it with exactly the UTF-8
  bytes of the bucket and the key shown: reading, replacing and deleting on the object path,
  metadata on the metadata path, whatever characters the names contain (a bucket name with a
  slash, keys with \<open>/objects/\<close> or \<open>/meta/\<close> in them), however redirects are printed. It needs names
  that are not empty, have no dot segments, and have no empty segment before the last.
\<close>

theorem gateway_reads_client_path:
  assumes "b \<noteq> []" and "\<not> dot_name b" and "k \<noteq> []" and "\<forall>s\<in>set (split_on slash k). \<not> dot_name s"
    and "\<forall>s\<in>set (butlast (split_on slash k)). s \<noteq> []"
    and "buildObjectPath b k = Some p" and "buildMetaPath b k = Some q"
  shows "\<exists>bb kb. utf8_bytes b = Some bb \<and> utf8_bytes k = Some kb \<and>
    gateway_object loc GET p = Some (Get_Object, bb, kb) \<and>
    gateway_object loc PUT p = Some (Put_Object, bb, kb) \<and>
    gateway_object loc DELETE p = Some (Delete_Object, bb, kb) \<and>
    gateway_object loc GET q = Some (Get_Object_Meta, bb, kb)"
proof -
  have routes: "route_of ''objects'' GET = Some Get_Object" "route_of ''objects'' PUT = Some Put_Object"
      "route_of ''objects'' DELETE = Some Delete_Object" "route_of ''meta'' GET = Some Get_Object_Meta"
    by (simp_all add: route_of_def)
  have paths: "api_path ''objects'' b k = Some p" "api_path ''meta'' b k = Some q"
    using assms(6,7) by (simp_all add: buildObjectPath_def buildMetaPath_def)
  note arrives = request_arrives [OF _ _ assms(1-5), where loc = loc]
  show ?thesis
    using arrives [OF routes(1) paths(1)] arrives [OF routes(2) paths(1)]
      arrives [OF routes(3) paths(1)] arrives [OF routes(4) paths(2)]
    by (metis option.inject)
qed

theorem gateway_reads_client_path_witness:
  "gateway_object id DELETE (js ''/api/v1/buckets/a%2Fb/objects/x/objects/y%20z'') =
     Some (Delete_Object, bytes ''a/b'', bytes ''x/objects/y z'')"
proof -
  have built: "buildObjectPath (js ''a/b'') (js ''x/objects/y z'') =
      Some (js ''/api/v1/buckets/a%2Fb/objects/x/objects/y%20z'')"
    "buildMetaPath (js ''a/b'') (js ''x/objects/y z'') =
      Some (js ''/api/v1/buckets/a%2Fb/meta/x/objects/y%20z'')" by code_simp+
  have utf8: "utf8_bytes (js ''a/b'') = Some (bytes ''a/b'')"
    "utf8_bytes (js ''x/objects/y z'') = Some (bytes ''x/objects/y z'')" by code_simp+
  have "\<not> dot_name (js ''a/b'')" "\<forall>s\<in>set (split_on slash (js ''x/objects/y z'')). \<not> dot_name s"
    "\<forall>s\<in>set (butlast (split_on slash (js ''x/objects/y z''))). s \<noteq> []"
    "js ''a/b'' \<noteq> []" "js ''x/objects/y z'' \<noteq> []"
    by (simp_all add: dot_name_def)
  from gateway_reads_client_path [OF this(4,1,5,2,3) built, where loc = id]
  show ?thesis unfolding utf8 by (metis option.inject)
qed

text \<open>A path that \<open>URL.String\<close> prints as it is: unreserved characters and slashes.\<close>

definition plain_path :: "jstr \<Rightarrow> bool" where
  "plain_path p \<longleftrightarrow> list_all (\<lambda>c. c = slash \<or> c = dot \<or> c = 45 \<or> c = 95 \<or> c = 126 \<or>
     48 \<le> c \<and> c \<le> 57 \<or> 65 \<le> c \<and> c \<le> 90 \<or> 97 \<le> c \<and> c \<le> 122) p"

text \<open>
  C4. A key with an empty segment before its last one is not reachable: the gateway redirects every
  request for it, and the browser's second request works on the key without its empty segments,
  which is another object. Deleting, replacing and reading \<open>a//b\<close> acts on \<open>a/b\<close>. The location is
  assumed to be printed as it is for a path of unreserved characters.
\<close>

theorem empty_segments_reach_other_object:
  assumes "b \<noteq> []" and "\<not> dot_name b" and "\<forall>s\<in>set (split_on slash k). \<not> dot_name s"
    and "buildObjectPath b k = Some p"
    and "buildObjectPath b (squeeze_key k) = Some p'" and "squeeze_key k \<noteq> k" and "squeeze_key k \<noteq> []"
    and "plain_path p'" and "\<And>q. plain_path q \<Longrightarrow> loc q = q"
    and "m = GET \<and> r = Get_Object \<or> m = PUT \<and> r = Put_Object \<or> m = DELETE \<and> r = Delete_Object"
  shows "\<exists>bb kb kb'. utf8_bytes b = Some bb \<and> utf8_bytes k = Some kb \<and> utf8_bytes (squeeze_key k) = Some kb' \<and>
    kb' \<noteq> kb \<and> mux_serve m p = Moved p' \<and> gateway_object loc m p = Some (r, bb, kb')"
proof -
  have r: "route_of ''objects'' m = Some r" using assms(10) by (auto simp: route_of_def)
  have paths: "api_path ''objects'' b k = Some p" "api_path ''objects'' b (squeeze_key k) = Some p'"
    using assms(4,5) by (simp_all add: buildObjectPath_def)
  obtain bb kb where names: "utf8_bytes b = Some bb" "utf8_bytes k = Some kb"
    using find_object_route [OF r paths(1) assms(1)] by blast
  from request_served [OF r paths(2) assms(1,2,7) squeeze_key_no_dots [OF assms(3)] squeeze_key_inner]
  obtain kb' where k': "utf8_bytes (squeeze_key k) = Some kb'" "bb \<noteq> []" "kb' \<noteq> []"
      and served: "\<And>n. browse loc (Suc n) m p' = Some (p', Handler r (object_values bb kb'))"
    using names(1) by (metis option.inject)
  have other: "kb' \<noteq> kb" using utf8_bytes_inj k'(1) names(2) assms(6) by blast
  have "p' \<noteq> p"
  proof
    assume "p' = p"
    then have "api_path ''objects'' b (squeeze_key k) = Some p" using paths(2) by (simp only:)
    then have "k = squeeze_key k" using api_path_inj [OF encode_routes(1) encode_routes(1) paths(1)] by blast
    then show False using assms(6) by (simp only: simp_thms)
  qed
  then have moved: "mux_serve m p = Moved p'"
    using mux_serve_object [OF r paths(1) assms(1-3)] paths(2) by auto
  have "browse loc (Suc (Suc n)) m p = Some (p', Handler r (object_values bb kb'))" for n
    unfolding browse.simps(2) [of loc "Suc n"]
    using built_path_is_kept [OF r paths(1) assms(2,3)] moved served assms(9) [OF assms(8)]
    by (simp add: Let_def del: browse.simps)
  from this [of 19] have "browse loc 21 m p = Some (p', Handler r (object_values bb kb'))"
    by (simp del: browse.simps)
  then have "gateway_object loc m p = Some (r, bb, kb')"
    using gateway_object_by [OF r paths(2)] k' by blast
  then show ?thesis using names k'(1) other moved by blast
qed

theorem empty_segments_reach_other_object_witness:
  "gateway_object id DELETE (js ''/api/v1/buckets/docs/objects/a//b.txt'') =
     Some (Delete_Object, bytes ''docs'', bytes ''a/b.txt'')"
proof -
  have squeezed: "squeeze_key (js ''a//b.txt'') = js ''a/b.txt''"
    by (simp add: squeeze_key_def squeeze_def)
  have built: "buildObjectPath (js ''docs'') (js ''a//b.txt'') = Some (js ''/api/v1/buckets/docs/objects/a//b.txt'')"
    "buildObjectPath (js ''docs'') (js ''a/b.txt'') = Some (js ''/api/v1/buckets/docs/objects/a/b.txt'')"
    by code_simp+
  have utf8: "utf8_bytes (js ''docs'') = Some (bytes ''docs'')"
    "utf8_bytes (js ''a/b.txt'') = Some (bytes ''a/b.txt'')" by code_simp+
  have names: "js ''docs'' \<noteq> []" "\<not> dot_name (js ''docs'')"
    "\<forall>s\<in>set (split_on slash (js ''a//b.txt'')). \<not> dot_name s"
    "js ''a/b.txt'' \<noteq> js ''a//b.txt''" "js ''a/b.txt'' \<noteq> []"
    by (simp_all add: dot_name_def)
  have plain: "plain_path (js ''/api/v1/buckets/docs/objects/a/b.txt'')" by code_simp
  show ?thesis
    using empty_segments_reach_other_object [OF names(1-3) built(1), of "js ''/api/v1/buckets/docs/objects/a/b.txt''"
        id DELETE Delete_Object]
      names(4,5) built(2) plain utf8 unfolding squeezed by (auto simp del: js_Cons)
qed

end
