(* ===== verification/Acl.thy ===== *)
theory Acl
  imports Gateway_Routes "HOL-Library.List_Lexorder"
begin

text \<open>
  The gateway's access rules, \<open>internal/acl/resolver.go\<close>: the group names of a token grant
  policies on buckets. The rights listed for a bucket and the rights checked on a request are
  computed by different functions; the lemmas compare both with one specification, \<open>granted\<close>.
  A Go string is a list of bytes.
\<close>

section \<open>Policies and groups\<close>

record policyGrants =
  grant_read :: bool
  grant_write :: bool
  grant_delete :: bool

definition validPolicies :: "(byte list \<times> policyGrants) list" where
  "validPolicies =
     [(bytes ''ro'', \<lparr>grant_read = True, grant_write = False, grant_delete = False\<rparr>),
      (bytes ''rw'', \<lparr>grant_read = True, grant_write = True, grant_delete = True\<rparr>),
      (bytes ''wo'', \<lparr>grant_read = False, grant_write = True, grant_delete = False\<rparr>)]"

definition WildcardBucket :: "byte list" where
  "WildcardBucket = bytes ''*''"

abbreviation hyphen :: byte where "hyphen \<equiv> 45"

text \<open>\<open>strings.LastIndex(s, c)\<close> for one byte, as the parts before and after it.\<close>

definition cut_last :: "byte \<Rightarrow> byte list \<Rightarrow> (byte list \<times> byte list) option" where
  "cut_last c s =
     (if c \<in> set s then
        (let n = length (takeWhile (\<lambda>x. x \<noteq> c) (rev s))
         in Some (take (length s - Suc n) s, drop (length s - n) s))
      else None)"

text \<open>The result carries the grants of the policy beside its name.\<close>

definition parseGroup :: "byte list \<Rightarrow> (byte list \<times> policyGrants) option" where
  "parseGroup grp =
     (let g = dropWhile (\<lambda>c. c = 47) grp
      in if g = [] then None
         else case cut_last hyphen g of
                None \<Rightarrow> None
              | Some (bucket, policy) \<Rightarrow>
                  (case map_of validPolicies policy of
                     None \<Rightarrow> None
                   | Some grants \<Rightarrow> if bucket = [] then None else Some (bucket, grants)))"

fun methodGranted :: "policyGrants \<Rightarrow> http_method \<Rightarrow> bool" where
  "methodGranted g GET = grant_read g"
| "methodGranted g HEAD = grant_read g"
| "methodGranted g PUT = grant_write g"
| "methodGranted g POST = grant_write g"
| "methodGranted g DELETE = grant_delete g"
| "methodGranted g OPTIONS = grant_read g"
| "methodGranted g (Other_Method _) = False"

section \<open>Checking and listing\<close>

fun CheckAccess :: "byte list list \<Rightarrow> byte list \<Rightarrow> http_method \<Rightarrow> bool" where
  "CheckAccess [] bucket m = False"
| "CheckAccess (grp # groups) bucket m =
     (case parseGroup grp of
        None \<Rightarrow> CheckAccess groups bucket m
      | Some (groupBucket, grants) \<Rightarrow>
          if groupBucket \<noteq> bucket \<and> groupBucket \<noteq> WildcardBucket then CheckAccess groups bucket m
          else if methodGranted grants m then True
          else CheckAccess groups bucket m)"

definition no_grants :: policyGrants where
  "no_grants = \<lparr>grant_read = False, grant_write = False, grant_delete = False\<rparr>"

definition apply_grants :: "policyGrants \<Rightarrow> policyGrants \<Rightarrow> policyGrants" where
  "apply_grants p g =
     \<lparr>grant_read = grant_read p \<or> grant_read g, grant_write = grant_write p \<or> grant_write g,
      grant_delete = grant_delete p \<or> grant_delete g\<rparr>"

fun wildcard_loop :: "policyGrants \<Rightarrow> bool \<Rightarrow> byte list list \<Rightarrow> policyGrants \<times> bool" where
  "wildcard_loop perm found [] = (perm, found)"
| "wildcard_loop perm found (grp # groups) =
     (case parseGroup grp of
        None \<Rightarrow> wildcard_loop perm found groups
      | Some (bucket, grants) \<Rightarrow>
          if bucket \<noteq> WildcardBucket then wildcard_loop perm found groups
          else wildcard_loop (apply_grants perm grants) True groups)"

definition WildcardGrant :: "byte list list \<Rightarrow> policyGrants \<times> bool" where
  "WildcardGrant groups = wildcard_loop no_grants False groups"

type_synonym perms = "byte list \<rightharpoonup> policyGrants"

text \<open>Merging into an entry of the map, made when it is missing.\<close>

definition merge_perm :: "perms \<Rightarrow> byte list \<Rightarrow> policyGrants \<Rightarrow> perms" where
  "merge_perm perms bucket grants =
     perms(bucket \<mapsto> apply_grants (case perms bucket of Some p \<Rightarrow> p | None \<Rightarrow> no_grants) grants)"

fun effective_loop :: "byte list list \<Rightarrow> perms \<times> byte list list \<Rightarrow> perms \<times> byte list list" where
  "effective_loop [] acc = acc"
| "effective_loop (grp # groups) (perms, names) =
     (case parseGroup grp of
        None \<Rightarrow> effective_loop groups (perms, names)
      | Some (bucket, grants) \<Rightarrow>
          if bucket = WildcardBucket then effective_loop groups (perms, names)
          else effective_loop groups
                 (merge_perm perms bucket grants,
                  if perms bucket = None then names @ [bucket] else names))"

text \<open>
  The map is iterated and the result sorted by name, which does not depend on the order of the
  iteration: the names are those of the map, in the order they were added.
\<close>

definition EffectiveBuckets :: "byte list list \<Rightarrow> (byte list \<times> policyGrants) list" where
  "EffectiveBuckets groups =
     (case effective_loop groups (Map.empty, []) of
        (perms, names) \<Rightarrow> map (\<lambda>n. (n, the (perms n))) (sort names))"

section \<open>The specification\<close>

text \<open>
  What the groups grant on a bucket: the union over the groups for the bucket itself and, where
  \<open>wild\<close> says so, for every bucket.
\<close>

definition covers :: "bool \<Rightarrow> byte list \<Rightarrow> byte list \<Rightarrow> bool" where
  "covers wild bucket b \<longleftrightarrow> b = bucket \<or> wild \<and> b = WildcardBucket"

definition granted :: "bool \<Rightarrow> byte list list \<Rightarrow> byte list \<Rightarrow> (policyGrants \<Rightarrow> bool) \<Rightarrow> bool" where
  "granted wild groups bucket sel \<longleftrightarrow>
     list_ex (\<lambda>g. case parseGroup g of Some (b, p) \<Rightarrow> covers wild bucket b \<and> sel p | None \<Rightarrow> False) groups"

lemma granted_simps [simp]:
  "\<not> granted wild [] b sel"
  "granted wild (g # gs) b sel \<longleftrightarrow>
     (case parseGroup g of Some (c, p) \<Rightarrow> covers wild b c \<and> sel p | None \<Rightarrow> False) \<or> granted wild gs b sel"
  by (simp_all add: granted_def)

lemma CheckAccess_granted: "CheckAccess groups b m \<longleftrightarrow> granted True groups b (\<lambda>p. methodGranted p m)"
  by (induction groups b m rule: CheckAccess.induct) (auto simp: covers_def split: option.splits)

declare CheckAccess.simps [simp del]

lemma apply_grants_sel [simp]:
  "grant_read (apply_grants p g) \<longleftrightarrow> grant_read p \<or> grant_read g"
  "grant_write (apply_grants p g) \<longleftrightarrow> grant_write p \<or> grant_write g"
  "grant_delete (apply_grants p g) \<longleftrightarrow> grant_delete p \<or> grant_delete g"
  "\<not> grant_read no_grants" "\<not> grant_write no_grants" "\<not> grant_delete no_grants"
  by (simp_all add: apply_grants_def no_grants_def)

text \<open>The selectors that a merge turns into a disjunction.\<close>

definition right :: "(policyGrants \<Rightarrow> bool) \<Rightarrow> bool" where
  "right sel \<longleftrightarrow> \<not> sel no_grants \<and> (\<forall>p g. sel (apply_grants p g) \<longleftrightarrow> sel p \<or> sel g)"

lemma rights: "right grant_read" "right grant_write" "right grant_delete"
  by (simp_all add: right_def)

lemma method_right: "right (\<lambda>p. methodGranted p m)"
  by (cases m) (simp_all add: right_def)

lemma wildcard_loop_granted:
  "right sel \<Longrightarrow>
   sel (fst (wildcard_loop perm found groups)) \<longleftrightarrow> sel perm \<or> granted True groups WildcardBucket sel"
  by (induction perm found groups rule: wildcard_loop.induct)
     (auto simp: right_def covers_def split: option.splits)

lemma WildcardGrant_granted:
  "right sel \<Longrightarrow> sel (fst (WildcardGrant groups)) \<longleftrightarrow> granted True groups WildcardBucket sel"
  by (simp add: WildcardGrant_def wildcard_loop_granted right_def)

lemma wildcard_found:
  "snd (wildcard_loop perm found groups) \<longleftrightarrow> found \<or> granted True groups WildcardBucket (\<lambda>_. True)"
  by (induction perm found groups rule: wildcard_loop.induct) (auto simp: covers_def split: option.splits)

text \<open>The rights of a bucket in the table, none for a bucket that is not there.\<close>

definition listed :: "perms \<Rightarrow> byte list \<Rightarrow> policyGrants" where
  "listed perms b = (case perms b of Some p \<Rightarrow> p | None \<Rightarrow> no_grants)"

lemma listed_merge:
  "listed (merge_perm perms b g) c = (if c = b then apply_grants (listed perms b) g else listed perms c)"
  by (simp add: listed_def merge_perm_def)

lemma effective_loop_granted:
  assumes "right sel" and "b \<noteq> WildcardBucket"
  shows "sel (listed (fst (effective_loop groups (perms, names))) b) \<longleftrightarrow>
    sel (listed perms b) \<or> granted False groups b sel"
proof (induction groups arbitrary: perms names)
  case (Cons g gs)
  then show ?case
    using assms by (cases "parseGroup g") (auto simp: right_def covers_def listed_merge split: if_splits)
qed simp

text \<open>The names are the keys of the map, each once.\<close>

definition names_of :: "perms \<times> byte list list \<Rightarrow> bool" where
  "names_of acc \<longleftrightarrow> set (snd acc) = dom (fst acc) \<and> distinct (snd acc)"

lemma names_of_merge:
  "names_of (perms, names) \<Longrightarrow>
   names_of (merge_perm perms b g, if perms b = None then names @ [b] else names)"
  by (auto simp: names_of_def merge_perm_def)

lemma effective_loop_names: "names_of acc \<Longrightarrow> names_of (effective_loop groups acc)"
proof (induction groups acc rule: effective_loop.induct)
  case (2 grp groups perms names)
  show ?case
  proof (cases "parseGroup grp")
    case (Some bg)
    then show ?thesis
      using "2.IH" "2.prems" names_of_merge [OF "2.prems"] by (cases bg) auto
  qed (use 2 in simp)
qed simp

lemma effective_loop_dom:
  "fst (effective_loop groups (perms, names)) b = None \<longleftrightarrow>
   perms b = None \<and> (b = WildcardBucket \<or> \<not> granted False groups b (\<lambda>_. True))"
proof (induction groups arbitrary: perms names b)
  case (Cons g gs)
  have dom: "merge_perm perms c p b = None \<longleftrightarrow> b \<noteq> c \<and> perms b = None" for b c p
    by (simp add: merge_perm_def)
  show ?case
    by (cases "parseGroup g") (auto simp: Cons dom covers_def simp del: not_None_eq split: if_splits)
qed simp


section \<open>Group names\<close>

lemma cut_last_snoc:
  assumes "c \<notin> set y"
  shows "cut_last c (x @ c # y) = Some (x, y)"
proof -
  have "takeWhile (\<lambda>z. z \<noteq> c) (rev y @ c # rev x) = rev y"
    using assms by (subst takeWhile_append2) auto
  then show ?thesis by (simp add: cut_last_def Let_def)
qed

lemma cut_last_Some:
  assumes "cut_last c s = Some (x, y)"
  shows "s = x @ c # y \<and> c \<notin> set y"
proof -
  have "c \<in> set s" using assms by (auto simp: cut_last_def split: if_splits)
  then obtain u v where s: "s = u @ c # v" "c \<notin> set v" using split_list_last by metis
  then show ?thesis using assms cut_last_snoc [OF s(2), of u] by simp
qed

lemma policies_no_hyphen: "(pol, g) \<in> set validPolicies \<Longrightarrow> hyphen \<notin> set pol"
  by (auto simp: validPolicies_def bytes_def)

lemma policies_map: "map_of validPolicies pol = Some g \<longleftrightarrow> (pol, g) \<in> set validPolicies"
  by (rule map_of_eq_Some_iff) (simp add: validPolicies_def js_words)

lemma dropWhile_eq_replicate: "\<exists>n. xs = replicate n c @ dropWhile (\<lambda>x. x = c) xs"
proof (induction xs)
  case (Cons x xs)
  then obtain n where "xs = replicate n c @ dropWhile (\<lambda>x. x = c) xs" by blast
  then show ?case
    by (cases "x = c") (auto intro: exI [of _ "Suc n"] exI [of _ 0])
qed simp

lemma dropWhile_replicate: "hd xs \<noteq> c \<or> xs = [] \<Longrightarrow> dropWhile (\<lambda>x. x = c) (replicate n c @ xs) = xs"
  by (induction n) (cases xs; simp)+

text \<open>
  Which group names grant what: a group gives a policy on a bucket exactly when it is the
  bucket, a hyphen and one of the policies \<open>ro\<close>, \<open>rw\<close>, \<open>wo\<close>, after any number of slashes. The bucket
  is everything before the last hyphen, not empty, and keeps its own hyphens and inner slashes.
\<close>

theorem parseGroup_iff:
  "parseGroup g = Some (bucket, grants) \<longleftrightarrow>
   (\<exists>n pol. g = replicate n 47 @ bucket @ hyphen # pol \<and> (pol, grants) \<in> set validPolicies \<and>
      bucket \<noteq> [] \<and> hd bucket \<noteq> 47)"
proof
  let ?d = "dropWhile (\<lambda>c. c = 47) g"
  assume parsed: "parseGroup g = Some (bucket, grants)"
  then obtain pol where pol: "cut_last hyphen ?d = Some (bucket, pol)" "map_of validPolicies pol = Some grants"
      "bucket \<noteq> []"
    by (auto simp: parseGroup_def Let_def split: if_splits option.splits)
  then have d: "?d = bucket @ hyphen # pol" using cut_last_Some by blast
  then have "hd bucket \<noteq> 47" using hd_dropWhile [of "\<lambda>c. c = 47" g] pol(3) by auto
  then show "\<exists>n pol. g = replicate n 47 @ bucket @ hyphen # pol \<and> (pol, grants) \<in> set validPolicies \<and>
      bucket \<noteq> [] \<and> hd bucket \<noteq> 47"
    using dropWhile_eq_replicate [of g 47] d pol policies_map by metis
next
  assume "\<exists>n pol. g = replicate n 47 @ bucket @ hyphen # pol \<and> (pol, grants) \<in> set validPolicies \<and>
      bucket \<noteq> [] \<and> hd bucket \<noteq> 47"
  then obtain n pol where g: "g = replicate n 47 @ bucket @ hyphen # pol" and pol: "(pol, grants) \<in> set validPolicies"
      and b: "bucket \<noteq> []" "hd bucket \<noteq> 47" by blast
  have "dropWhile (\<lambda>c. c = 47) g = bucket @ hyphen # pol"
    unfolding g by (rule dropWhile_replicate) (use b in simp)
  then show "parseGroup g = Some (bucket, grants)"
    using b pol policies_no_hyphen [OF pol] policies_map [of pol grants]
    by (simp add: parseGroup_def cut_last_snoc)
qed

end
