(* ===== verification/Content_Security.thy ===== *)
theory Content_Security
  imports Api_Client
begin

text \<open>
  How the gateway labels the bytes of an object, \<open>internal/webui/content_security.go\<close>: the
  content type and the disposition that keep a browser from running an object as a page, and the
  file name of the download. Strings are bytes; \<open>strings.ToLower\<close> beyond ASCII is a parameter.
\<close>

section \<open>Trimming\<close>

text \<open>The encodings of the characters \<open>unicode.IsSpace\<close> holds of.\<close>

definition space_runes :: "byte list list" where
  "space_runes =
     [[9], [10], [11], [12], [13], [32], [0xC2, 0x85], [0xC2, 0xA0], [0xE1, 0x9A, 0x80],
      [0xE2, 0x80, 0x80], [0xE2, 0x80, 0x81], [0xE2, 0x80, 0x82], [0xE2, 0x80, 0x83], [0xE2, 0x80, 0x84],
      [0xE2, 0x80, 0x85], [0xE2, 0x80, 0x86], [0xE2, 0x80, 0x87], [0xE2, 0x80, 0x88], [0xE2, 0x80, 0x89],
      [0xE2, 0x80, 0x8A], [0xE2, 0x80, 0xA8], [0xE2, 0x80, 0xA9], [0xE2, 0x80, 0xAF], [0xE2, 0x81, 0x9F],
      [0xE3, 0x80, 0x80]]"

text \<open>Removing any of the given strings from the front, as long as one is there.\<close>

function strip_front :: "byte list list \<Rightarrow> byte list \<Rightarrow> byte list" where
  "strip_front rs s =
     (case find (\<lambda>r. r \<noteq> [] \<and> prefix r s) rs of
        None \<Rightarrow> s
      | Some r \<Rightarrow> strip_front rs (drop (length r) s))"
  by pat_completeness auto
termination
  by (relation "measure (\<lambda>(rs, s). length s)") (auto simp: find_Some_iff prefix_def)

declare strip_front.simps [simp del]

definition TrimSpace :: "byte list \<Rightarrow> byte list" where
  "TrimSpace s = rev (strip_front (map rev space_runes) (rev (strip_front space_runes s)))"

section \<open>Content types\<close>

definition activeContentTypes :: "byte list list" where
  "activeContentTypes =
     [bytes ''text/html'', bytes ''application/xhtml+xml'', bytes ''image/svg+xml'', bytes ''application/xml'',
      bytes ''text/xml'', bytes ''application/xml-dtd'', bytes ''application/mathml+xml'',
      bytes ''application/rss+xml'', bytes ''application/atom+xml'']"

definition octetStream :: "byte list" where
  "octetStream = bytes ''application/octet-stream''"

definition bareMediaType :: "(byte list \<Rightarrow> byte list) \<Rightarrow> byte list \<Rightarrow> byte list" where
  "bareMediaType lower ct =
     (let c = TrimSpace ct
      in if c = [] then [] else lower (TrimSpace (takeWhile (\<lambda>x. x \<noteq> 59) c)))"

definition isActiveContentType :: "byte list \<Rightarrow> bool" where
  "isActiveContentType media \<longleftrightarrow> media \<in> set activeContentTypes \<or> suffix (bytes ''+xml'') media"

record disposition =
  dp_content_type :: "byte list"
  dp_inline :: bool

definition neutralizeContentType :: "(byte list \<Rightarrow> byte list) \<Rightarrow> byte list \<Rightarrow> disposition" where
  "neutralizeContentType lower upstream =
     (let media = bareMediaType lower upstream
      in if media = [] then \<lparr>dp_content_type = octetStream, dp_inline = True\<rparr>
         else if isActiveContentType media then \<lparr>dp_content_type = octetStream, dp_inline = False\<rparr>
         else \<lparr>dp_content_type = upstream, dp_inline = True\<rparr>)"

section \<open>File names\<close>

text \<open>\<open>path.Base\<close>: \<open>.\<close> for the empty path, \<open>/\<close> for slashes only, else what follows the last slash.\<close>

definition path_Base :: "byte list \<Rightarrow> byte list" where
  "path_Base p =
     (if p = [] then [46]
      else
        (let q = rev (dropWhile (\<lambda>x. x = 47) (rev p));
             base = rev (takeWhile (\<lambda>x. x \<noteq> 47) (rev q))
         in if base = [] then [47] else base))"

text \<open>
  The length of the character at the front as \<open>utf8.DecodeRune\<close> finds it, 0 where the bytes
  are no valid encoding: neither overlong, nor a surrogate, nor above \<open>0x10FFFF\<close>.
\<close>

definition rune_length :: "byte list \<Rightarrow> nat" where
  "rune_length s =
     (let within = (\<lambda>i lo hi. i < length s \<and> lo \<le> s ! i \<and> s ! i \<le> hi);
          tail = (\<lambda>i. within i 0x80 0xBF)
      in if within 0 0 0x7F then 1
         else if within 0 0xC2 0xDF then if tail 1 then 2 else 0
         else if within 0 0xE0 0xEF then
           if within 1 (if s ! 0 = 0xE0 then 0xA0 else 0x80) (if s ! 0 = 0xED then 0x9F else 0xBF) \<and> tail 2
           then 3 else 0
         else if within 0 0xF0 0xF4 then
           if within 1 (if s ! 0 = 0xF0 then 0x90 else 0x80) (if s ! 0 = 0xF4 then 0x8F else 0xBF) \<and>
              tail 2 \<and> tail 3
           then 4 else 0
         else 0)"

text \<open>
  \<open>strings.Map\<close> with the function of \<open>sanitizeFilename\<close>: the quote and the control characters go,
  every other character stays, and a byte that is no character becomes \<open>U+FFFD\<close>.
\<close>

definition unsafe_rune :: "byte \<Rightarrow> bool" where
  "unsafe_rune x \<longleftrightarrow> x = 34 \<or> x < 0x20 \<or> x = 0x7f"

fun map_safe :: "byte list \<Rightarrow> byte list" where
  "map_safe [] = []"
| "map_safe (x # s) =
     (case rune_length (x # s) of
        0 \<Rightarrow> [0xEF, 0xBF, 0xBD] @ map_safe s
      | Suc n \<Rightarrow> (if unsafe_rune x then [] else x # take n s) @ map_safe (drop n s))"

definition sanitizeFilename :: "byte list \<Rightarrow> byte list" where
  "sanitizeFilename key =
     (let line = takeWhile (\<lambda>x. x \<noteq> 13 \<and> x \<noteq> 10) key;
          base = path_Base (map (\<lambda>x. if x = 92 then 47 else x) line);
          kept = TrimSpace (map_safe base)
      in if kept = [] \<or> kept = [46] \<or> kept = [46, 46] then bytes ''download'' else kept)"

section \<open>Lemmas\<close>

lemma strip_front_sublist: "\<exists>p. s = p @ strip_front rs s"
proof (induction rs s rule: strip_front.induct)
  case (1 rs s)
  show ?case
  proof (cases "find (\<lambda>r. r \<noteq> [] \<and> prefix r s) rs")
    case None
    then show ?thesis by (simp add: strip_front.simps [of rs s])
  next
    case (Some r)
    then obtain p where "drop (length r) s = p @ strip_front rs (drop (length r) s)" using 1 by blast
    then have "s = (take (length r) s @ p) @ strip_front rs (drop (length r) s)"
      by (metis append.assoc append_take_drop_id)
    moreover have "strip_front rs s = strip_front rs (drop (length r) s)"
      using Some by (simp add: strip_front.simps [of rs s])
    ultimately show ?thesis by metis
  qed
qed

lemma set_strip_front: "set (strip_front rs s) \<subseteq> set s"
  using strip_front_sublist [of s rs] by (metis set_append Un_upper2)

lemma set_TrimSpace: "set (TrimSpace s) \<subseteq> set s"
  using set_strip_front [of "map rev space_runes" "rev (strip_front space_runes s)"]
    set_strip_front [of space_runes s]
  by (auto simp: TrimSpace_def)

lemma strip_front_none: "\<forall>r\<in>set rs. r \<noteq> [] \<longrightarrow> \<not> prefix r s \<Longrightarrow> strip_front rs s = s"
  by (subst strip_front.simps) (auto simp: find_Some_iff split: option.split)

lemma TrimSpace_id:
  assumes "\<forall>r\<in>set space_runes. \<not> prefix r s" and "\<forall>r\<in>set space_runes. \<not> suffix r s"
  shows "TrimSpace s = s"
proof -
  have "\<not> prefix (rev r) (rev s)" if "r \<in> set space_runes" for r
    using that assms(2) by (simp add: suffix_to_prefix)
  then have "strip_front (map rev space_runes) (rev s) = rev s"
    by (intro strip_front_none) auto
  moreover have "strip_front space_runes s = s" using assms(1) by (intro strip_front_none) auto
  ultimately show ?thesis by (simp add: TrimSpace_def)
qed

text \<open>Nothing to trim: no byte is a space or above ASCII.\<close>

lemma space_runes_first: "r \<in> set space_runes \<Longrightarrow> r \<noteq> [] \<and> (hd r \<le> 32 \<or> 128 \<le> hd r) \<and> (last r \<le> 32 \<or> 128 \<le> last r)"
  by (auto simp: space_runes_def)

lemma TrimSpace_visible: "\<forall>x\<in>set s. 32 < x \<and> x < 128 \<Longrightarrow> TrimSpace s = s"
proof (rule TrimSpace_id)
  assume vis: "\<forall>x\<in>set s. 32 < x \<and> x < 128"
  show "\<forall>r\<in>set space_runes. \<not> prefix r s"
  proof
    fix r :: "byte list" assume r: "r \<in> set space_runes"
    show "\<not> prefix r s"
    proof
      assume "prefix r s"
      then have "hd r \<in> set s" using space_runes_first [OF r] by (metis hd_in_set set_mono_prefix subsetD)
      then show False using vis space_runes_first [OF r] by (meson leD)
    qed
  qed
  show "\<forall>r\<in>set space_runes. \<not> suffix r s"
  proof
    fix r :: "byte list" assume r: "r \<in> set space_runes"
    show "\<not> suffix r s"
    proof
      assume "suffix r s"
      then have "last r \<in> set s" using space_runes_first [OF r] by (metis last_in_set set_mono_suffix subsetD)
      then show False using vis space_runes_first [OF r] by (meson leD)
    qed
  qed
qed

text \<open>Blanks around a text go, one at a time; what is no space is where the trimming stops.\<close>

definition blank :: "byte \<Rightarrow> bool" where
  "blank x \<longleftrightarrow> x = 9 \<or> x = 10 \<or> x = 13 \<or> x = 32"

lemma strip_front_cons:
  assumes "[x] \<in> set rs" and "\<forall>r\<in>set rs. r \<noteq> [] \<and> hd r = x \<longrightarrow> r = [x]"
  shows "strip_front rs (x # s) = strip_front rs s"
proof -
  let ?P = "\<lambda>r. r \<noteq> [] \<and> prefix r (x # s)"
  have "?P [x]" by simp
  then have "find ?P rs \<noteq> None" using assms(1) by (auto simp: find_None_iff)
  then obtain r where r: "find ?P rs = Some r" by blast
  then have "?P r" "r \<in> set rs" by (auto simp: find_Some_iff)
  from \<open>?P r\<close> have "hd r = x" by (cases r) auto
  then have "r = [x]" using assms(2) \<open>?P r\<close> \<open>r \<in> set rs\<close> by blast
  then show ?thesis using r by (subst strip_front.simps) simp
qed

lemma strip_front_blanks:
  assumes "\<forall>x\<in>set p. blank x" and "rs = space_runes \<or> rs = map rev space_runes"
  shows "strip_front rs (p @ s) = strip_front rs s"
  using assms(1)
proof (induction p)
  case (Cons x p)
  then have x: "x = 9 \<or> x = 10 \<or> x = 13 \<or> x = 32" by (simp add: blank_def)
  have one: "[x] \<in> set rs" using x assms(2) by (auto simp: space_runes_def)
  have "\<forall>r\<in>set rs. r \<noteq> [] \<and> hd r = x \<longrightarrow> r = [x]"
    using assms(2)
  proof
    assume "rs = space_runes"
    then show ?thesis using x by (auto simp: space_runes_def)
  next
    assume "rs = map rev space_runes"
    then show ?thesis using x by (auto simp: space_runes_def)
  qed
  then have "strip_front rs (x # (p @ s)) = strip_front rs (p @ s)" by (rule strip_front_cons [OF one])
  then show ?case using Cons by simp
qed simp

lemma strip_front_stops:
  assumes "\<forall>r\<in>set rs. c \<notin> set r"
  shows "\<exists>q. strip_front rs (p @ c # s) = q @ c # s"
proof (induction p rule: length_induct)
  case (1 p)
  show ?case
  proof (cases "find (\<lambda>r. r \<noteq> [] \<and> prefix r (p @ c # s)) rs")
    case None
    then have "strip_front rs (p @ c # s) = p @ c # s" by (subst strip_front.simps) simp
    then show ?thesis by blast
  next
    case (Some r)
    then have r: "r \<in> set rs" "r \<noteq> []" "prefix r (p @ c # s)" by (auto simp: find_Some_iff)
    then have "c \<notin> set r" using assms by blast
    then have "prefix r p" using r(3) by (auto simp: prefix_append prefix_Cons)
    then obtain t where p: "p = r @ t" by (auto simp: prefix_def)
    then have "length t < length p" using r(2) by simp
    then obtain q where "strip_front rs (t @ c # s) = q @ c # s" using 1 by blast
    moreover have "strip_front rs (p @ c # s) = strip_front rs (t @ c # s)"
      using Some p by (subst strip_front.simps) simp
    ultimately show ?thesis by metis
  qed
qed

lemma strip_front_visible:
  assumes "32 < x" and "x < 128" and "rs = space_runes \<or> rs = map rev space_runes"
  shows "strip_front rs (x # s) = x # s"
proof (rule strip_front_none, intro ballI impI notI)
  fix r assume r: "r \<in> set rs" "r \<noteq> []" "prefix r (x # s)"
  from r(2,3) have "hd r = x" by (cases r) auto
  moreover have "hd r \<le> 32 \<or> 128 \<le> hd r"
    using r(1) assms(3) by (auto simp: hd_rev simp del: not_le dest!: space_runes_first)
  ultimately show False using assms(1,2) by (meson leD)
qed

lemma TrimSpace_around:
  assumes "\<forall>x\<in>set a. blank x" and "\<forall>x\<in>set b. blank x" and "\<forall>x\<in>set w. 32 < x \<and> x < 128"
  shows "TrimSpace (a @ w @ b) = w"
proof (cases w)
  case Nil
  have "strip_front space_runes ((a @ b) @ []) = strip_front space_runes []"
    by (rule strip_front_blanks) (use assms in auto)
  moreover have "strip_front rs [] = []" for rs by (rule strip_front_none) simp
  ultimately show ?thesis using Nil by (simp add: TrimSpace_def)
next
  case (Cons x t)
  have front: "strip_front space_runes (a @ w @ b) = w @ b"
    using strip_front_blanks [OF assms(1), of space_runes "w @ b"]
      strip_front_visible [of x space_runes "t @ b"] assms(3) Cons by simp
  obtain y u where y: "rev w = y # u" using Cons by (cases "rev w") auto
  then have "y \<in> set w" by (metis list.set_intros(1) set_rev)
  then have "strip_front (map rev space_runes) (rev b @ rev w) = rev w"
    using strip_front_blanks [of "rev b" "map rev space_runes" "rev w"] assms(2)
      strip_front_visible [of y "map rev space_runes" u] assms(3) y by simp
  then show ?thesis using front by (simp add: TrimSpace_def)
qed

text \<open>Trimming keeps what stands between a word and a byte of no space.\<close>

lemma TrimSpace_until:
  assumes "\<forall>x\<in>set a. blank x" and "32 < x" and "x < 128" and c: "\<forall>r\<in>set space_runes. c \<notin> set r"
  shows "\<exists>u. TrimSpace (a @ (x # t) @ c # b) = (x # t) @ c # u"
proof -
  have front: "strip_front space_runes (a @ (x # t) @ c # b) = (x # t) @ c # b"
    using strip_front_blanks [OF assms(1), of space_runes "(x # t) @ c # b"]
      strip_front_visible [OF assms(2,3), of space_runes "t @ c # b"] by simp
  have "\<forall>r\<in>set (map rev space_runes). c \<notin> set r" using c by simp
  from strip_front_stops [OF this, of "rev b" "rev (x # t)"]
  obtain q where "strip_front (map rev space_runes) (rev b @ c # rev (x # t)) = q @ c # rev (x # t)" by blast
  then have "TrimSpace (a @ (x # t) @ c # b) = (x # t) @ c # rev q" by (simp only: TrimSpace_def front) simp
  then show ?thesis by blast
qed

text \<open>\<open>strings.ToLower\<close> on visible ASCII bytes.\<close>

definition lower_byte :: "byte \<Rightarrow> byte" where
  "lower_byte c = (if 65 \<le> c \<and> c \<le> 90 then c + 32 else c)"

definition visible :: "byte list \<Rightarrow> bool" where
  "visible s \<longleftrightarrow> list_all (\<lambda>x. 32 < x \<and> x < 128) s"

locale byte_lowering =
  fixes lower :: "byte list \<Rightarrow> byte list"
  assumes lower_visible: "visible s \<Longrightarrow> lower s = map lower_byte s"
begin

lemma bare_visible:
  assumes "visible ct" and "59 \<notin> set ct" and "ct \<noteq> []"
  shows "bareMediaType lower ct = map lower_byte ct"
proof -
  have trim: "TrimSpace ct = ct" using assms(1) by (intro TrimSpace_visible) (simp add: visible_def list_all_iff)
  have cut: "takeWhile (\<lambda>x. x \<noteq> 59) ct = ct" by (rule takeWhile_all_id) (use assms(2) in auto)
  show ?thesis
    by (simp only: bareMediaType_def trim Let_def cut lower_visible [OF assms(1)] assms(3) if_False)
qed

lemma octet_inert: "\<not> isActiveContentType (bareMediaType lower octetStream)" 
proof -
  have "visible octetStream" "59 \<notin> set octetStream" "octetStream \<noteq> []" by code_simp+
  then have "bareMediaType lower octetStream = map lower_byte octetStream" by (rule bare_visible)
  moreover have "\<not> isActiveContentType (map lower_byte octetStream)" by code_simp
  ultimately show ?thesis by simp
qed

lemma inert: "\<not> isActiveContentType (bareMediaType lower (dp_content_type (neutralizeContentType lower ct)))"
  using octet_inert by (simp add: neutralizeContentType_def Let_def)

end

interpretation ascii_bytes: byte_lowering "map lower_byte"
  by unfold_locales simp

section \<open>What a browser makes of a type\<close>

text \<open>
  The media type a browser reads in a \<open>Content-Type\<close> (MIME Sniffing, 4.4): without blanks around
  it and without its parameters, in small letters; none where it is empty or not visible ASCII. And
  the types whose documents it parses as markup (the HTML and XML MIME types of 4.6), which include
  XHTML and SVG. Independent of the lists of the code.
\<close>

definition essence :: "byte list \<Rightarrow> byte list option" where
  "essence ct =
     (let word = takeWhile (\<lambda>x. x \<noteq> 59) (dropWhile blank ct);
          e = rev (dropWhile blank (rev word))
      in if e \<noteq> [] \<and> visible e then Some (map lower_byte e) else None)"

definition markup_type :: "byte list \<Rightarrow> bool" where
  "markup_type e \<longleftrightarrow>
     e \<in> set [bytes ''text/html'', bytes ''text/xml'', bytes ''application/xml''] \<or> suffix (bytes ''+xml'') e"

lemma takeWhile_rev_split:
  "\<exists>b. (\<forall>x\<in>set b. P x) \<and> s = rev (dropWhile P (rev s)) @ b"
proof (intro exI conjI)
  show "\<forall>x\<in>set (rev (takeWhile P (rev s))). P x" by (auto dest: set_takeWhileD)
  show "s = rev (dropWhile P (rev s)) @ rev (takeWhile P (rev s))"
    by (metis rev_append rev_rev_ident takeWhile_dropWhile_id)
qed

lemma essence_split:
  assumes "essence ct = Some e"
  obtains a w b c where "ct = a @ w @ b @ c" "\<forall>x\<in>set a. blank x" "\<forall>x\<in>set b. blank x" "visible w"
    "w \<noteq> []" "59 \<notin> set w" "c = [] \<or> hd c = 59" "e = map lower_byte w"
proof -
  define r t c where "r = dropWhile blank ct" and "t = takeWhile (\<lambda>x. x \<noteq> 59) r"
    and "c = dropWhile (\<lambda>x. x \<noteq> 59) r"
  define w where "w = rev (dropWhile blank (rev t))"
  from takeWhile_rev_split [where P = blank and s = t]
  obtain b where b: "\<forall>x\<in>set b. blank x" "t = w @ b" unfolding w_def by blast
  have "essence ct = (if w \<noteq> [] \<and> visible w then Some (map lower_byte w) else None)"
    by (simp only: essence_def Let_def w_def t_def r_def)
  then have w: "w \<noteq> []" "visible w" "e = map lower_byte w" using assms by (simp_all split: if_splits)
  have "ct = takeWhile blank ct @ t @ c" by (simp add: r_def t_def c_def)
  then have parts: "ct = takeWhile blank ct @ w @ b @ c" by (simp only: b(2) append.assoc)
  have "59 \<notin> set t" by (auto simp: t_def dest: set_takeWhileD)
  then have "59 \<notin> set w" by (simp only: b(2) set_append Un_iff) blast
  moreover have "c = [] \<or> hd c = 59" using hd_dropWhile [of "\<lambda>x. x \<noteq> 59" r] by (auto simp: c_def)
  moreover have "\<forall>x\<in>set (takeWhile blank ct). blank x" by (auto dest: set_takeWhileD)
  ultimately show ?thesis using that [OF parts] b(1) w by simp
qed

context byte_lowering
begin

text \<open>What the browser reads in a type is what the gateway has judged.\<close>

lemma bare_essence:
  assumes "essence ct = Some e"
  shows "bareMediaType lower ct = e"
  using assms
proof (rule essence_split)
  fix a w b c
  assume ct: "ct = a @ w @ b @ c" and a: "\<forall>x\<in>set a. blank x" and b: "\<forall>x\<in>set b. blank x"
    and w: "visible w" "w \<noteq> []" "59 \<notin> set w" and c: "c = [] \<or> hd c = 59" and e: "e = map lower_byte w"
  have vis: "\<forall>x\<in>set w. 32 < x \<and> x < 128" using w(1) by (simp add: visible_def list_all_iff)
  obtain x t where x: "w = x # t" using w(2) by (cases w) auto
  have word: "TrimSpace (w @ b) = w" using TrimSpace_around [of "[]" b w] b vis by simp
  have "59 \<notin> set b" using b by (auto simp: blank_def)
  then have free: "\<forall>x\<in>set (w @ b). x \<noteq> 59" using w(3) by auto
  have bare: "bareMediaType lower ct = lower w" if "TrimSpace ct = w \<or> (\<exists>u. TrimSpace ct = (w @ b) @ 59 # u)"
    using that
  proof
    assume trim: "TrimSpace ct = w"
    have "takeWhile (\<lambda>x. x \<noteq> 59) w = w" using free by (intro takeWhile_all_id) auto
    moreover have "TrimSpace w = w" using TrimSpace_around [of "[]" "[]" w] vis by simp
    ultimately show ?thesis using w(2) by (simp only: bareMediaType_def Let_def trim if_False)
  next
    assume "\<exists>u. TrimSpace ct = (w @ b) @ 59 # u"
    then obtain u where trim: "TrimSpace ct = (w @ b) @ 59 # u" by blast
    have "takeWhile (\<lambda>x. x \<noteq> 59) ((w @ b) @ 59 # u) = w @ b"
      using free by (subst takeWhile_append2) auto
    then show ?thesis by (simp only: bareMediaType_def Let_def trim word) simp
  qed
  have "TrimSpace ct = w \<or> (\<exists>u. TrimSpace ct = (w @ b) @ 59 # u)"
  proof (cases c)
    case Nil
    then show ?thesis using TrimSpace_around [OF a b vis] ct by simp
  next
    case (Cons y d)
    have "\<forall>r\<in>set space_runes. 59 \<notin> set r" by (simp add: space_runes_def)
    then have "\<exists>u. TrimSpace (a @ (x # (t @ b)) @ 59 # d) = (x # (t @ b)) @ 59 # u"
      using TrimSpace_until [OF a, of x 59 "t @ b" d] vis x by simp
    then show ?thesis using Cons c ct x by simp
  qed
  then have "bareMediaType lower ct = lower w" by (rule bare)
  then show ?thesis using lower_visible [OF w(1)] e by simp
qed

lemma markup_is_active:
  assumes "essence ct = Some e" "markup_type e"
  shows "bareMediaType lower ct \<noteq> []" "isActiveContentType (bareMediaType lower ct)"
proof -
  have e: "bareMediaType lower ct = e" by (rule bare_essence [OF assms(1)])
  show "bareMediaType lower ct \<noteq> []" using assms(2) by (auto simp: e markup_type_def bytes_def)
  show "isActiveContentType (bareMediaType lower ct)"
    using assms(2) by (auto simp: e markup_type_def isActiveContentType_def activeContentTypes_def)
qed

end

section \<open>Properties\<close>

text \<open>
  C36. No object is served as a page: whatever type the storage reports, the type the gateway sends
  is none whose document a browser parses as markup (\<open>text/html\<close>, \<open>text/xml\<close>, \<open>application/xml\<close>
  and every \<open>+xml\<close>, so XHTML and SVG, in any letter case, with any parameters and blanks), and a
  reported type that is one of these is sent as an attachment of type octet-stream. The
  browser's reading of a type is a definition of its own, of one type without a comma.
\<close>

theorem served_type_is_inert:
  assumes "byte_lowering lower"
  shows "(\<forall>e. essence (dp_content_type (neutralizeContentType lower ct)) = Some e \<longrightarrow> \<not> markup_type e) \<and>
    (\<forall>e. essence ct = Some e \<and> markup_type e \<longrightarrow>
       neutralizeContentType lower ct = \<lparr>dp_content_type = octetStream, dp_inline = False\<rparr>)"
proof (intro conjI allI impI notI)
  fix e assume "essence ct = Some e \<and> markup_type e"
  then show "neutralizeContentType lower ct = \<lparr>dp_content_type = octetStream, dp_inline = False\<rparr>"
    using byte_lowering.markup_is_active [OF assms, of ct e] by (simp add: neutralizeContentType_def Let_def)
next
  fix e assume "essence (dp_content_type (neutralizeContentType lower ct)) = Some e" "markup_type e"
  then show False
    using byte_lowering.markup_is_active(2) [OF assms] byte_lowering.inert [OF assms] by blast
qed

theorem served_type_is_inert_witness:
  "essence (bytes '' Image/SVG+xml ; charset=utf-8'') = Some (bytes ''image/svg+xml'') \<and>
   neutralizeContentType (map lower_byte) (bytes '' Image/SVG+xml ; charset=utf-8'') =
     \<lparr>dp_content_type = octetStream, dp_inline = False\<rparr>"
proof -
  have "essence (bytes '' Image/SVG+xml ; charset=utf-8'') = Some (bytes ''image/svg+xml'') \<and>
      markup_type (bytes ''image/svg+xml'')" by code_simp
  then show ?thesis using served_type_is_inert [OF ascii_bytes.byte_lowering_axioms] by blast
qed

text \<open>
  Two types in one value pass, though a browser takes the last of them (Fetch, extracting a MIME type):
  the gateway judges the value as a whole.
\<close>

lemma listed_type_is_served:
  "let ct = bytes ''image/png,text/html''
   in neutralizeContentType (map lower_byte) ct = \<lparr>dp_content_type = ct, dp_inline = True\<rparr> \<and>
      essence (rev (takeWhile (\<lambda>x. x \<noteq> 44) (rev ct))) = Some (bytes ''text/html'') \<and>
      markup_type (bytes ''text/html'')"
  by code_simp

lemma set_path_Base: "set (path_Base p) \<subseteq> insert 46 (insert 47 (set p))"
proof -
  let ?q = "rev (dropWhile (\<lambda>x. x = 47) (rev p))"
  have "set (takeWhile (\<lambda>x. x \<noteq> 47) (rev ?q)) \<subseteq> set p"
    by (metis set_rev rev_rev_ident set_dropWhileD set_takeWhileD subsetI)
  then show ?thesis by (auto simp: path_Base_def Let_def)
qed

text \<open>The bytes after the first one of a character are not ASCII.\<close>

lemma rune_inner: "rune_length s = k \<Longrightarrow> 0 < i \<Longrightarrow> i < k \<Longrightarrow> 0x80 \<le> s ! i"
proof -
  assume k: "rune_length s = k" and i: "0 < i" "i < k"
  have "k \<le> 4" using k by (auto simp: rune_length_def Let_def split: if_splits)
  then have "i = 1 \<or> i = 2 \<or> i = 3" using i by arith
  moreover have "0x80 \<le> y" if "0xA0 \<le> y \<or> 0x90 \<le> y" for y :: byte
    using that by (auto intro: order_trans [rotated])
  ultimately show ?thesis
    using k i by (elim disjE) (auto simp: rune_length_def Let_def split: if_splits intro: order_trans)
qed

lemma rune_tail: "rune_length (x # s) = Suc n \<Longrightarrow> y \<in> set (take n s) \<Longrightarrow> 0x80 \<le> y"
  using rune_inner [of "x # s" "Suc n" "Suc i" for i] by (auto simp: in_set_conv_nth)

lemma high_is_safe: "0x80 \<le> y \<Longrightarrow> \<not> unsafe_rune y"
  using order.strict_trans2 [of y "0x20" "0x80"] by (auto simp: unsafe_rune_def)

lemma set_map_safe: "set (map_safe s) \<subseteq> {x. \<not> unsafe_rune x \<and> (x \<in> set s \<or> x \<in> {0xEF, 0xBF, 0xBD})}"
proof (induction s rule: map_safe.induct)
  case (2 x s)
  have repl: "\<not> unsafe_rune 0xEF" "\<not> unsafe_rune 0xBF" "\<not> unsafe_rune 0xBD" by code_simp+
  show ?case
  proof (cases "rune_length (x # s)")
    case 0
    then show ?thesis using 2(1) repl by auto
  next
    case (Suc n)
    have "\<forall>y\<in>set (take n s). \<not> unsafe_rune y" using rune_tail [OF Suc] high_is_safe by blast
    moreover have "set (map_safe (x # s)) \<subseteq>
        (if unsafe_rune x then {} else insert x (set (take n s))) \<union> set (map_safe (drop n s))"
      using Suc by auto
    ultimately show ?thesis
      using 2(2) [OF Suc] set_take_subset [of n s] set_drop_subset [of n s]
      by (fastforce split: if_splits)
  qed
qed simp

lemma path_Base_no_slash: "47 \<in> set (path_Base p) \<Longrightarrow> path_Base p = [47]"
  by (auto simp: path_Base_def Let_def dest: set_takeWhileD split: if_splits)

text \<open>
  The file name sent with an object cannot leave the quoted header value or name a folder: it is
  never empty and has no quote, backslash or control character, so no line break, and no slash
  unless it is a slash alone, whatever the key.
\<close>

theorem filename_stays_in_header:
  "let name = sanitizeFilename key
   in name \<noteq> [] \<and> 34 \<notin> set name \<and> 92 \<notin> set name \<and> list_all (\<lambda>x. \<not> x < 0x20 \<and> x \<noteq> 0x7f) name \<and>
      (47 \<in> set name \<longrightarrow> name = [47]) \<and> name \<noteq> [46] \<and> name \<noteq> [46, 46]"
proof -
  let ?p = "map (\<lambda>x. if x = 92 then 47 else x) (takeWhile (\<lambda>x. x \<noteq> 13 \<and> x \<noteq> 10) key)"
  define kept where "kept = TrimSpace (map_safe (path_Base ?p))"
  have name: "sanitizeFilename key =
      (if kept = [] \<or> kept = [46] \<or> kept = [46, 46] then bytes ''download'' else kept)"
    unfolding sanitizeFilename_def Let_def kept_def by (rule refl)
  have "92 \<notin> set (path_Base ?p)" using set_path_Base [of ?p] by auto
  moreover have sub: "set kept \<subseteq> {x. \<not> unsafe_rune x \<and> (x \<in> set (path_Base ?p) \<or> x \<in> {0xEF, 0xBF, 0xBD})}"
    using set_TrimSpace [of "map_safe (path_Base ?p)"] set_map_safe [of "path_Base ?p"] by (auto simp: kept_def)
  ultimately have chars: "\<forall>x\<in>set kept. x \<noteq> 92 \<and> \<not> unsafe_rune x" by fastforce
  have single: "kept = [47]" if "47 \<in> set kept"
  proof -
    have "path_Base ?p = [47]" using that sub path_Base_no_slash by fastforce
    moreover have "map_safe [47] = [47]" by code_simp
    moreover have "TrimSpace [47] = [47]" by (rule TrimSpace_visible) simp
    ultimately show ?thesis unfolding kept_def by simp
  qed
  show ?thesis
  proof (cases "kept = [] \<or> kept = [46] \<or> kept = [46, 46]")
    case True
    then have "sanitizeFilename key = bytes ''download''" unfolding name by (rule if_P)
    then show ?thesis by (simp add: bytes_def)
  next
    case False
    then have "sanitizeFilename key = kept" unfolding name by (rule if_not_P)
    then show ?thesis using chars False single by (auto simp: list_all_iff unsafe_rune_def)
  qed
qed

theorem filename_stays_in_header_witness:
  "(47 :: byte) \<in> set (sanitizeFilename (bytes ''///'')) \<and> sanitizeFilename (bytes ''///'') = [47]"
proof -
  have "(47 :: byte) \<in> set (sanitizeFilename (bytes ''///''))" by code_simp
  then show ?thesis using filename_stays_in_header [of "bytes ''///''"] unfolding Let_def by blast
qed

end
