(* ===== verification/Storage.thy ===== *)
theory Storage
  imports Api_Client "HOL-Library.List_Lexorder"
begin

text \<open>
  The object storage behind the gateway: the operations of \<open>internal/webui/backend.go\<close> as a
  record of functions on a state that is not looked into (a call that fails gives \<open>None\<close>), what
  the documentation of S3 promises of them as the locale \<open>s3_storage\<close>, and a storage in memory
  that keeps the promises, for the witnesses.
\<close>

section \<open>The interface\<close>

type_synonym gostr = "byte list"

record s3_entry =
  ent_key :: "gostr option"
  ent_size :: "int option"
  ent_modified :: "gostr option"
  ent_etag :: "gostr option"

record s3_page =
  pg_contents :: "s3_entry list"
  pg_common :: "gostr option list"
  pg_next :: "gostr option"
  pg_truncated :: "bool option"

record 'body s3_object =
  ob_body :: 'body
  ob_type :: "gostr option"
  ob_length :: "int option"
  ob_etag :: "gostr option"
  ob_modified :: "gostr option"

record 'body s3_upload =
  upl_body :: 'body
  upl_type :: gostr
  upl_length :: "int option"

text \<open>Bucket, prefix, delimiter, continuation token and the maximal number of keys of a listing.\<close>

record ('st, 'body) s3_backend =
  be_buckets :: "'st \<Rightarrow> gostr option list option"
  be_list :: "'st \<Rightarrow> gostr \<Rightarrow> gostr \<Rightarrow> gostr \<Rightarrow> gostr \<Rightarrow> int \<Rightarrow> s3_page option"
  be_get :: "'st \<Rightarrow> gostr \<Rightarrow> gostr \<Rightarrow> 'body s3_object option"
  be_head :: "'st \<Rightarrow> gostr \<Rightarrow> gostr \<Rightarrow> 'body s3_object option"
  be_put :: "'st \<Rightarrow> gostr \<Rightarrow> gostr \<Rightarrow> 'body s3_upload \<Rightarrow> 'st option"
  be_delete :: "'st \<Rightarrow> gostr \<Rightarrow> gostr \<Rightarrow> 'st option"

section \<open>What S3 promises\<close>

text \<open>
  A key lies directly below a prefix when no slash follows; the others are grouped by the part up
  to the first slash after the prefix.
\<close>

definition below :: "gostr \<Rightarrow> gostr \<Rightarrow> bool" where
  "below pfx k \<longleftrightarrow> prefix pfx k \<and> 47 \<notin> set (drop (length pfx) k)"

definition grouped :: "gostr \<Rightarrow> gostr \<Rightarrow> bool" where
  "grouped pfx k \<longleftrightarrow> prefix pfx k \<and> 47 \<in> set (drop (length pfx) k)"

definition common_prefix :: "gostr \<Rightarrow> gostr \<Rightarrow> gostr" where
  "common_prefix pfx k = pfx @ takeWhile (\<lambda>c. c \<noteq> 47) (drop (length pfx) k) @ [47]"

text \<open>The pages a listing hands out, each page naming the token of the next, which is a text.\<close>

fun storage_pages :: "(gostr \<Rightarrow> s3_page option) \<Rightarrow> gostr \<Rightarrow> s3_page list \<Rightarrow> bool" where
  "storage_pages lst tok [] = False"
| "storage_pages lst tok [pg] = (lst tok = Some pg \<and> pg_next pg = None)"
| "storage_pages lst tok (pg # pg' # pgs) =
     (lst tok = Some pg \<and>
      (\<exists>t. t \<noteq> [] \<and> (\<exists>x. utf8_bytes x = Some t) \<and> pg_next pg = Some t \<and> storage_pages lst t (pg' # pgs)))"

definition keys_listed :: "s3_page list \<Rightarrow> gostr option list" where
  "keys_listed pgs = concat (map (\<lambda>pg. map ent_key (pg_contents pg)) pgs)"

definition prefixes_listed :: "s3_page list \<Rightarrow> gostr option list" where
  "prefixes_listed pgs = concat (map pg_common pgs)"

locale s3_storage =
  fixes be :: "('st, 'body) s3_backend"
    and contents :: "'st \<Rightarrow> gostr \<Rightarrow> gostr \<Rightarrow> 'body s3_upload option"
  assumes put_stores: "be_put be st b k u = Some st' \<Longrightarrow> contents st' = (contents st)(b := (contents st b)(k \<mapsto> u))"
    and delete_removes: "be_delete be st b k = Some st' \<Longrightarrow> contents st' = (contents st)(b := (contents st b)(k := None))"
    and get_reads: "be_get be st b k = Some ob \<Longrightarrow> \<exists>u. contents st b k = Some u \<and> ob_body ob = upl_body u"
    and list_pages: "0 < n \<Longrightarrow> \<exists>pgs ks ps.
      storage_pages (\<lambda>tok. be_list be st b pfx [47] tok n) [] pgs \<and>
      keys_listed pgs = map Some ks \<and> distinct ks \<and> set ks = {k. contents st b k \<noteq> None \<and> below pfx k} \<and>
      prefixes_listed pgs = map Some ps \<and> distinct ps \<and>
      set ps = common_prefix pfx ` {k. contents st b k \<noteq> None \<and> grouped pfx k}"

text \<open>A storage that is up: no change is refused.\<close>

locale reliable_storage = s3_storage be contents
  for be :: "('st, 'body) s3_backend" and contents :: "'st \<Rightarrow> gostr \<Rightarrow> gostr \<Rightarrow> 'body s3_upload option" +
  assumes put_succeeds: "be_put be st b k u \<noteq> None"
    and delete_succeeds: "be_delete be st b k \<noteq> None"

section \<open>A storage in memory\<close>

type_synonym 'body memory = "((gostr \<times> gostr) \<times> 'body s3_upload) list"

definition mem_contents :: "'body memory \<Rightarrow> gostr \<Rightarrow> gostr \<Rightarrow> 'body s3_upload option" where
  "mem_contents st b k = map_of st (b, k)"

definition mem_keys :: "'body memory \<Rightarrow> gostr \<Rightarrow> gostr list" where
  "mem_keys st b = sort (remdups (map (snd \<circ> fst) (filter (\<lambda>e. fst (fst e) = b) st)))"

definition mem_entries :: "'body memory \<Rightarrow> gostr \<Rightarrow> gostr \<Rightarrow> gostr \<Rightarrow> (gostr + gostr) list" where
  "mem_entries st b pfx delim =
     (let ks = filter (prefix pfx) (mem_keys st b)
      in if delim = [] then map Inl ks
         else map Inl (filter (below pfx) ks) @ map Inr (remdups (map (common_prefix pfx) (filter (grouped pfx) ks))))"

definition mem_entry :: "'body memory \<Rightarrow> gostr \<Rightarrow> gostr \<Rightarrow> s3_entry" where
  "mem_entry st b k = \<lparr>ent_key = Some k, ent_size = (case mem_contents st b k of Some u \<Rightarrow> upl_length u | None \<Rightarrow> None),
     ent_modified = None, ent_etag = None\<rparr>"

text \<open>The token of a page is as many ones as pages precede it.\<close>

definition mem_page :: "'body memory \<Rightarrow> gostr \<Rightarrow> (gostr + gostr) list \<Rightarrow> nat \<Rightarrow> nat \<Rightarrow> s3_page" where
  "mem_page st b es n i =
     (let chunk = take n (drop (i * n) es)
      in \<lparr>pg_contents = concat (map (\<lambda>e. case e of Inl k \<Rightarrow> [mem_entry st b k] | Inr _ \<Rightarrow> []) chunk),
          pg_common = concat (map (\<lambda>e. case e of Inl _ \<Rightarrow> [] | Inr p \<Rightarrow> [Some p]) chunk),
          pg_next = (if Suc i * n < length es then Some (replicate (Suc i) 49) else None),
          pg_truncated = Some (Suc i * n < length es)\<rparr>)"

definition mem_object :: "'body s3_upload \<Rightarrow> 'body s3_object" where
  "mem_object u = \<lparr>ob_body = upl_body u, ob_type = Some (upl_type u), ob_length = upl_length u, ob_etag = None,
     ob_modified = None\<rparr>"

definition memory_backend :: "('body memory, 'body) s3_backend" where
  "memory_backend =
     \<lparr>be_buckets = (\<lambda>st. Some (map Some (sort (remdups (map (fst \<circ> fst) st))))),
      be_list = (\<lambda>st b pfx delim tok n. Some (mem_page st b (mem_entries st b pfx delim) (nat n) (length tok))),
      be_get = (\<lambda>st b k. map_option mem_object (mem_contents st b k)),
      be_head = (\<lambda>st b k. map_option mem_object (mem_contents st b k)),
      be_put = (\<lambda>st b k u. Some (((b, k), u) # filter (\<lambda>e. fst e \<noteq> (b, k)) st)),
      be_delete = (\<lambda>st b k. Some (filter (\<lambda>e. fst e \<noteq> (b, k)) st))\<rparr>"

lemma mem_keys_set: "set (mem_keys st b) = {k. mem_contents st b k \<noteq> None}" and mem_keys_distinct: "distinct (mem_keys st b)"
  by (force simp: mem_keys_def mem_contents_def map_of_eq_None_iff)+

lemma concat_chunks: "concat (map (\<lambda>i. take n (drop (i * n) es)) [0..<m]) = take (m * n) es"
proof (induction m)
  case (Suc m)
  have "take (Suc m * n) es = take (m * n) es @ take n (drop (m * n) es)"
    using take_add [of "m * n" n es] by (simp add: add.commute)
  then show ?case using Suc by simp
qed simp

lemma ones_utf8: "utf8_bytes (replicate n 49) = Some (replicate n 49)"
proof -
  have "code_points (replicate n 49) = Some (replicate n 49)"
    by (induction n) (simp_all add: is_low_def is_high_def)
  moreover have "concat (map utf8 (replicate n 49)) = replicate n 49"
    by (induction n) (simp_all add: utf8_def byte_of_def)
  ultimately show ?thesis by (simp add: utf8_bytes_def)
qed

lemma pages_from:
  assumes "0 < n" and "i < m" and "length es \<le> m * n" and "m = 1 \<or> (m - 1) * n < length es"
  shows "storage_pages (\<lambda>tok. Some (mem_page st b es n (length tok))) (replicate i 49) (map (mem_page st b es n) [i..<m])"
  using assms(2)
proof (induction "m - Suc i" arbitrary: i)
  case 0
  then have m: "m = Suc i" by simp
  then have "pg_next (mem_page st b es n i) = None" using assms(3) by (simp add: mem_page_def Let_def)
  then show ?case using m by simp
next
  case (Suc d)
  then have i: "Suc i < m" by simp
  have more: "Suc i * n < length es"
  proof -
    have "Suc i * n \<le> (m - 1) * n" using i by (intro mult_le_mono1) simp
    then show ?thesis using assms(4) i by simp
  qed
  have rest: "storage_pages (\<lambda>tok. Some (mem_page st b es n (length tok))) (replicate (Suc i) 49)
      (map (mem_page st b es n) [Suc i..<m])"
    using Suc.hyps(1) [of "Suc i"] Suc.hyps(2) i by (simp del: replicate_Suc)
  have pages: "map (mem_page st b es n) [i..<m] =
      mem_page st b es n i # mem_page st b es n (Suc i) # map (mem_page st b es n) [Suc (Suc i)..<m]"
    using i by (simp add: upt_conv_Cons)
  have next_token: "pg_next (mem_page st b es n i) = Some (replicate (Suc i) 49)"
    using more by (simp add: mem_page_def Let_def)
  show ?case
    unfolding pages storage_pages.simps length_replicate
    using next_token rest i ones_utf8 [of "Suc i"]
    by (auto simp: upt_conv_Cons simp del: upt_Suc replicate_Suc intro!: exI [of _ "replicate (Suc i) 49"])
qed

lemma concat_map_concat: "concat (map f (concat xss)) = concat (map (\<lambda>xs. concat (map f xs)) xss)"
  by (induction xss) simp_all

lemma concat_map_Nil [simp]: "concat (map (\<lambda>x. []) xs) = []"
  by (induction xs) simp_all

lemma mem_lists:
  assumes "0 < n"
  shows "\<exists>pgs. storage_pages (\<lambda>tok. Some (mem_page st b es n (length tok))) [] pgs \<and>
    keys_listed pgs = concat (map (\<lambda>e. case e of Inl k \<Rightarrow> [Some k] | Inr _ \<Rightarrow> []) es) \<and>
    prefixes_listed pgs = concat (map (\<lambda>e. case e of Inl _ \<Rightarrow> [] | Inr p \<Rightarrow> [Some p]) es)"
proof -
  define m where "m = Suc ((length es - 1) div n)"
  have "length es \<le> m * n"
  proof -
    have "length es - 1 < Suc ((length es - 1) div n) * n"
      using assms by (simp add: dividend_less_times_div mult.commute)
    then show ?thesis by (simp add: m_def)
  qed
  moreover have "m = 1 \<or> (m - 1) * n < length es"
  proof (cases "length es = 0")
    case False
    have "(length es - 1) div n * n \<le> length es - 1" by simp
    then have "(length es - 1) div n * n < length es" using False by linarith
    then show ?thesis by (simp add: m_def)
  qed (simp add: m_def)
  ultimately have pages: "storage_pages (\<lambda>tok. Some (mem_page st b es n (length tok))) [] (map (mem_page st b es n) [0..<m])"
    and all: "concat (map (\<lambda>i. take n (drop (i * n) es)) [0..<m]) = es"
    using pages_from [OF assms, of 0 m es st b] by (simp_all add: concat_chunks m_def)
  have by_chunk: "concat (map f es) = concat (map (\<lambda>i. concat (map f (take n (drop (i * n) es)))) [0..<m])" for f :: "_ \<Rightarrow> 'x list"
    using concat_map_concat [of f "map (\<lambda>i. take n (drop (i * n) es)) [0..<m]"] unfolding all by (simp add: comp_def)
  have keys: "map ent_key (pg_contents (mem_page st b es n i)) =
      concat (map (\<lambda>e. case e of Inl k \<Rightarrow> [Some k] | Inr _ \<Rightarrow> []) (take n (drop (i * n) es)))" for i
    by (simp add: mem_page_def Let_def map_concat comp_def mem_entry_def sum.case_distrib cong: sum.case_cong)
  have commons: "pg_common (mem_page st b es n i) =
      concat (map (\<lambda>e. case e of Inl _ \<Rightarrow> [] | Inr p \<Rightarrow> [Some p]) (take n (drop (i * n) es)))" for i
    by (simp add: mem_page_def Let_def)
  have "keys_listed (map (mem_page st b es n) [0..<m]) =
      concat (map (\<lambda>e. case e of Inl k \<Rightarrow> [Some k] | Inr _ \<Rightarrow> []) es)"
    unfolding keys_listed_def map_map comp_def keys by (rule by_chunk [symmetric])
  moreover have "prefixes_listed (map (mem_page st b es n) [0..<m]) =
      concat (map (\<lambda>e. case e of Inl _ \<Rightarrow> [] | Inr p \<Rightarrow> [Some p]) es)"
    unfolding prefixes_listed_def map_map comp_def commons by (rule by_chunk [symmetric])
  ultimately show ?thesis using pages by blast
qed

lemma mem_pages:
  assumes "0 < n"
  shows "\<exists>pgs ks ps.
    storage_pages (\<lambda>tok. be_list memory_backend st b pfx [47] tok n) [] pgs \<and>
    keys_listed pgs = map Some ks \<and> distinct ks \<and> set ks = {k. mem_contents st b k \<noteq> None \<and> below pfx k} \<and>
    prefixes_listed pgs = map Some ps \<and> distinct ps \<and>
    set ps = common_prefix pfx ` {k. mem_contents st b k \<noteq> None \<and> grouped pfx k}"
proof -
  let ?keys = "filter (prefix pfx) (mem_keys st b)"
  let ?ks = "filter (below pfx) ?keys"
  let ?ps = "remdups (map (common_prefix pfx) (filter (grouped pfx) ?keys))"
  have entries: "mem_entries st b pfx [47] = map Inl ?ks @ map Inr ?ps"
    by (simp add: mem_entries_def)
  obtain pgs where "storage_pages (\<lambda>tok. be_list memory_backend st b pfx [47] tok n) [] pgs"
      "keys_listed pgs = map Some ?ks" "prefixes_listed pgs = map Some ?ps"
    using mem_lists [of "nat n" st b "mem_entries st b pfx [47]"] assms
    unfolding entries by (auto simp add: memory_backend_def entries comp_def concat_map_singleton simp del: filter_filter)
  moreover have "set ?ks = {k. mem_contents st b k \<noteq> None \<and> below pfx k}"
    unfolding set_filter mem_keys_set by (auto simp: below_def)
  moreover have "set ?ps = common_prefix pfx ` {k. mem_contents st b k \<noteq> None \<and> grouped pfx k}"
    unfolding set_remdups set_map set_filter mem_keys_set by (auto simp: grouped_def)
  moreover have "distinct ?ks" "distinct ?ps" by (simp_all add: mem_keys_distinct)
  ultimately show ?thesis by (intro exI conjI)
qed

interpretation memory: reliable_storage memory_backend mem_contents
proof
  show "0 < n \<Longrightarrow> \<exists>pgs ks ps.
      storage_pages (\<lambda>tok. be_list memory_backend st b pfx [47] tok n) [] pgs \<and>
      keys_listed pgs = map Some ks \<and> distinct ks \<and> set ks = {k. mem_contents st b k \<noteq> None \<and> below pfx k} \<and>
      prefixes_listed pgs = map Some ps \<and> distinct ps \<and>
      set ps = common_prefix pfx ` {k. mem_contents st b k \<noteq> None \<and> grouped pfx k}"
    for n :: int and st :: "'a memory" and b pfx by (rule mem_pages)
next
  fix st st' :: "'a memory" and b k u
  have other: "map_of (filter (\<lambda>e. fst e \<noteq> (b, k)) st) (c, j) = (if (c, j) = (b, k) then None else map_of st (c, j))"
    for c j by (induction st) auto
  show "be_put memory_backend st b k u = Some st' \<Longrightarrow>
      mem_contents st' = (mem_contents st)(b := (mem_contents st b)(k \<mapsto> u))"
    using other by (auto simp: memory_backend_def mem_contents_def fun_eq_iff)
  show "be_delete memory_backend st b k = Some st' \<Longrightarrow>
      mem_contents st' = (mem_contents st)(b := (mem_contents st b)(k := None))"
    using other by (auto simp: memory_backend_def mem_contents_def fun_eq_iff)
qed (auto simp: memory_backend_def mem_object_def)

end
