(* ===== verification/Gateway.thy ===== *)
theory Gateway
  imports Acl Content_Security Storage
begin

text \<open>
  The gateway's HTTP API as the client meets it: the authentication middleware
  (\<open>internal/webui/auth.go\<close>) and the handlers of buckets and objects (\<open>internal/webui/api.go\<close>,
  \<open>stats.go\<close>). The storage behind it is a parameter, \<open>s3_backend\<close>, and so is verifying a token.
\<close>

section \<open>Requests and replies\<close>

record 'body api_request =
  ar_authorization :: gostr
  ar_cookie :: "gostr option"
  ar_fetch_site :: gostr
  ar_foreign_origin :: "bool option"
  ar_prefix :: gostr
  ar_delimiter :: gostr
  ar_page_token :: gostr
  ar_max_keys :: gostr
  ar_content_type :: gostr
  ar_content_length :: "int option"
  ar_body :: 'body

record object_response =
  or_key :: gostr
  or_size :: int
  or_modified :: gostr
  or_etag :: gostr

datatype 'body api_reply =
  Api_Error nat string string
| Me_Reply gostr "gostr list"
| Buckets_Reply "(gostr \<times> policyGrants) list"
| Stats_Reply gostr int int bool int
| Objects_Reply "object_response list" "gostr list" gostr bool
| Body_Reply disposition gostr "'body s3_object"
| Meta_Reply gostr gostr int gostr gostr
| Status_Reply string gostr

text \<open>The HTTP status of a reply.\<close>

definition reply_status :: "'body api_reply \<Rightarrow> nat" where
  "reply_status r = (case r of Api_Error n _ _ \<Rightarrow> n | _ \<Rightarrow> 200)"

section \<open>Authentication\<close>

text \<open>\<open>extractToken\<close>: the token, and whether it came from the cookie.\<close>

definition extractToken :: "gostr \<Rightarrow> gostr option \<Rightarrow> gostr \<times> bool" where
  "extractToken header cookie =
     (case (if header = [] then None else cut_first [32] header) of
        Some (scheme, rest) \<Rightarrow>
          if map lower_byte scheme = bytes ''bearer'' then (TrimSpace rest, False)
          else (case cookie of Some v \<Rightarrow> if v \<noteq> [] then (v, True) else ([], False) | None \<Rightarrow> ([], False))
      | None \<Rightarrow> (case cookie of Some v \<Rightarrow> if v \<noteq> [] then (v, True) else ([], False) | None \<Rightarrow> ([], False)))"

text \<open>
  \<open>isCrossSiteStateChange\<close>; whether a given \<open>Origin\<close> is foreign or unreadable is an input.
\<close>

definition isCrossSiteStateChange :: "http_method \<Rightarrow> gostr \<Rightarrow> bool option \<Rightarrow> bool" where
  "isCrossSiteStateChange m site foreign =
     (if m = GET \<or> m = HEAD \<or> m = OPTIONS then False
      else if site = bytes ''same-origin'' \<or> site = bytes ''none'' then False
      else if site = bytes ''same-site'' \<or> site = bytes ''cross-site'' then True
      else foreign = Some True)"

text \<open>\<open>AuthMiddlewareWithMapper\<close>: an error, or the user name and groups of the verified token.\<close>

definition authenticate ::
  "(gostr \<Rightarrow> (gostr \<times> gostr list) option) \<Rightarrow> http_method \<Rightarrow> 'body api_request \<Rightarrow>
     (nat \<times> string \<times> string) + (gostr \<times> gostr list)" where
  "authenticate verify m rq =
     (let (token, from_cookie) = extractToken (ar_authorization rq) (ar_cookie rq)
      in if token = [] then Inl (401, ''unauthorized'', ''missing authentication'')
         else if from_cookie \<and> isCrossSiteStateChange m (ar_fetch_site rq) (ar_foreign_origin rq)
         then Inl (403, ''csrf_blocked'', ''cross-site state-changing request rejected'')
         else case verify token of
                None \<Rightarrow> Inl (401, ''invalid_token'', ''token verification failed'')
              | Some user \<Rightarrow> Inr user)"

section \<open>Handlers\<close>

definition deref :: "gostr option \<Rightarrow> gostr" where
  "deref s = (case s of Some v \<Rightarrow> v | None \<Rightarrow> [])"

definition derefInt64 :: "int option \<Rightarrow> int" where
  "derefInt64 v = (case v of Some n \<Rightarrow> n | None \<Rightarrow> 0)"

definition derefTime :: "gostr option \<Rightarrow> gostr" where
  "derefTime t = (case t of Some v \<Rightarrow> v | None \<Rightarrow> bytes ''0001-01-01T00:00:00Z'')"

text \<open>\<open>strings.Trim(s, "\"")\<close>.\<close>

definition trim_quotes :: "gostr \<Rightarrow> gostr" where
  "trim_quotes s = rev (dropWhile (\<lambda>c. c = 34) (rev (dropWhile (\<lambda>c. c = 34) s)))"

text \<open>
  \<open>HandleListBuckets\<close>: the named buckets, and with a wildcard group and a backend every bucket
  the backend reports with the wildcard rights merged in.
\<close>

fun expand_wildcard :: "policyGrants \<Rightarrow> gostr option list \<Rightarrow> perms \<times> gostr list \<Rightarrow> perms \<times> gostr list" where
  "expand_wildcard wild [] acc = acc"
| "expand_wildcard wild (None # bs) acc = expand_wildcard wild bs acc"
| "expand_wildcard wild (Some name # bs) (perms, order) =
     expand_wildcard wild bs
       (merge_perm perms name wild, if perms name = None then order @ [name] else order)"

definition bucket_rows :: "perms \<times> gostr list \<Rightarrow> (gostr \<times> policyGrants) list" where
  "bucket_rows acc = map (\<lambda>n. (n, the (fst acc n))) (sort (snd acc))"

definition HandleListBuckets ::
  "('st, 'body) s3_backend option \<Rightarrow> 'st \<Rightarrow> gostr list \<Rightarrow> 'body api_reply" where
  "HandleListBuckets backend st groups =
     (let named = EffectiveBuckets groups;
          acc = (map_of named, map fst named)
      in case (WildcardGrant groups, backend) of
           ((wild, True), Some be) \<Rightarrow>
             (case be_buckets be st of
                None \<Rightarrow> Api_Error 502 ''upstream_error'' ''failed to list buckets''
              | Some bs \<Rightarrow> Buckets_Reply (bucket_rows (expand_wildcard wild bs acc)))
         | _ \<Rightarrow> Buckets_Reply (bucket_rows acc))"

text \<open>
  The guards every object handler starts with: the names, the groups, the backend, in this order.
\<close>

definition guarded ::
  "bool \<times> string \<Rightarrow> gostr list \<Rightarrow> gostr \<Rightarrow> http_method \<Rightarrow> string \<times> string \<Rightarrow> 'be option \<Rightarrow> ('be \<Rightarrow> 'body api_reply \<times> 'st) \<Rightarrow> 'st \<Rightarrow>
     'body api_reply \<times> 'st" where
  "guarded named groups bucket m denied backend act st =
     (if \<not> fst named then (Api_Error 400 ''bad_request'' (snd named), st)
      else if \<not> CheckAccess groups bucket m then (Api_Error 403 (fst denied) (snd denied), st)
      else case backend of
             None \<Rightarrow> (Api_Error 503 ''backend_unavailable'' ''storage backend is not configured'', st)
           | Some be \<Rightarrow> act be)"

text \<open>\<open>strconv.ParseInt(s, 10, 32)\<close>, with the check on its result, for \<open>max_keys\<close>.\<close>

definition parse_digits :: "gostr \<Rightarrow> int option" where
  "parse_digits s =
     (if s \<noteq> [] \<and> list_all (\<lambda>c. 48 \<le> c \<and> c \<le> 57) s then Some (foldl (\<lambda>n c. 10 * n + (uint c - 48)) 0 s)
      else None)"

definition max_keys :: "gostr \<Rightarrow> int" where
  "max_keys s =
     (case parse_digits (if s \<noteq> [] \<and> hd s = 43 then tl s else s) of
        Some n \<Rightarrow> if 0 < n \<and> n \<le> 1000 then n else 1000
      | None \<Rightarrow> 1000)"

definition object_of_entry :: "s3_entry \<Rightarrow> object_response" where
  "object_of_entry e =
     \<lparr>or_key = deref (ent_key e), or_size = derefInt64 (ent_size e), or_modified = derefTime (ent_modified e),
      or_etag = trim_quotes (deref (ent_etag e))\<rparr>"

definition objects_reply :: "s3_page \<Rightarrow> 'body api_reply" where
  "objects_reply pg =
     Objects_Reply (map object_of_entry (pg_contents pg)) (map the (filter (\<lambda>p. p \<noteq> None) (pg_common pg)))
       (deref (pg_next pg)) (pg_truncated pg = Some True)"

definition HandleListObjects ::
  "('st, 'body) s3_backend option \<Rightarrow> 'st \<Rightarrow> gostr list \<Rightarrow> gostr \<Rightarrow> 'body api_request \<Rightarrow> 'body api_reply \<times> 'st" where
  "HandleListObjects backend st groups bucket rq =
     guarded (bucket \<noteq> [], ''bucket name required'') groups bucket GET (''forbidden'', ''no read access to bucket'') backend
       (\<lambda>be. case be_list be st bucket (ar_prefix rq)
                 (if ar_delimiter rq = [] then [47] else ar_delimiter rq) (ar_page_token rq) (max_keys (ar_max_keys rq)) of
               None \<Rightarrow> (Api_Error 502 ''upstream_error'' ''failed to list objects'', st)
             | Some pg \<Rightarrow> (objects_reply pg, st)) st"

definition HandleGetObject ::
  "(gostr \<Rightarrow> gostr) \<Rightarrow> ('st, 'body) s3_backend option \<Rightarrow> 'st \<Rightarrow> gostr list \<Rightarrow> gostr \<times> gostr \<Rightarrow> 'body api_reply \<times> 'st" where
  "HandleGetObject lower backend st groups names =
     (case names of (bucket, key) \<Rightarrow>
        guarded (bucket \<noteq> [] \<and> key \<noteq> [], ''bucket and key required'') groups bucket GET (''forbidden'', ''no read access'') backend
          (\<lambda>be. case be_get be st bucket key of
                  None \<Rightarrow> (Api_Error 502 ''upstream_error'' ''failed to get object'', st)
                | Some ob \<Rightarrow>
                    (Body_Reply (neutralizeContentType lower (deref (ob_type ob))) (sanitizeFilename key) ob, st)) st)"

definition HandleGetObjectMeta ::
  "('st, 'body) s3_backend option \<Rightarrow> 'st \<Rightarrow> gostr list \<Rightarrow> gostr \<times> gostr \<Rightarrow> 'body api_reply \<times> 'st" where
  "HandleGetObjectMeta backend st groups names =
     (case names of (bucket, key) \<Rightarrow>
        guarded (bucket \<noteq> [] \<and> key \<noteq> [], ''bucket and key required'') groups bucket GET (''forbidden'', ''no read access'') backend
          (\<lambda>be. case be_head be st bucket key of
                  None \<Rightarrow> (Api_Error 502 ''upstream_error'' ''failed to get object metadata'', st)
                | Some ob \<Rightarrow>
                    (Meta_Reply key (deref (ob_type ob)) (derefInt64 (ob_length ob))
                       (trim_quotes (deref (ob_etag ob))) (derefTime (ob_modified ob)), st)) st)"

definition HandlePutObject ::
  "('st, 'body) s3_backend option \<Rightarrow> 'st \<Rightarrow> gostr list \<Rightarrow> gostr \<times> gostr \<Rightarrow> 'body api_request \<Rightarrow> 'body api_reply \<times> 'st" where
  "HandlePutObject backend st groups names rq =
     (case names of (bucket, key) \<Rightarrow>
        guarded (bucket \<noteq> [] \<and> key \<noteq> [], ''bucket and key required'') groups bucket PUT (''write_not_allowed'', ''no write access to bucket'') backend
          (\<lambda>be. case be_put be st bucket key
                    \<lparr>upl_body = ar_body rq,
                     upl_type = (if ar_content_type rq = [] then octetStream else ar_content_type rq),
                     upl_length = ar_content_length rq\<rparr> of
                  None \<Rightarrow> (Api_Error 502 ''upstream_error'' ''failed to upload object'', st)
                | Some st' \<Rightarrow> (Status_Reply ''uploaded'' key, st')) st)"

definition HandleDeleteObject ::
  "('st, 'body) s3_backend option \<Rightarrow> 'st \<Rightarrow> gostr list \<Rightarrow> gostr \<times> gostr \<Rightarrow> 'body api_reply \<times> 'st" where
  "HandleDeleteObject backend st groups names =
     (case names of (bucket, key) \<Rightarrow>
        guarded (bucket \<noteq> [] \<and> key \<noteq> [], ''bucket and key required'') groups bucket DELETE (''write_not_allowed'', ''no delete access to bucket'') backend
          (\<lambda>be. case be_delete be st bucket key of
                  None \<Rightarrow> (Api_Error 502 ''upstream_error'' ''failed to delete object'', st)
                | Some st' \<Rightarrow> (Status_Reply ''deleted'' key, st')) st)"


section \<open>Statistics\<close>

text \<open>
  \<open>computeBucketStats\<close>: at most so many pages of a listing without a delimiter; the count, the
  sum of the sizes, and whether the bucket goes on. Both are \<open>int64\<close>, and their sums wrap around.
\<close>

definition add_int64 :: "int \<Rightarrow> int \<Rightarrow> int" where
  "add_int64 a b = sint (word_of_int (a + b) :: 64 word)"

definition count_object :: "s3_entry \<Rightarrow> int \<times> int \<Rightarrow> int \<times> int" where
  "count_object e acc = (add_int64 (fst acc) 1, add_int64 (snd acc) (derefInt64 (ent_size e)))"

fun stats_walk ::
  "('st, 'body) s3_backend \<Rightarrow> 'st \<Rightarrow> gostr \<Rightarrow> nat \<Rightarrow> gostr \<Rightarrow> int \<times> int \<Rightarrow> (int \<times> int \<times> bool) option" where
  "stats_walk be st bucket 0 token acc = Some (fst acc, snd acc, True)"
| "stats_walk be st bucket (Suc pages) token acc =
     (case be_list be st bucket [] [] token 1000 of
        None \<Rightarrow> None
      | Some pg \<Rightarrow>
          (let acc' = fold count_object (pg_contents pg) acc
           in if pg_truncated pg \<noteq> Some True \<or> pg_next pg = None then Some (fst acc', snd acc', False)
              else stats_walk be st bucket pages (deref (pg_next pg)) acc'))"

text \<open>No total wraps as long as the true ones fit.\<close>

lemma add_int64_exact: "- (2 ^ 63) \<le> a + b \<Longrightarrow> a + b < 2 ^ 63 \<Longrightarrow> add_int64 a b = a + b"
  by (simp add: add_int64_def sint_sbintrunc' signed_take_bit_int_eq_self del: of_int_add)

lemma count_objects_exact:
  assumes "\<forall>e\<in>set es. 0 \<le> derefInt64 (ent_size e)" and "0 \<le> n" and "0 \<le> z"
    and "n + int (length es) < 2 ^ 63" and "z + (\<Sum>e\<leftarrow>es. derefInt64 (ent_size e)) < 2 ^ 63"
  shows "fold count_object es (n, z) = (n + int (length es), z + (\<Sum>e\<leftarrow>es. derefInt64 (ent_size e)))"
  using assms
proof (induction es arbitrary: n z)
  case (Cons e es)
  have "0 \<le> (\<Sum>e\<leftarrow>es. derefInt64 (ent_size e))" using Cons.prems(1) by (intro sum_list_nonneg) auto
  then have "count_object e (n, z) = (n + 1, z + derefInt64 (ent_size e))"
    using Cons.prems by (simp add: count_object_def add_int64_exact)
  then show ?case using Cons.IH [of "n + 1" "z + derefInt64 (ent_size e)"] Cons.prems by (simp add: ac_simps)
qed simp

definition statsMaxPages :: nat where "statsMaxPages = 50"

definition quotaFor :: "(gostr \<rightharpoonup> int) \<Rightarrow> gostr \<Rightarrow> int" where
  "quotaFor quotas bucket =
     (case quotas bucket of
        Some q \<Rightarrow> q
      | None \<Rightarrow> (case quotas (bytes ''*'') of Some q \<Rightarrow> q | None \<Rightarrow> 0))"

definition computeBucketStats ::
  "('st, 'body) s3_backend \<Rightarrow> 'st \<Rightarrow> (gostr \<rightharpoonup> int) \<Rightarrow> gostr \<Rightarrow> 'body api_reply option" where
  "computeBucketStats be st quotas bucket =
     (case stats_walk be st bucket statsMaxPages [] (0, 0) of
        None \<Rightarrow> None
      | Some (n, sz, truncated) \<Rightarrow> Some (Stats_Reply bucket n sz truncated (quotaFor quotas bucket)))"

text \<open>
  \<open>HandleBucketStats\<close> for requests that do not overlap: a result is kept for five minutes (the
  time is in seconds), a failure is not kept.
\<close>

type_synonym 'body stats_cache = "gostr \<rightharpoonup> 'body api_reply \<times> int"

definition HandleBucketStats ::
  "('st, 'body) s3_backend option \<Rightarrow> 'st \<Rightarrow> (gostr \<rightharpoonup> int) \<Rightarrow> gostr list \<Rightarrow> gostr \<Rightarrow> int \<Rightarrow> 'body stats_cache \<Rightarrow>
     'body api_reply \<times> 'body stats_cache" where
  "HandleBucketStats backend st quotas groups bucket now cache =
     guarded (bucket \<noteq> [], ''bucket name required'') groups bucket GET (''forbidden'', ''no read access to bucket'') backend
       (\<lambda>be. let compute = (case computeBucketStats be st quotas bucket of
                               None \<Rightarrow> (Api_Error 502 ''upstream_error'' ''failed to compute bucket stats'', cache)
                             | Some r \<Rightarrow> (r, cache(bucket \<mapsto> (r, now))))
             in case cache bucket of
                  Some (r, fetched) \<Rightarrow> if now - fetched < 300 then (r, cache) else compute
                | None \<Rightarrow> compute) cache"

section \<open>Serving a request\<close>

text \<open>
  What the handler behind the middleware answers, and the storage after it; \<open>None\<close> for the
  routes of the sign-in, which are not behind it, and for the statistics, which have a cache.
\<close>

definition serve ::
  "(gostr \<Rightarrow> gostr) \<Rightarrow> (gostr \<Rightarrow> (gostr \<times> gostr list) option) \<Rightarrow> ('st, 'body) s3_backend option \<Rightarrow>
     http_method \<Rightarrow> route \<Rightarrow> path_values \<Rightarrow> gostr \<Rightarrow> 'body api_request \<Rightarrow> 'st \<Rightarrow> ('body api_reply \<times> 'st) option" where
  "serve lower verify backend m r vs path rq st =
     (if r \<in> {Auth_Login, Auth_Callback, Auth_Logout, Bucket_Stats} then None
      else
        Some
          (case authenticate verify m rq of
             Inl (status, code, msg) \<Rightarrow> (Api_Error status code msg, st)
           | Inr (user, groups) \<Rightarrow>
               (case r of
                  Auth_Me \<Rightarrow> (Me_Reply user groups, st)
                | List_Buckets \<Rightarrow> (HandleListBuckets backend st groups, st)
                | List_Objects \<Rightarrow> HandleListObjects backend st groups (bucketFromRequest vs path) rq
                | Get_Object \<Rightarrow> HandleGetObject lower backend st groups (bucketAndKeyFromRequest vs path)
                | Get_Object_Meta \<Rightarrow> HandleGetObjectMeta backend st groups (bucketAndKeyMetaFromRequest vs path)
                | Put_Object \<Rightarrow> HandlePutObject backend st groups (bucketAndKeyFromRequest vs path) rq
                | Delete_Object \<Rightarrow> HandleDeleteObject backend st groups (bucketAndKeyFromRequest vs path)
                | _ \<Rightarrow> (Api_Error 404 [] [], st))))"


section \<open>Lemmas on the listing of buckets\<close>

lemma expand_wildcard_listed:
  assumes "right sel"
  shows "sel (listed (fst (expand_wildcard wild bs acc)) b) \<longleftrightarrow>
    sel (listed (fst acc) b) \<or> Some b \<in> set bs \<and> sel wild"
  using assms
  by (induction wild bs acc rule: expand_wildcard.induct) (auto simp: right_def listed_merge)

lemma expand_wildcard_names: "names_of acc \<Longrightarrow> names_of (expand_wildcard wild bs acc)"
proof (induction wild bs acc rule: expand_wildcard.induct)
  case (3 wild name bs perms order)
  then show ?case using names_of_merge [OF "3.prems"] by simp
qed simp_all

lemma expand_wildcard_dom:
  "fst (expand_wildcard wild bs acc) b = None \<longleftrightarrow> fst acc b = None \<and> Some b \<notin> set bs"
  by (induction wild bs acc rule: expand_wildcard.induct) (auto simp: merge_perm_def)

lemma map_of_graph: "map_of (map (\<lambda>n. (n, the (m n))) ns) b = (if b \<in> set ns then Some (the (m b)) else None)"
  by (induction ns) auto

text \<open>The table a listing starts from is the one \<open>EffectiveBuckets\<close> was made of.\<close>

lemma effective_table:
  assumes "effective_loop groups (Map.empty, []) = acc"
  shows "map_of (EffectiveBuckets groups) = fst acc" 
    and "names_of (map_of (EffectiveBuckets groups), map fst (EffectiveBuckets groups))"
proof -
  have "names_of (Map.empty, [])" by (simp add: names_of_def)
  then have names: "names_of acc" using effective_loop_names assms by blast
  have rows: "EffectiveBuckets groups = map (\<lambda>n. (n, the (fst acc n))) (sort (snd acc))"
    using assms by (simp add: EffectiveBuckets_def case_prod_beta)
  show "map_of (EffectiveBuckets groups) = fst acc"
    unfolding rows using names by (auto simp: map_of_graph names_of_def fun_eq_iff domIff)
  then show "names_of (map_of (EffectiveBuckets groups), map fst (EffectiveBuckets groups))"
    using names by (simp add: names_of_def rows comp_def)
qed

lemma effective_listed:
  assumes "right sel" and "b \<noteq> WildcardBucket"
  shows "sel (listed (map_of (EffectiveBuckets groups)) b) \<longleftrightarrow> granted False groups b sel"
  using effective_loop_granted [OF assms, of groups Map.empty "[]"] effective_table(1) [OF refl, of groups] assms(1)
  by (simp add: listed_def right_def)

lemma effective_in:
  "map_of (EffectiveBuckets groups) b = None \<longleftrightarrow> b = WildcardBucket \<or> \<not> granted False groups b (\<lambda>_. True)"
  using effective_loop_dom [of groups Map.empty "[]" b] effective_table(1) [OF refl, of groups] by simp

lemma bucket_rows_facts:
  assumes "names_of acc"
  shows "sorted (map fst (bucket_rows acc))" and "distinct (map fst (bucket_rows acc))"
    and "b \<in> fst ` set (bucket_rows acc) \<longleftrightarrow> fst acc b \<noteq> None"
    and "(b, g) \<in> set (bucket_rows acc) \<Longrightarrow> g = listed (fst acc) b"
  using assms by (auto simp: bucket_rows_def names_of_def comp_def listed_def image_image)

lemma granted_split:
  "granted True groups b sel \<longleftrightarrow> granted False groups b sel \<or> granted True groups WildcardBucket sel"
  by (induction groups) (auto simp: covers_def split: option.splits)

lemma granted_mono: "granted w groups b sel \<Longrightarrow> granted w groups b (\<lambda>_. True)"
  by (induction groups) (auto split: option.splits)

lemma granted_wild: "granted w groups WildcardBucket sel \<longleftrightarrow> granted True groups WildcardBucket sel"
  by (induction groups) (auto simp: covers_def split: option.splits)

text \<open>The table behind a listing of buckets, with what the backend reported for a wildcard.\<close>

definition listing_table :: "gostr list \<Rightarrow> gostr option list \<Rightarrow> perms \<times> gostr list" where
  "listing_table groups bs =
     (let named = EffectiveBuckets groups
      in if snd (WildcardGrant groups)
         then expand_wildcard (fst (WildcardGrant groups)) bs (map_of named, map fst named)
         else (map_of named, map fst named))"

lemma HandleListBuckets_reply:
  assumes "HandleListBuckets backend st groups = Buckets_Reply rows"
  shows "\<exists>bs. rows = bucket_rows (listing_table groups bs) \<and>
    (snd (WildcardGrant groups) \<longrightarrow>
       (case backend of Some be \<Rightarrow> be_buckets be st = Some bs | None \<Rightarrow> bs = []))"
proof (cases "snd (WildcardGrant groups)")
  case False
  then show ?thesis
    using assms by (cases "WildcardGrant groups")
      (auto simp: HandleListBuckets_def listing_table_def Let_def split: option.splits)
next
  case True
  then obtain wild where w: "WildcardGrant groups = (wild, True)" by (cases "WildcardGrant groups") auto
  show ?thesis
  proof (cases backend)
    case None
    then show ?thesis using assms w
      by (auto simp: HandleListBuckets_def listing_table_def Let_def intro!: exI [of _ "[]"])
  next
    case (Some be)
    then show ?thesis using assms w
      by (auto simp: HandleListBuckets_def listing_table_def Let_def split: option.splits)
  qed
qed

lemma listing_table_names: "names_of (listing_table groups bs)"
  using effective_table(2) [OF refl, of groups] expand_wildcard_names
  by (simp add: listing_table_def Let_def)

lemma listing_table_rights:
  assumes "right sel" and "b \<noteq> WildcardBucket"
  shows "sel (listed (fst (listing_table groups bs)) b) \<longleftrightarrow>
    granted False groups b sel \<or> Some b \<in> set bs \<and> granted True groups WildcardBucket sel"
proof (cases "snd (WildcardGrant groups)")
  case True
  then show ?thesis
    using assms by (simp add: listing_table_def Let_def expand_wildcard_listed effective_listed WildcardGrant_granted)
next
  case False
  then have "\<not> granted True groups WildcardBucket sel"
    using wildcard_found [of no_grants False groups] granted_mono by (auto simp: WildcardGrant_def)
  then show ?thesis using False assms by (simp add: listing_table_def Let_def effective_listed)
qed

lemma listing_table_in:
  assumes "b \<noteq> WildcardBucket"
  shows "fst (listing_table groups bs) b \<noteq> None \<longleftrightarrow>
    granted False groups b (\<lambda>_. True) \<or> Some b \<in> set bs \<and> granted True groups WildcardBucket (\<lambda>_. True)"
  using assms wildcard_found [of no_grants False groups]
  by (auto simp: listing_table_def Let_def expand_wildcard_dom effective_in WildcardGrant_def simp del: not_None_eq)

section \<open>Properties\<close>

text \<open>
  C12. The rights listed for a bucket are the rights requests are checked for. A listing is sorted
  and names each bucket once; a right shown for a bucket is granted on every request of its
  method; and for a bucket the storage reports, or with no wildcard group, a right not shown is
  refused and a bucket not listed gives no right at all.
\<close>

theorem listed_rights_are_granted:
  assumes "HandleListBuckets (Some be) st groups = Buckets_Reply rows" and "b \<noteq> WildcardBucket"
  shows "sorted (map fst rows) \<and> distinct (map fst rows) \<and>
    (\<forall>g m. (b, g) \<in> set rows \<longrightarrow> methodGranted g m \<longrightarrow> CheckAccess groups b m) \<and>
    (be_buckets be st = Some bs \<and> Some b \<in> set bs \<or> \<not> snd (WildcardGrant groups) \<longrightarrow>
       (\<forall>g m. (b, g) \<in> set rows \<longrightarrow> (methodGranted g m \<longleftrightarrow> CheckAccess groups b m)) \<and>
       (b \<notin> fst ` set rows \<longrightarrow> (\<forall>m. \<not> CheckAccess groups b m)))"
proof -
  obtain bs' where rows: "rows = bucket_rows (listing_table groups bs')"
      and wild: "snd (WildcardGrant groups) \<longrightarrow> be_buckets be st = Some bs'"
    using HandleListBuckets_reply [OF assms(1)] by auto
  note facts = bucket_rows_facts [OF listing_table_names [of groups bs']]
  have shown: "methodGranted g m \<longleftrightarrow>
      granted False groups b (\<lambda>p. methodGranted p m) \<or>
      Some b \<in> set bs' \<and> granted True groups WildcardBucket (\<lambda>p. methodGranted p m)"
    if "(b, g) \<in> set rows" for g m
    using listing_table_rights [OF method_right assms(2), of groups bs' m] facts(4) [of b g] that
    by (simp add: rows)
  have absent: "\<not> granted False groups b sel \<and> (Some b \<in> set bs' \<longrightarrow> \<not> granted True groups WildcardBucket sel)"
    if "b \<notin> fst ` set rows" for sel
    using that listing_table_in [OF assms(2), of groups bs'] facts(3) [of b] granted_mono
    unfolding rows by blast
  have no_wild: "\<not> granted True groups WildcardBucket sel" if "\<not> snd (WildcardGrant groups)" for sel
    using that wildcard_found [of no_grants False groups] granted_mono by (auto simp: WildcardGrant_def)
  have access: "CheckAccess groups b m \<longleftrightarrow> granted False groups b (\<lambda>p. methodGranted p m) \<or>
      granted True groups WildcardBucket (\<lambda>p. methodGranted p m)" for m
    unfolding CheckAccess_granted by (rule granted_split)
  have reached: "Some b \<in> set bs'"
    if "be_buckets be st = Some bs \<and> Some b \<in> set bs \<or> \<not> snd (WildcardGrant groups)"
      and "granted True groups WildcardBucket sel" for sel
    using that no_wild wild by auto
  show ?thesis
  proof (intro conjI impI allI)
    show "sorted (map fst rows)" "distinct (map fst rows)" using facts(1,2) by (simp_all add: rows)
  next
    fix g m
    assume "(b, g) \<in> set rows" and "methodGranted g m"
    then show "CheckAccess groups b m" using shown access by blast
  next
    fix g m
    assume "be_buckets be st = Some bs \<and> Some b \<in> set bs \<or> \<not> snd (WildcardGrant groups)"
      and "(b, g) \<in> set rows"
    then show "methodGranted g m \<longleftrightarrow> CheckAccess groups b m" using shown access reached by blast
  next
    fix m
    assume "be_buckets be st = Some bs \<and> Some b \<in> set bs \<or> \<not> snd (WildcardGrant groups)"
      and "b \<notin> fst ` set rows"
    then show "\<not> CheckAccess groups b m" using absent access reached by blast
  qed
qed


theorem listed_rights_are_granted_witness:
  "CheckAccess [bytes ''/a-wo'', bytes ''nonsense''] (bytes ''a'') PUT \<and>
   \<not> CheckAccess [bytes ''/a-wo'', bytes ''nonsense''] (bytes ''a'') DELETE"
proof -
  let ?gs = "[bytes ''/a-wo'', bytes ''nonsense'']"
  let ?rows = "[(bytes ''a'', \<lparr>grant_read = False, grant_write = True, grant_delete = False\<rparr>)]"
  let ?st = "[] :: unit memory"
  have reply: "HandleListBuckets (Some memory_backend) ?st ?gs = Buckets_Reply ?rows" by code_simp
  have "bytes ''a'' \<noteq> WildcardBucket" "\<not> snd (WildcardGrant ?gs)" by code_simp+
  from listed_rights_are_granted [OF reply this(1), of "[]"] this(2)
  have all: "methodGranted \<lparr>grant_read = False, grant_write = True, grant_delete = False\<rparr> m \<longleftrightarrow>
      CheckAccess ?gs (bytes ''a'') m" for m by simp
  show ?thesis using all [of PUT] all [of DELETE] by simp
qed

text \<open>
  The token a request carries, apart from the code, and whether a browser has added it by itself: a
  header that begins with \<open>Bearer\<close>, in any letter case, and a space has the token after it, and
  with any other header it is the cookie.
\<close>

definition request_token :: "'body api_request \<Rightarrow> gostr \<times> bool" where
  "request_token rq =
     (if map lower_byte (take 7 (ar_authorization rq)) = bytes ''bearer ''
      then (TrimSpace (drop 7 (ar_authorization rq)), False)
      else (deref (ar_cookie rq), True))"

lemma lower_byte_space: "lower_byte x = 32 \<longleftrightarrow> x = 32"
proof (cases "65 \<le> x \<and> x \<le> 90")
  case True
  then have "lower_byte x = x + 32" by (simp add: lower_byte_def)
  then show ?thesis using True by auto
next
  case False
  then show ?thesis by (simp only: lower_byte_def if_False)
qed

lemma cut_first_byte: "cut_first [c] h = Some (a, r) \<longleftrightarrow> h = a @ c # r \<and> c \<notin> set a"
proof (induction h arbitrary: a)
  case (Cons b h)
  show ?case using Cons.IH [of "tl a"] by (cases a) auto
qed simp

lemma bearer_header:
  assumes "map lower_byte (take 7 h) = bytes ''bearer ''"
  obtains p where "cut_first [32] h = Some (p, drop 7 h)" "map lower_byte p = bytes ''bearer''"
proof -
  have "length (take 7 h) = 7" using arg_cong [OF assms, of length] by (simp add: bytes_def)
  then obtain p x where p: "take 7 h = p @ [x]" by (metis length_0_conv rev_exhaust zero_neq_numeral)
  then have "map lower_byte p = bytes ''bearer''" "lower_byte x = 32" using assms by (simp_all add: bytes_def)
  moreover have "32 \<notin> set p"
  proof
    assume "32 \<in> set p"
    then have "lower_byte 32 \<in> set (map lower_byte p)" by simp
    then show False unfolding calculation(1) by (simp add: bytes_def lower_byte_def)
  qed
  moreover have "h = p @ [x] @ drop 7 h" by (metis p append.assoc append_take_drop_id)
  ultimately show ?thesis using that [of p] by (simp add: cut_first_byte lower_byte_space)
qed

lemma bearer_word:
  assumes "cut_first [32] h = Some (p, r)" and "map lower_byte p = bytes ''bearer''"
  shows "map lower_byte (take 7 h) = bytes ''bearer ''" and "drop 7 h = r"
proof -
  have h: "h = p @ 32 # r" using assms(1) by (simp add: cut_first_byte)
  have "length p = 6" using arg_cong [OF assms(2), of length] by (simp add: bytes_def)
  then show "map lower_byte (take 7 h) = bytes ''bearer ''" "drop 7 h = r"
    using assms(2) by (simp_all add: h) (simp add: bytes_def lower_byte_def)
qed

lemma extracted_token:
  assumes "extractToken (ar_authorization rq) (ar_cookie rq) = (token, from_cookie)" and "token \<noteq> []"
  shows "request_token rq = (token, from_cookie)"
proof (cases "map lower_byte (take 7 (ar_authorization rq)) = bytes ''bearer ''")
  case True
  then have "ar_authorization rq \<noteq> []" by (auto simp: bytes_def)
  moreover obtain p where "cut_first [32] (ar_authorization rq) = Some (p, drop 7 (ar_authorization rq))"
    "map lower_byte p = bytes ''bearer''" using bearer_header [OF True] .
  ultimately show ?thesis using assms(1) True by (simp add: extractToken_def request_token_def)
next
  case False
  then have "\<not> (\<exists>p r. cut_first [32] (ar_authorization rq) = Some (p, r) \<and> map lower_byte p = bytes ''bearer'')"
    using bearer_word(1) by blast
  then show ?thesis
    using assms False by (auto simp: extractToken_def request_token_def deref_def split: option.splits if_splits)
qed

lemma authenticate_verified:
  assumes "authenticate verify m rq = Inr user"
  shows "\<exists>token ambient. request_token rq = (token, ambient) \<and> token \<noteq> [] \<and> verify token = Some user \<and>
    (ambient \<longrightarrow> \<not> isCrossSiteStateChange m (ar_fetch_site rq) (ar_foreign_origin rq))"
proof -
  obtain token ambient where t: "extractToken (ar_authorization rq) (ar_cookie rq) = (token, ambient)" by fastforce
  then have "token \<noteq> []" "verify token = Some user"
    "ambient \<longrightarrow> \<not> isCrossSiteStateChange m (ar_fetch_site rq) (ar_foreign_origin rq)"
    using assms by (auto simp: authenticate_def split: if_splits option.splits)
  then show ?thesis using extracted_token [OF t] by blast
qed

text \<open>The method whose right a route needs.\<close>

definition needs :: "route \<Rightarrow> http_method" where
  "needs r = (case r of Put_Object \<Rightarrow> PUT | Delete_Object \<Rightarrow> DELETE | _ \<Rightarrow> GET)"

definition names_for :: "route \<Rightarrow> path_values \<Rightarrow> gostr \<Rightarrow> gostr \<times> gostr" where
  "names_for r vs path =
     (if r = Get_Object_Meta then bucketAndKeyMetaFromRequest vs path
      else if r = List_Objects then (bucketFromRequest vs path, [])
      else bucketAndKeyFromRequest vs path)"

abbreviation object_routes :: "route set" where
  "object_routes \<equiv> {List_Objects, Get_Object, Get_Object_Meta, Put_Object, Delete_Object}"

lemma object_handler_effect:
  assumes "r \<in> object_routes" and "authenticate verify m rq = Inr (user, groups)"
    and "serve lower verify backend m r vs path rq st = Some (reply, st')"
    and "reply_status reply = 200 \<or> st' \<noteq> st"
  shows "\<exists>be. backend = Some be \<and> CheckAccess groups (fst (names_for r vs path)) (needs r) \<and>
    (r = Put_Object \<and>
       (\<exists>u. be_put be st (fst (names_for r vs path)) (snd (names_for r vs path)) u = Some st') \<or>
     r = Delete_Object \<and> be_delete be st (fst (names_for r vs path)) (snd (names_for r vs path)) = Some st' \<or>
     r \<notin> {Put_Object, Delete_Object} \<and> st' = st)"
proof -
  have status: "reply_status (Api_Error n c msg) = n" for n c msg by (simp add: reply_status_def)
  consider "r = List_Objects" | "r = Get_Object" | "r = Get_Object_Meta" | "r = Put_Object" | "r = Delete_Object"
    using assms(1) by auto
  then show ?thesis
  proof cases
    case 1
    then show ?thesis using assms(2-4)
      by (auto simp: serve_def names_for_def needs_def HandleListObjects_def guarded_def status
          split: option.splits if_splits)
  next
    case 2
    then show ?thesis using assms(2-4)
      by (auto simp: serve_def names_for_def needs_def HandleGetObject_def guarded_def status
          split: option.splits if_splits prod.splits)
  next
    case 3
    then show ?thesis using assms(2-4)
      by (auto simp: serve_def names_for_def needs_def HandleGetObjectMeta_def guarded_def status
          split: option.splits if_splits prod.splits)
  next
    case 4
    then show ?thesis using assms(2-4)
      by (auto simp: serve_def names_for_def needs_def HandlePutObject_def guarded_def status
          split: option.splits if_splits prod.splits)
  next
    case 5
    then show ?thesis using assms(2-4)
      by (auto simp: serve_def names_for_def needs_def HandleDeleteObject_def guarded_def status
          split: option.splits if_splits prod.splits)
  qed
qed

text \<open>
  C11. The gateway enforces the rights: a request for objects is answered with success, or changes
  the storage, only if the token it carries was verified, the one of its \<open>Bearer\<close> header or else of
  its cookie, and the groups of that token grant the method's right on the very bucket the handler
  works on; a token a browser has added by itself serves a method that changes something only
  where the browser reports no other site; and the storage is changed by a put or a delete only, and
  then by that one call for the bucket and key of the request.
\<close>

theorem gateway_enforces_rights:
  assumes "r \<in> {List_Objects, Get_Object, Get_Object_Meta, Put_Object, Delete_Object}"
    and "serve lower verify backend m r vs path rq st = Some (reply, st')"
    and "reply_status reply = 200 \<or> st' \<noteq> st"
  shows "\<exists>token ambient user groups be. request_token rq = (token, ambient) \<and> token \<noteq> [] \<and>
    verify token = Some (user, groups) \<and> backend = Some be \<and>
    (ambient \<and> m \<notin> {GET, HEAD, OPTIONS} \<longrightarrow>
       ar_fetch_site rq \<notin> {bytes ''same-site'', bytes ''cross-site''} \<and>
       (ar_fetch_site rq \<in> {bytes ''same-origin'', bytes ''none''} \<or> ar_foreign_origin rq \<noteq> Some True)) \<and>
    CheckAccess groups (fst (names_for r vs path)) (needs r) \<and>
    (r = Put_Object \<and>
       (\<exists>u. be_put be st (fst (names_for r vs path)) (snd (names_for r vs path)) u = Some st') \<or>
     r = Delete_Object \<and> be_delete be st (fst (names_for r vs path)) (snd (names_for r vs path)) = Some st' \<or>
     r \<notin> {Put_Object, Delete_Object} \<and> st' = st)"
proof (cases "authenticate verify m rq")
  case (Inl e)
  then have "fst e = 200"
    using assms by (cases e) (auto simp: serve_def reply_status_def)
  then show ?thesis using Inl
    by (auto simp: authenticate_def Let_def split: prod.splits if_splits option.splits)
next
  case (Inr ug)
  obtain user groups where ug: "ug = (user, groups)" by (cases ug)
  obtain token ambient where t: "request_token rq = (token, ambient)" "token \<noteq> []" "verify token = Some (user, groups)"
    and safe: "ambient \<longrightarrow> \<not> isCrossSiteStateChange m (ar_fetch_site rq) (ar_foreign_origin rq)"
    using authenticate_verified [OF Inr] ug by blast
  have "ambient \<and> m \<notin> {GET, HEAD, OPTIONS} \<longrightarrow>
       ar_fetch_site rq \<notin> {bytes ''same-site'', bytes ''cross-site''} \<and>
       (ar_fetch_site rq \<in> {bytes ''same-origin'', bytes ''none''} \<or> ar_foreign_origin rq \<noteq> Some True)"
    using safe by (auto simp: isCrossSiteStateChange_def bytes_inject split: if_splits)
  then show ?thesis
    using t object_handler_effect [OF assms(1) Inr [unfolded ug] assms(2,3)] by blast
qed

definition no_request :: "'body \<Rightarrow> 'body api_request" where
  "no_request body =
     \<lparr>ar_authorization = [], ar_cookie = None, ar_fetch_site = [], ar_foreign_origin = None, ar_prefix = [],
      ar_delimiter = [], ar_page_token = [], ar_max_keys = [], ar_content_type = [], ar_content_length = None,
      ar_body = body\<rparr>"

theorem gateway_enforces_rights_witness:
  "request_token ((no_request ())\<lparr>ar_authorization := bytes ''Bearer t''\<rparr>) = (bytes ''t'', False) \<and>
   CheckAccess [bytes ''a-rw''] (bytes ''a'') PUT"
proof -
  let ?verify = "\<lambda>tok. if tok = bytes ''t'' then Some (bytes ''u'', [bytes ''a-rw'']) else None"
  let ?rq = "(no_request ())\<lparr>ar_authorization := bytes ''Bearer t''\<rparr>"
  let ?vs = "object_values (bytes ''a'') (bytes ''k'')"
  let ?upload = "\<lparr>upl_body = (), upl_type = octetStream, upl_length = None\<rparr>"
  have served: "serve id ?verify (Some memory_backend) PUT Put_Object ?vs [] ?rq [] =
      Some (Status_Reply ''uploaded'' (bytes ''k''), [((bytes ''a'', bytes ''k''), ?upload)])"
    by code_simp
  have names: "fst (names_for Put_Object ?vs []) = bytes ''a''" "needs Put_Object = PUT" by code_simp+
  from gateway_enforces_rights [OF _ served]
  obtain user groups token ambient where "request_token ?rq = (token, ambient)" "?verify token = Some (user, groups)"
    "CheckAccess groups (bytes ''a'') PUT"
    unfolding names by auto
  moreover have "request_token ?rq = (bytes ''t'', False)" by code_simp
  ultimately show ?thesis by (auto split: if_splits)
qed

end
