(* ===== verification/Session.thy ===== *)
theory Session
  imports Gateway Object_Browser
begin

text \<open>
  The client and the gateway together: a user browses a bucket, deletes and uploads, and every
  request runs through the path builders, the browser, the multiplexer, the handlers and the
  storage. The lemmas relate the session to a specification that knows the objects, the bucket
  and the folder only: what is on screen is what is in the storage below the folder.
\<close>

section \<open>Texts on the wire\<close>

text \<open>
  A JSON text as the client reads it, for bytes that are UTF-8 (the encoder of the server replaces
  others, and nothing is claimed for them).
\<close>

definition text_of :: "gostr \<Rightarrow> jstr" where
  "text_of s = concat (map units (utf8_read s))"

definition valid_utf8 :: "gostr \<Rightarrow> bool" where
  "valid_utf8 s \<longleftrightarrow> utf8_bytes (text_of s) = Some s"

definition to_object_info :: "object_response \<Rightarrow> object_info" where
  "to_object_info r =
     \<lparr>obj_key = text_of (or_key r), obj_size = or_size r, obj_last_modified = text_of (or_modified r),
      obj_etag = text_of (or_etag r), obj_is_prefix = False\<rparr>"

text \<open>
  A reply as axios hands it on: an error status rejects with the message of the envelope, and an
  empty page token is left out of the listing (\<open>omitempty\<close>).
\<close>

definition failure :: "'body api_reply \<Rightarrow> client_error option" where
  "failure r =
     (case r of
        Api_Error status _ msg \<Rightarrow> Some (Axios_Error (Some \<lparr>err_status = status, err_message = Some (js msg)\<rparr>))
      | _ \<Rightarrow> None)"

definition list_reply :: "'body api_reply \<Rightarrow> client_error + list_response" where
  "list_reply r =
     (case r of
        Objects_Reply objects pfxs next_token truncated \<Rightarrow>
          Inr \<lparr>resp_objects = Some (map to_object_info objects), resp_prefixes = Some (map text_of pfxs),
               resp_next_page_token = (if next_token = [] then None else Some (text_of next_token)),
               resp_truncated = Some truncated\<rparr>
      | Api_Error status _ msg \<Rightarrow> Inl (Axios_Error (Some \<lparr>err_status = status, err_message = Some (js msg)\<rparr>))
      | _ \<Rightarrow> Inl (Axios_Error None))"

section \<open>The session\<close>

text \<open>What does not change in a session: the platform, the sign-in, the rights, the storage's operations.\<close>

record ('st, 'body) world =
  w_location :: "jstr \<Rightarrow> jstr"
  w_lower :: "gostr \<Rightarrow> gostr"
  w_verify :: "gostr \<Rightarrow> (gostr \<times> gostr list) option"
  w_backend :: "('st, 'body) s3_backend"
  w_token :: jstr
  w_translate :: translation
  w_buckets :: "bucket_info list"

record 'st session =
  se_storage :: 'st
  se_bucket :: jstr
  se_prefix :: jstr
  se_store :: browser_state

text \<open>The headers common to all requests: the client's bearer token; no cookie is used.\<close>

definition wire_request :: "('st, 'body) world \<Rightarrow> 'body \<Rightarrow> 'body api_request" where
  "wire_request w body =
     (no_request body)\<lparr>ar_authorization :=
        (case request_interceptor (Some (w_token w)) None of
           Some h \<Rightarrow> the (utf8_bytes h)
         | None \<Rightarrow> [])\<rparr>"

text \<open>
  A request to its reply and the storage after it; \<open>None\<close> when it does not end at a handler of
  the API.
\<close>

definition send ::
  "('st, 'body) world \<Rightarrow> http_method \<Rightarrow> jstr \<Rightarrow> 'body api_request \<Rightarrow> 'st \<Rightarrow> ('body api_reply \<times> 'st) option" where
  "send w m p rq st =
     (case browse (w_location w) 21 m p of
        Some (q, Handler r vs) \<Rightarrow>
          (case percent_decode q of
             Some path \<Rightarrow> serve (w_lower w) (w_verify w) (Some (w_backend w)) m r vs path rq st
           | None \<Rightarrow> None)
      | _ \<Rightarrow> None)"

definition with_query :: "list_request \<Rightarrow> 'body api_request \<Rightarrow> 'body api_request option" where
  "with_query lr rq =
     (case (utf8_bytes (rq_prefix lr), utf8_bytes (rq_delimiter lr), utf8_bytes (nullish (rq_page_token lr) [])) of
        (Some q, Some d, Some tok) \<Rightarrow> Some (rq\<lparr>ar_prefix := q, ar_delimiter := d, ar_page_token := tok\<rparr>)
      | _ \<Rightarrow> None)"

text \<open>The answer to a pending listing; parameters that cannot be encoded throw before it is sent.\<close>

definition list_answer :: "('st, 'body) world \<Rightarrow> 'body \<Rightarrow> 'st \<Rightarrow> list_pending \<Rightarrow> client_error + list_response" where
  "list_answer w none st p =
     (case request_of p of
        None \<Rightarrow> Inl (Plain_Error [])
      | Some lr \<Rightarrow>
          (case with_query lr (wire_request w none) of
             None \<Rightarrow> Inl (Plain_Error [])
           | Some rq \<Rightarrow>
               (case send w GET (rq_url lr) rq st of
                  None \<Rightarrow> Inl (Axios_Error None)
                | Some (reply, _) \<Rightarrow> list_reply reply)))"

definition settle :: "('st, 'body) world \<Rightarrow> 'body \<Rightarrow> 'st \<Rightarrow> br_sys \<Rightarrow> browser_state" where
  "settle w none st sys =
     (case snd sys of
        [] \<Rightarrow> fst sys
      | p # _ \<Rightarrow> deliver p (list_answer w none st p) (fst sys))"

text \<open>Loading more until there is no further page; \<open>None\<close> if that never ends.\<close>

partial_function (option) load_all ::
  "('st, 'body) world \<Rightarrow> 'body \<Rightarrow> 'st \<Rightarrow> browser_state \<Rightarrow> browser_state option" where
  "load_all w none st s =
     (if truthy (br_next s) then load_all w none st (settle w none st (loadMore (s, []))) else Some s)"

declare load_all.simps [code]

text \<open>Opening a folder, and the refresh after a change.\<close>

definition show_folder :: "('st, 'body) world \<Rightarrow> 'body \<Rightarrow> jstr option \<Rightarrow> 'st session \<Rightarrow> 'st session option" where
  "show_folder w none param s =
     (let sys = browser_effect (se_bucket s) param (w_buckets w) (se_store s, [])
      in map_option (\<lambda>br. s\<lparr>se_prefix := page_prefix param, se_store := br\<rparr>)
           (load_all w none (se_storage s) (settle w none (se_storage s) sys)))"

definition refresh :: "('st, 'body) world \<Rightarrow> 'body \<Rightarrow> 'st session \<Rightarrow> 'st session option" where
  "refresh w none s =
     map_option (\<lambda>br. s\<lparr>se_store := br\<rparr>)
       (load_all w none (se_storage s)
          (settle w none (se_storage s)
             (handleRefresh (se_bucket s) (handleNavigatePrefix (se_prefix s)) (se_store s, []))))"

text \<open>
  A change of one object: the request is sent once the path is built, its error reaches the
  handler, and the storage is what the gateway left.
\<close>

definition change ::
  "('st, 'body) world \<Rightarrow> http_method \<Rightarrow> 'body api_request \<Rightarrow> 'st \<Rightarrow> jstr \<Rightarrow> client_error option" where
  "change w m rq st p =
     (case send w m p rq st of None \<Rightarrow> Some (Axios_Error None) | Some (reply, _) \<Rightarrow> failure reply)"

definition storage_after ::
  "('st, 'body) world \<Rightarrow> http_method \<Rightarrow> 'body api_request \<Rightarrow> 'st \<Rightarrow> jstr option \<Rightarrow> 'st" where
  "storage_after w m rq st p =
     (case p of
        None \<Rightarrow> st
      | Some path \<Rightarrow> (case send w m path rq st of None \<Rightarrow> st | Some (_, st') \<Rightarrow> st'))"

datatype 'body session_op =
  Open_Folder jstr
| Delete_Key jstr
| Upload_File jstr 'body jstr int

definition run_op :: "('st, 'body) world \<Rightarrow> 'body \<Rightarrow> 'body session_op \<Rightarrow> 'st session \<Rightarrow> 'st session option" where
  "run_op w none op s =
     (case op of
        Open_Folder q \<Rightarrow> show_folder w none (handleNavigatePrefix q) s
      | Delete_Key k \<Rightarrow>
          (let rq = wire_request w none;
               effects = handleDelete (plain (w_translate w)) (se_bucket s) k True (change w DELETE rq (se_storage s));
               s' = s\<lparr>se_storage := storage_after w DELETE rq (se_storage s) (buildObjectPath (se_bucket s) k)\<rparr>
           in if Refresh_Listing \<in> set effects then refresh w none s' else Some s')
      | Upload_File name body file_type len \<Rightarrow>
          (let rq = (wire_request w body)\<lparr>ar_content_type := the (utf8_bytes (upload_content_type file_type)),
                      ar_content_length := Some len\<rparr>;
               key = upload_key (se_prefix s) name;
               (_, effects) = upload_result (w_translate w) (se_bucket s) (se_prefix s) name (change w PUT rq (se_storage s));
               s' = s\<lparr>se_storage := storage_after w PUT rq (se_storage s) (buildObjectPath (se_bucket s) key)\<rparr>
           in if On_Uploaded \<in> set effects then refresh w none s' else Some s'))"

fun run_session :: "('st, 'body) world \<Rightarrow> 'body \<Rightarrow> 'body session_op list \<Rightarrow> 'st session \<Rightarrow> 'st session option" where
  "run_session w none [] s = Some s"
| "run_session w none (op # ops) s =
     (case run_op w none op s of None \<Rightarrow> None | Some s' \<Rightarrow> run_session w none ops s')"


section \<open>Texts\<close>

lemma text_of_utf8: "utf8_bytes s = Some b \<Longrightarrow> text_of b = s"
proof -
  assume "utf8_bytes s = Some b"
  then obtain ps where ps: "code_points s = Some ps" "b = concat (map utf8 ps)" by (auto simp: utf8_bytes_def)
  have "utf8_read b = ps" using utf8_read_points [of ps] code_points_bound [OF ps(1)] ps(2) by blast
  then show ?thesis using code_points_units [OF ps(1)] by (simp add: text_of_def)
qed

lemma valid_utf8_iff: "valid_utf8 b \<longleftrightarrow> (\<exists>s. utf8_bytes s = Some b)"
  using text_of_utf8 by (auto simp: valid_utf8_def)

lemma code_points_append:
  "code_points s = Some ps \<Longrightarrow> code_points t = Some qs \<Longrightarrow> code_points (s @ t) = Some (ps @ qs)"
proof (induction s arbitrary: ps rule: code_points.induct)
  case (2 u us)
  show ?case
  proof (cases "is_high u")
    case True
    then obtain v vs rs where "us = v # vs" "is_low v" "\<not> is_low u" "code_points vs = Some rs"
        "ps = ((unat u - 0xD800) * 0x400 + (unat v - 0xDC00) + 0x10000) # rs"
      using "2.prems"(1) by (auto split: list.splits if_splits)
    then show ?thesis using True "2.IH"(1) "2.prems"(2) by simp
  next
    case False
    then obtain rs where "\<not> is_low u" "code_points us = Some rs" "ps = unat u # rs"
      using "2.prems"(1) by (auto split: if_splits)
    then show ?thesis using False "2.IH"(2) "2.prems"(2) by simp
  qed
qed simp

lemma utf8_bytes_append:
  "utf8_bytes s = Some a \<Longrightarrow> utf8_bytes t = Some b \<Longrightarrow> utf8_bytes (s @ t) = Some (a @ b)"
  by (auto simp: utf8_bytes_def code_points_append)

text \<open>A slash in the bytes comes from a slash in the text, so both can be cut there.\<close>

lemma code_points_cut:
  "code_points s = Some (ps @ 47 # qs) \<Longrightarrow>
   \<exists>a b. s = a @ slash # b \<and> code_points a = Some ps \<and> code_points b = Some qs"
proof (induction s arbitrary: ps rule: code_points.induct)
  case (2 u us)
  show ?case
  proof (cases "is_high u")
    case True
    then obtain v vs rs where v: "us = v # vs" "is_low v" "\<not> is_low u" "code_points vs = Some rs"
        "ps @ 47 # qs = ((unat u - 0xD800) * 0x400 + (unat v - 0xDC00) + 0x10000) # rs"
      using "2.prems"(1) by (auto split: list.splits if_splits)
    then obtain p ps' where p: "ps = p # ps'" by (cases ps) auto
    then obtain a b where ab: "vs = a @ slash # b" "code_points a = Some ps'" "code_points b = Some qs"
      using "2.IH"(1) [OF v(3) True v(1,2), of ps'] v(4,5) by auto
    then have "code_points (u # v # a) = Some ps" using True v p by simp
    then show ?thesis using ab v(1) by (metis append_Cons)
  next
    case False
    then obtain rs where u: "\<not> is_low u" "code_points us = Some rs" "ps @ 47 # qs = unat u # rs"
      using "2.prems"(1) by (auto split: if_splits)
    show ?thesis
    proof (cases ps)
      case Nil
      then have "unat u = 47" using u(3) by simp
      then have "u = slash" by (simp add: word_unat_eq_iff)
      then show ?thesis using u Nil by (intro exI [of _ "[]"] exI [of _ us]) simp
    next
      case (Cons p ps')
      then obtain a b where ab: "us = a @ slash # b" "code_points a = Some ps'" "code_points b = Some qs"
        using "2.IH"(2) [OF u(1) False, of ps'] u(2,3) by auto
      then have "code_points (u # a) = Some ps" using False u Cons by simp
      then show ?thesis using ab by (metis append_Cons)
    qed
  qed
qed simp

lemma utf8_points_cut:
  "\<forall>p\<in>set ps. p < 0x110000 \<Longrightarrow> concat (map utf8 ps) = x @ 47 # y \<Longrightarrow>
   \<exists>as bs. ps = as @ 47 # bs \<and> concat (map utf8 as) = x \<and> concat (map utf8 bs) = y"
proof (induction ps arbitrary: x)
  case (Cons p ps)
  show ?case
  proof (cases "p = 47")
    case True
    then have "utf8 p = [47]" by (simp add: utf8_def byte_of_def)
    show ?thesis
    proof (cases x)
      case Nil
      then show ?thesis using Cons.prems(2) \<open>utf8 p = [47]\<close> True by (intro exI [of _ "[]"] exI [of _ ps]) simp
    next
      case (Cons z x')
      then obtain as bs where "ps = as @ 47 # bs" "concat (map utf8 as) = x'" "concat (map utf8 bs) = y"
        using Cons.IH [of x'] Cons.prems \<open>utf8 p = [47]\<close> by auto
      then show ?thesis
        using Cons Cons.prems(2) \<open>utf8 p = [47]\<close> True by (intro exI [of _ "p # as"] exI [of _ bs]) simp
    qed
  next
    case False
    then have no: "47 \<notin> set (utf8 p)" using slash_in_utf8 Cons.prems(1) by simp
    have "utf8 p @ concat (map utf8 ps) = x @ 47 # y" using Cons.prems(2) by simp
    then have "\<exists>x'. x = utf8 p @ x' \<and> concat (map utf8 ps) = x' @ 47 # y"
      using no by (fastforce simp: append_eq_append_conv2 append_eq_Cons_conv)
    then obtain x' where x': "x = utf8 p @ x'" "concat (map utf8 ps) = x' @ 47 # y" by blast
    then obtain as bs where "ps = as @ 47 # bs" "concat (map utf8 as) = x'" "concat (map utf8 bs) = y"
      using Cons.IH [of x'] Cons.prems(1) by auto
    then show ?thesis using x'(1) by (intro exI [of _ "p # as"] exI [of _ bs]) simp
  qed
qed simp

lemma utf8_bytes_cut:
  assumes "utf8_bytes s = Some (x @ 47 # y)"
  shows "\<exists>a b. s = a @ slash # b \<and> utf8_bytes a = Some x \<and> utf8_bytes b = Some y"
proof -
  obtain ps where ps: "code_points s = Some ps" "concat (map utf8 ps) = x @ 47 # y"
    using assms by (auto simp: utf8_bytes_def)
  then obtain as bs where cut: "ps = as @ 47 # bs" "concat (map utf8 as) = x" "concat (map utf8 bs) = y"
    using utf8_points_cut code_points_bound [OF ps(1)] by metis
  then show ?thesis using code_points_cut ps(1) by (fastforce simp: utf8_bytes_def)
qed

lemma valid_common_prefix:
  assumes "valid_utf8 k" and "grouped pfx k"
  shows "valid_utf8 (common_prefix pfx k)"
proof -
  let ?d = "drop (length pfx) k"
  have k: "k = pfx @ ?d" using assms(2) by (auto simp: grouped_def prefix_def)
  have "47 \<in> set ?d" using assms(2) by (simp add: grouped_def)
  then obtain y where "?d = takeWhile (\<lambda>c. c \<noteq> 47) ?d @ 47 # y"
    by (metis (mono_tags, lifting) takeWhile_dropWhile_id dropWhile_eq_Nil_conv hd_Cons_tl hd_dropWhile)
  then have cut: "k = (pfx @ takeWhile (\<lambda>c. c \<noteq> 47) ?d) @ 47 # y" using k by (metis append.assoc)
  obtain s where "utf8_bytes s = Some k" using assms(1) valid_utf8_iff by blast
  then obtain a where "utf8_bytes a = Some (pfx @ takeWhile (\<lambda>c. c \<noteq> 47) ?d)"
    using utf8_bytes_cut cut by metis
  moreover have "utf8_bytes [] = Some []" by code_simp
  ultimately have "utf8_bytes (a @ [slash]) = Some (common_prefix pfx k)"
    using utf8_bytes_sep by (fastforce simp: common_prefix_def)
  then show ?thesis using valid_utf8_iff by blast
qed


section \<open>Requests of the session\<close>

text \<open>The client holds a token of visible ASCII characters that the gateway verifies.\<close>

definition signed_in :: "('st, 'body) world \<Rightarrow> gostr list \<Rightarrow> bool" where
  "signed_in w groups \<longleftrightarrow>
     (case utf8_bytes (w_token w) of
        None \<Rightarrow> False
      | Some tb \<Rightarrow> tb \<noteq> [] \<and> visible tb \<and> map_option snd (w_verify w tb) = Some groups)"

lemma extract_bearer:
  assumes "visible tb"
  shows "extractToken (bytes ''Bearer '' @ tb) cookie = (tb, False)"
proof -
  have header: "bytes ''Bearer '' @ tb = bytes ''Bearer'' @ [32] @ tb" by (simp add: bytes_def)
  have "cut_first [32] (bytes ''Bearer '' @ tb) = Some (bytes ''Bearer'', tb)"
    unfolding header by (rule cut_first_found [of "[32]" 32 "[]"]) (simp_all add: bytes_def)
  moreover have "map lower_byte (bytes ''Bearer'') = bytes ''bearer''" by code_simp
  moreover have "TrimSpace tb = tb" using assms by (intro TrimSpace_visible) (simp add: visible_def list_all_iff)
  moreover have "(bytes ''Bearer '' @ tb = []) = False" by (simp add: bytes_def)
  ultimately show ?thesis by (simp only: extractToken_def if_False option.case prod.case simp_thms if_True)
qed

lemma wire_authenticates:
  assumes "signed_in w groups" and "ar_authorization rq = ar_authorization (wire_request w body)"
  shows "\<exists>user. authenticate (w_verify w) m rq = Inr (user, groups)"
proof -
  obtain tb user where tb: "utf8_bytes (w_token w) = Some tb" "tb \<noteq> []" "visible tb"
      "w_verify w tb = Some (user, groups)"
    using assms(1) by (auto simp: signed_in_def split: option.splits)
  have ne: "w_token w \<noteq> []" using tb(1,2) utf8_Nil_iff [of "w_token w"] by auto
  have "utf8_bytes (js ''Bearer '') = Some (bytes ''Bearer '')" by code_simp
  then have "utf8_bytes (bearer (w_token w)) = Some (bytes ''Bearer '' @ tb)"
    unfolding bearer_def using utf8_bytes_append tb(1) by blast
  then have "ar_authorization rq = bytes ''Bearer '' @ tb"
    unfolding assms(2) using ne by (simp add: wire_request_def request_interceptor_def truthy_def)
  then show ?thesis
    using extract_bearer [OF tb(3)] tb(2,4) by (simp add: authenticate_def)
qed

text \<open>Names that survive the way to the gateway (see \<open>gateway_reads_client_path\<close>).\<close>

definition sound_bucket :: "jstr \<Rightarrow> bool" where
  "sound_bucket b \<longleftrightarrow> b \<noteq> [] \<and> \<not> dot_name b \<and> encodeURIComponent b \<noteq> None"

definition sound_key :: "jstr \<Rightarrow> bool" where
  "sound_key k \<longleftrightarrow> k \<noteq> [] \<and> encodeKey k \<noteq> None \<and>
     list_all (\<lambda>s. \<not> dot_name s) (split_on slash k) \<and> list_all (\<lambda>s. s \<noteq> []) (butlast (split_on slash k))"

lemma sound_path:
  assumes "sound_bucket b" and "sound_key k"
  shows "\<exists>p. buildObjectPath b k = Some p"
  using assms by (auto simp: sound_bucket_def sound_key_def buildObjectPath_def api_path_def)

lemma object_request_served:
  assumes "sound_bucket b" and "sound_key k" and "route_of ''objects'' m = Some r"
    and "buildObjectPath b k = Some p"
  shows "\<exists>bb kb path. utf8_bytes b = Some bb \<and> utf8_bytes k = Some kb \<and> bb \<noteq> [] \<and> kb \<noteq> [] \<and>
    send w m p rq st =
      serve (w_lower w) (w_verify w) (Some (w_backend w)) m r (object_values bb kb) path rq st"
proof -
  have path: "api_path ''objects'' b k = Some p" using assms(4) by (simp add: buildObjectPath_def)
  have "\<forall>s\<in>set (split_on slash k). \<not> dot_name s" "\<forall>s\<in>set (butlast (split_on slash k)). s \<noteq> []"
    "k \<noteq> []" "b \<noteq> []" "\<not> dot_name b"
    using assms(1,2) by (auto simp: sound_key_def sound_bucket_def list_all_iff)
  from request_served [OF assms(3) path this(4,5,3,1,2)]
  obtain bb kb where names: "utf8_bytes b = Some bb" "utf8_bytes k = Some kb" "bb \<noteq> []" "kb \<noteq> []"
      and served: "browse (w_location w) (Suc 20) m p = Some (p, Handler r (object_values bb kb))"
    by blast
  obtain raw where "percent_decode p = Some raw"
    using api_path_decodes [OF encode_routes(1) path] by auto
  then have "send w m p rq st =
      serve (w_lower w) (w_verify w) (Some (w_backend w)) m r (object_values bb kb) raw rq st"
    using served by (simp add: send_def del: browse.simps)
  then show ?thesis using names by blast
qed

text \<open>Deleting and uploading, as the storage sees them.\<close>

lemma send_delete:
  assumes "signed_in w groups" and "sound_bucket b" and "sound_key k" and "buildObjectPath b k = Some p"
  shows "\<exists>bb kb. utf8_bytes b = Some bb \<and> utf8_bytes k = Some kb \<and>
    send w DELETE p (wire_request w body) st =
      Some (if CheckAccess groups bb DELETE
            then (case be_delete (w_backend w) st bb kb of
                    None \<Rightarrow> (Api_Error 502 ''upstream_error'' ''failed to delete object'', st)
                  | Some st' \<Rightarrow> (Status_Reply ''deleted'' kb, st'))
            else (Api_Error 403 ''write_not_allowed'' ''no delete access to bucket'', st))"
proof -
  have r: "route_of ''objects'' DELETE = Some Delete_Object" by (simp add: route_of_def)
  obtain user where "authenticate (w_verify w) DELETE (wire_request w body) = Inr (user, groups)"
    using wire_authenticates [OF assms(1) refl] by blast
  then show ?thesis
    using object_request_served [OF assms(2,3) r assms(4), of w "wire_request w body" st]
    by (fastforce simp: serve_def HandleDeleteObject_def guarded_def handler_reads)
qed

lemma send_upload:
  assumes "signed_in w groups" and "sound_bucket b" and "sound_key k" and "buildObjectPath b k = Some p"
  shows "\<exists>bb kb. utf8_bytes b = Some bb \<and> utf8_bytes k = Some kb \<and>
    send w PUT p ((wire_request w body)\<lparr>ar_content_type := ct, ar_content_length := len\<rparr>) st =
      Some (if CheckAccess groups bb PUT
            then (case be_put (w_backend w) st bb kb
                    \<lparr>upl_body = body, upl_type = (if ct = [] then octetStream else ct), upl_length = len\<rparr> of
                    None \<Rightarrow> (Api_Error 502 ''upstream_error'' ''failed to upload object'', st)
                  | Some st' \<Rightarrow> (Status_Reply ''uploaded'' kb, st'))
            else (Api_Error 403 ''write_not_allowed'' ''no write access to bucket'', st))"
proof -
  let ?rq = "(wire_request w body)\<lparr>ar_content_type := ct, ar_content_length := len\<rparr>"
  have r: "route_of ''objects'' PUT = Some Put_Object" by (simp add: route_of_def)
  obtain user where user: "authenticate (w_verify w) PUT ?rq = Inr (user, groups)"
    using wire_authenticates [OF assms(1), of ?rq body] by auto
  have fields: "ar_body ?rq = body" "ar_content_type ?rq = ct" "ar_content_length ?rq = len"
    by (simp_all add: wire_request_def no_request_def)
  show ?thesis
    using object_request_served [OF assms(2,3) r assms(4), of w ?rq st] user
    by (fastforce simp: serve_def HandlePutObject_def guarded_def handler_reads fields)
qed


section \<open>Listings\<close>

lemma list_path_served:
  assumes "sound_bucket b" and "list_url b = Some p"
  shows "\<exists>bb path. utf8_bytes b = Some bb \<and> bb \<noteq> [] \<and>
    send w GET p rq st =
      serve (w_lower w) (w_verify w) (Some (w_backend w)) GET List_Objects [(''bucket'', bb)] path rq st"
proof -
  obtain eb where eb: "encodeURIComponent b = Some eb" "b \<noteq> []" "\<not> dot_name b"
    using assms(1) by (auto simp: sound_bucket_def)
  obtain bb where bb: "utf8_bytes b = Some bb" "percent_decode eb = Some bb"
    using encode_defined [OF eb(1)] encode_decodes [OF eb(1)] by auto
  let ?ss = "api_head @ [eb, js ''objects'']"
  have p: "p = slash # join_with slash ?ss" using assms(2) eb(1) by (simp add: list_url_def)
  have eb_seg: "slash \<notin> set eb" "\<not> dot_name eb" "eb \<noteq> []"
    using encode_no_slash [OF eb(1)] encoded_not_dot [OF eb(1,3)] encode_Nil_iff [of b] eb(1,2) by auto
  have segs: "\<forall>s\<in>set ?ss. slash \<notin> set s \<and> \<not> dot_name s"
    using eb_seg api_head_facts(2) by (auto simp: dot_name_def)
  have split: "split_on slash (join_with slash ?ss) = ?ss" by (rule split_join) (use segs in auto)
  have "\<not> single_dot eb \<and> \<not> double_dot eb"
    using encode_keeps_dots [OF eb(1)] eb(3) by (simp add: dot_name_def)
  then have "\<forall>s\<in>set ?ss. \<not> single_dot s \<and> \<not> double_dot s"
    using api_head_no_dots by (auto simp: single_dot_def double_dot_def lower_unit_def)
  then have kept: "resolve_path p = p"
    unfolding p resolve_path_def using split resolve_no_dots [of ?ss "[]"] by (simp only: list.case rev.simps append_Nil)
  have "squeeze ?ss = ?ss" using eb_seg(3) by (simp add: squeeze_def)
  then have clean: "clean_path p = p" 
    unfolding p by (subst clean_path_joined) (use segs in simp_all)
  have route: "find_route GET p = Some (List_Objects, [(''bucket'', bb)])"
    unfolding find_route_def p list.sel split
    using bb(2) eb_seg(3) by (simp add: api_routes_def Let_def allows_def js_words del: js_Cons)
  have pre: "percent_decode (js ''/api/v1/buckets/'') = Some (bytes ''/api/v1/buckets/'')"
    "percent_decode (js ''/objects'') = Some (bytes ''/objects'')" by code_simp+
  have "p = js ''/api/v1/buckets/'' @ eb @ js ''/objects''" using assms(2) eb(1) by (simp add: list_url_def)
  then have decoded: "percent_decode p = Some (bytes ''/api/v1/buckets/'' @ bb @ bytes ''/objects'')"
    by (simp only: percent_decode_append pre bb(2) option.map append_Nil2)
  have "mux_serve GET p = Handler List_Objects [(''bucket'', bb)]"
    using clean route decoded by (simp add: mux_serve_def wants_slash_def Let_def)
  then have "browse (w_location w) (Suc 20) GET p = Some (p, Handler List_Objects [(''bucket'', bb)])"
    unfolding browse.simps(2) using kept by (simp add: Let_def del: browse.simps)
  then have "send w GET p rq st = serve (w_lower w) (w_verify w) (Some (w_backend w)) GET List_Objects
      [(''bucket'', bb)] (bytes ''/api/v1/buckets/'' @ bb @ bytes ''/objects'') rq st"
    using decoded by (simp add: send_def del: browse.simps)
  moreover have "bb \<noteq> []" using bb(1) eb(2) utf8_Nil_iff [of b] by auto
  ultimately show ?thesis using bb(1) by blast
qed

text \<open>A page of the storage as the client takes it in.\<close>

definition page_response :: "s3_page \<Rightarrow> list_response" where
  "page_response pg =
     \<lparr>resp_objects = Some (map (\<lambda>e. to_object_info (object_of_entry e)) (pg_contents pg)),
      resp_prefixes = Some (map (\<lambda>p. text_of (the p)) (filter (\<lambda>p. p \<noteq> None) (pg_common pg))),
      resp_next_page_token = (if deref (pg_next pg) = [] then None else Some (text_of (deref (pg_next pg)))),
      resp_truncated = Some (pg_truncated pg = Some True)\<rparr>"

lemma list_reply_page: "list_reply (objects_reply pg) = Inr (page_response pg)"
  by (simp add: list_reply_def objects_reply_def page_response_def comp_def)

lemma list_answer_page:
  assumes "signed_in w groups" and "sound_bucket b" and "request_of pend = Some lr"
    and "rq_url lr = the (list_url b)" and "utf8_bytes b = Some bb"
    and "utf8_bytes (rq_prefix lr) = Some qb" and "rq_delimiter lr = [slash]"
    and "utf8_bytes (nullish (rq_page_token lr) []) = Some tb"
    and "CheckAccess groups bb GET" and "be_list (w_backend w) st bb qb [47] tb 1000 = Some pg"
  shows "list_answer w none st pend = Inr (page_response pg)"
proof -
  obtain p where p: "list_url b = Some p"
    using assms(2) by (auto simp: sound_bucket_def list_url_def)
  have "utf8_bytes [slash] = Some [47]" by code_simp
  then have rq: "with_query lr (wire_request w none) =
      Some ((wire_request w none)\<lparr>ar_prefix := qb, ar_delimiter := [47], ar_page_token := tb\<rparr>)"
    using assms(6-8) by (simp add: with_query_def)
  let ?rq = "(wire_request w none)\<lparr>ar_prefix := qb, ar_delimiter := [47], ar_page_token := tb\<rparr>"
  obtain user where user: "authenticate (w_verify w) GET ?rq = Inr (user, groups)"
    using wire_authenticates [OF assms(1), of ?rq none] by auto
  have "max_keys (ar_max_keys ?rq) = 1000" by (simp add: wire_request_def no_request_def max_keys_def parse_digits_def)
  moreover have "bb \<noteq> []" using assms(2,5) utf8_Nil_iff [of b] by (auto simp: sound_bucket_def)
  moreover have "PathValue [(''bucket'', bb)] ''bucket'' = bb" by (simp add: PathValue_def)
  ultimately have "send w GET p ?rq st = Some (objects_reply pg, st)"
    using list_path_served [OF assms(2) p, of w ?rq st] user assms(5,9,10)
    by (auto simp: serve_def HandleListObjects_def guarded_def bucketFromRequest_def)
  then show ?thesis
    using assms(3,4) p rq by (simp add: list_answer_def list_reply_page)
qed


section \<open>A folder on screen\<close>

text \<open>
  What a listing of a folder should be: each object directly in it and each folder below it, once,
  with nothing more to load, no error and no spinner.
\<close>

definition shows_folder ::
  "(gostr \<Rightarrow> gostr \<Rightarrow> 'v option) \<Rightarrow> gostr \<Rightarrow> gostr \<Rightarrow> browser_state \<Rightarrow> bool" where
  "shows_folder objects bb qb br \<longleftrightarrow>
     (\<exists>ks ps. map (\<lambda>ob. utf8_bytes (obj_key ob)) (br_objects br) = map Some ks \<and> distinct ks \<and>
        set ks = {k. objects bb k \<noteq> None \<and> below qb k} \<and>
        map utf8_bytes (br_prefixes br) = map Some ps \<and> distinct ps \<and>
        set ps = common_prefix qb ` {k. objects bb k \<noteq> None \<and> grouped qb k} \<and>
        br_error br = None \<and> \<not> br_loading br \<and> \<not> truthy (br_next br))"

lemma page_response_fields:
  "map obj_key (concat (map page_objects (map page_response pgs))) = map (\<lambda>k. text_of (deref k)) (keys_listed pgs)"
  "concat (map page_prefixes (map page_response pgs)) =
     map (\<lambda>p. text_of (the p)) (filter (\<lambda>p. p \<noteq> None) (prefixes_listed pgs))"
  by (induction pgs)
     (simp_all add: page_response_def page_objects_def page_prefixes_def nullish_def keys_listed_def prefixes_listed_def
       to_object_info_def object_of_entry_def)

lemma settle_more:
  assumes "br_next s = Some tok" "tok \<noteq> []" "list_url (br_bucket s) \<noteq> None"
    and "list_answer w none st (More_Pending (br_bucket s) (br_prefix s) tok (br_objects s) (br_prefixes s)) = Inr pg"
  shows "settle w none st (loadMore (s, [])) = with_page pg s"
  using assms
  by (auto simp: settle_def loadMore_def truthy_def deliver_def more_reply_def with_page_def
      page_objects_def page_prefixes_def)

lemma settle_fetch:
  assumes "list_url b \<noteq> None" and "list_answer w none st (Fetch_Pending b q) = Inr pg"
  shows "settle w none st (fetchObjects b q (br, [])) = with_page pg (fst (fetchObjects b q (br, [])))"
  using assms
  by (auto simp: settle_def fetchObjects_def deliver_def fetch_reply_def with_page_def
      page_objects_def page_prefixes_def)

text \<open>Where the answers are the pages of the storage, loading takes them all in.\<close>

lemma load_all_pages:
  assumes "\<And>tok t pg objects pfxs. utf8_bytes tok = Some t \<Longrightarrow> lst t = Some pg \<Longrightarrow>
      list_answer w none st (More_Pending b q tok objects pfxs) = Inr (page_response pg)"
    and "list_url b \<noteq> None"
  shows "storage_pages lst t (pg # pgs) \<Longrightarrow> s = with_page (page_response pg) s0 \<Longrightarrow>
    br_bucket s = b \<Longrightarrow> br_prefix s = q \<Longrightarrow>
    load_all w none st s = Some (foldl (\<lambda>s p. with_page p s) s (map page_response pgs))"
proof (induction pgs arbitrary: t pg s s0)
  case Nil
  then have "\<not> truthy (br_next s)" by (auto simp: with_page_def page_response_def deref_def truthy_def)
  then show ?case by (simp add: load_all.simps)
next
  case (Cons pg' pgs)
  then obtain t' x where t': "t' \<noteq> []" "utf8_bytes x = Some t'" "pg_next pg = Some t'"
      and rest: "storage_pages lst t' (pg' # pgs)" by auto
  have x: "text_of t' = x" "x \<noteq> []" using text_of_utf8 [OF t'(2)] t'(1,2) utf8_Nil_iff [of x] by auto
  have tok: "br_next s = Some x"
    using Cons.prems(2) t' x by (simp add: with_page_def page_response_def deref_def)
  have "lst t' = Some pg'" using rest by (cases pgs) auto
  then have "settle w none st (loadMore (s, [])) = with_page (page_response pg') s"
    using assms Cons.prems(3,4) t'(2) x(2) by (intro settle_more [OF tok]) auto
  moreover have "truthy (br_next s)" using tok x(2) by (simp add: truthy_def)
  ultimately have "load_all w none st s = load_all w none st (with_page (page_response pg') s)"
    by (simp add: load_all.simps [of w none st s])
  then show ?case using Cons.IH [OF rest refl, of s] Cons.prems(3,4) by (simp add: with_page_def)
qed

context s3_storage
begin

lemma folder_loaded:
  fixes w :: "('st, 'body) world" and none :: 'body
  assumes w: "signed_in w groups" "w_backend w = be" and b: "sound_bucket b" "utf8_bytes b = Some bb"
    and q: "utf8_bytes q = Some qb" and access: "CheckAccess groups bb GET"
    and valid: "\<forall>k. contents st bb k \<noteq> None \<longrightarrow> valid_utf8 k"
  shows "\<exists>br'. load_all w none st (settle w none st (fetchObjects b q (br, []))) = Some br' \<and>
    br_bucket br' = b \<and> br_prefix br' = q \<and> shows_folder (contents st) bb qb br'"
proof -
  let ?lst = "\<lambda>tok. be_list be st bb qb [47] tok 1000"
  have zero: "(0 :: int) < 1000" by simp
  obtain pgs ks ps where pages: "storage_pages ?lst [] pgs"
      and ks: "keys_listed pgs = map Some ks" "distinct ks" "set ks = {k. contents st bb k \<noteq> None \<and> below qb k}"
      and ps: "prefixes_listed pgs = map Some ps" "distinct ps"
        "set ps = common_prefix qb ` {k. contents st bb k \<noteq> None \<and> grouped qb k}"
    using list_pages [OF zero, of st bb qb] by blast
  obtain pg rest where pgs: "pgs = pg # rest" using pages by (cases pgs) auto
  obtain u where u: "list_url b = Some u" using b(1) by (auto simp: sound_bucket_def list_url_def)
  then have url: "list_url b \<noteq> None" by simp
  have empty: "utf8_bytes [] = Some []" by code_simp
  have more: "list_answer w none st (More_Pending b q tok objects pfxs) = Inr (page_response pg')"
    if "utf8_bytes tok = Some t" "?lst t = Some pg'" for tok t pg' objects pfxs
    by (rule list_answer_page [OF w(1) b(1) _ _ b(2) _ _ _ access, where tb = t and
          lr = "\<lparr>rq_url = u, rq_prefix = q, rq_delimiter = [slash], rq_page_token = Some tok\<rparr>"])
       (use that u q w(2) in \<open>simp_all add: request_of_def nullish_def\<close>)
  have "?lst [] = Some pg" using pages pgs by (cases rest) auto
  then have "list_answer w none st (Fetch_Pending b q) = Inr (page_response pg)"
    by (intro list_answer_page [OF w(1) b(1) _ _ b(2) _ _ _ access, where tb = "[]" and
          lr = "\<lparr>rq_url = u, rq_prefix = q, rq_delimiter = [slash], rq_page_token = None\<rparr>"])
       (use u q w(2) empty in \<open>simp_all add: request_of_def nullish_def\<close>)
  then have first: "settle w none st (fetchObjects b q (br, [])) =
      with_page (page_response pg) (fst (fetchObjects b q (br, [])))"
    by (rule settle_fetch [OF url])
  let ?s0 = "fst (fetchObjects b q (br, []))"
  let ?br = "foldl (\<lambda>s p. with_page p s) ?s0 (map page_response pgs)"
  have s0: "br_objects ?s0 = []" "br_prefixes ?s0 = []" "br_error ?s0 = None" "br_bucket ?s0 = b" "br_prefix ?s0 = q"
    using url by (auto simp: fetchObjects_def)
  have loaded: "load_all w none st (settle w none st (fetchObjects b q (br, []))) = Some ?br"
  proof -
    have "load_all w none st (with_page (page_response pg) ?s0) =
        Some (foldl (\<lambda>s p. with_page p s) (with_page (page_response pg) ?s0) (map page_response rest))"
      by (rule load_all_pages [where lst = ?lst, OF more url pages [unfolded pgs] refl])
         (use s0 in \<open>simp_all add: with_page_fields\<close>)
    then show ?thesis by (simp add: first pgs)
  qed
  have "map obj_key (br_objects ?br) = map (\<lambda>k. text_of (deref k)) (map Some ks)"
    unfolding ks(1) [symmetric] page_response_fields(1) [symmetric] by (simp add: foldl_with_page s0)
  then have objects: "map obj_key (br_objects ?br) = map text_of ks" by (simp add: deref_def comp_def)
  have "br_prefixes ?br = map (\<lambda>p. text_of (the p)) (filter (\<lambda>p. p \<noteq> None) (map Some ps))"
    unfolding ps(1) [symmetric] page_response_fields(2) [symmetric] by (simp add: foldl_with_page s0)
  then have prefixes: "br_prefixes ?br = map text_of ps" by (simp add: filter_map comp_def)
  have keys_valid: "\<forall>k\<in>set ks. utf8_bytes (text_of k) = Some k"
    using ks(3) valid by (simp add: valid_utf8_def)
  have prefixes_valid: "\<forall>p\<in>set ps. utf8_bytes (text_of p) = Some p"
    using ps(3) valid valid_common_prefix by (auto simp: valid_utf8_def)
  have "map (\<lambda>ob. utf8_bytes (obj_key ob)) (br_objects ?br) = map utf8_bytes (map obj_key (br_objects ?br))"
    by simp
  then have shown: "map (\<lambda>ob. utf8_bytes (obj_key ob)) (br_objects ?br) = map Some ks"
    unfolding objects using keys_valid by simp
  have shown_prefixes: "map utf8_bytes (br_prefixes ?br) = map Some ps"
    unfolding prefixes using prefixes_valid by simp
  have rest: "br_error ?br = None" "br_bucket ?br = b" "br_prefix ?br = q" 
    using s0 by (simp_all add: foldl_with_page)
  have "storage_pages lst t ss \<Longrightarrow> pg_next (last ss) = None" for lst t ss
    by (induction lst t ss rule: storage_pages.induct) auto
  then have "pg_next (last pgs) = None" using pages by blast
  then have "resp_next_page_token (page_response (last pgs)) = None"
    by (simp add: page_response_def deref_def)
  moreover have ne: "map page_response pgs \<noteq> []" using pgs by simp
  moreover have "last (map page_response pgs) = page_response (last pgs)" using pgs by (intro last_map) simp
  ultimately have "br_next ?br = None" using foldl_with_page_last(1) [OF ne] by simp
  then have ended: "\<not> br_loading ?br" "\<not> truthy (br_next ?br)"
    using foldl_with_page_last(2) [OF ne] by (simp_all add: truthy_def)
  show ?thesis
    unfolding shows_folder_def
    using loaded rest shown shown_prefixes ks(2,3) ps(2,3) ended by blast
qed

end


section \<open>The specification\<close>

text \<open>The objects of the storage and the folder the user is in.\<close>

record 'body spec =
  sp_contents :: "gostr \<Rightarrow> gostr \<Rightarrow> 'body s3_upload option"
  sp_folder :: jstr

definition the_utf8 :: "jstr \<Rightarrow> gostr" where
  "the_utf8 s = (case utf8_bytes s of Some b \<Rightarrow> b | None \<Rightarrow> [])"

definition spec_set :: "gostr \<Rightarrow> gostr \<Rightarrow> 'body s3_upload option \<Rightarrow> 'body spec \<Rightarrow> 'body spec" where
  "spec_set bb kb v sp = sp\<lparr>sp_contents := (sp_contents sp)(bb := (sp_contents sp bb)(kb := v))\<rparr>"

definition upload_of :: "'body \<Rightarrow> jstr \<Rightarrow> int \<Rightarrow> 'body s3_upload" where
  "upload_of body file_type len =
     \<lparr>upl_body = body,
      upl_type = (if the (utf8_bytes (upload_content_type file_type)) = [] then octetStream
                  else the (utf8_bytes (upload_content_type file_type))),
      upl_length = Some len\<rparr>"

definition spec_op :: "gostr list \<Rightarrow> jstr \<Rightarrow> 'body session_op \<Rightarrow> 'body spec \<Rightarrow> 'body spec" where
  "spec_op groups b op sp =
     (case op of
        Open_Folder q \<Rightarrow> sp\<lparr>sp_folder := q\<rparr>
      | Delete_Key k \<Rightarrow>
          (if CheckAccess groups (the_utf8 b) DELETE then spec_set (the_utf8 b) (the_utf8 k) None sp else sp)
      | Upload_File name body file_type len \<Rightarrow>
          (if CheckAccess groups (the_utf8 b) PUT
           then spec_set (the_utf8 b) (the_utf8 (sp_folder sp @ name)) (Some (upload_of body file_type len)) sp
           else sp))"

text \<open>Operations whose names survive the way to the gateway.\<close>

definition op_sound :: "jstr \<Rightarrow> 'body session_op \<Rightarrow> bool" where
  "op_sound folder op \<longleftrightarrow>
     (case op of
        Open_Folder q \<Rightarrow> utf8_bytes q \<noteq> None
      | Delete_Key k \<Rightarrow> sound_key k
      | Upload_File name _ _ _ \<Rightarrow> sound_key (folder @ name))"

fun ops_sound :: "jstr \<Rightarrow> 'body session_op list \<Rightarrow> bool" where
  "ops_sound folder [] = True"
| "ops_sound folder (op # ops) =
     (op_sound folder op \<and> ops_sound (case op of Open_Folder q \<Rightarrow> q | _ \<Rightarrow> folder) ops)"

definition enter :: "'st \<Rightarrow> jstr \<Rightarrow> 'st session" where
  "enter st b = \<lparr>se_storage = st, se_bucket = b, se_prefix = [], se_store = br_init\<rparr>"

section \<open>The session implements the specification\<close>

lemma page_prefix_navigate: "page_prefix (handleNavigatePrefix q) = q"
  by (simp add: page_prefix_def handleNavigatePrefix_def nullish_def)

lemma delete_effects:
  assumes "buildObjectPath b k = Some p"
  shows "Refresh_Listing \<in> set (handleDelete t b k True request) \<longleftrightarrow> request p = None"
  using assms by (simp add: handleDelete_def confirm_delete_def Let_def split: option.split)

lemma upload_effects:
  assumes "buildObjectPath b (pfx @ name) = Some p"
  shows "On_Uploaded \<in> set (snd (upload_result t b pfx name put)) \<longleftrightarrow> put p = None"
  using assms by (simp add: upload_result_def upload_key_def Let_def split: option.split)

lemma the_utf8_key: "sound_key k \<Longrightarrow> utf8_bytes k = Some (the_utf8 k)"
  using encodeKey_decodes by (fastforce simp: sound_key_def the_utf8_def)

lemma the_utf8_bucket: "sound_bucket b \<Longrightarrow> utf8_bytes b = Some (the_utf8 b)"
  using encode_defined by (fastforce simp: sound_bucket_def the_utf8_def)

lemma sound_key_suffix: "sound_key (q @ n) \<Longrightarrow> valid_utf8 (the_utf8 (q @ n))"
  using the_utf8_key valid_utf8_iff by blast

text \<open>The state of a session in step with its screen, and its abstraction.\<close>

definition on_screen ::
  "('st \<Rightarrow> gostr \<Rightarrow> gostr \<Rightarrow> 'v option) \<Rightarrow> jstr \<Rightarrow> 'st session \<Rightarrow> bool" where
  "on_screen contents b s \<longleftrightarrow>
     se_bucket s = b \<and> utf8_bytes (se_prefix s) \<noteq> None \<and>
     br_bucket (se_store s) = b \<and> br_prefix (se_store s) = se_prefix s \<and>
     shows_folder (contents (se_storage s)) (the_utf8 b) (the_utf8 (se_prefix s)) (se_store s)"

definition all_valid :: "(gostr \<Rightarrow> gostr \<Rightarrow> 'v option) \<Rightarrow> jstr \<Rightarrow> bool" where
  "all_valid objects b \<longleftrightarrow> (\<forall>k. objects (the_utf8 b) k \<noteq> None \<longrightarrow> valid_utf8 k)"

definition spec_of :: "('st \<Rightarrow> gostr \<Rightarrow> gostr \<Rightarrow> 'body s3_upload option) \<Rightarrow> 'st session \<Rightarrow> 'body spec" where
  "spec_of contents s = \<lparr>sp_contents = contents (se_storage s), sp_folder = se_prefix s\<rparr>"

definition set_up :: "('st, 'body) world \<Rightarrow> gostr list \<Rightarrow> jstr \<Rightarrow> bool" where
  "set_up w groups b \<longleftrightarrow> signed_in w groups \<and> sound_bucket b \<and>
     CheckAccess groups (the_utf8 b) GET \<and> canRead (bucket_info_for (w_buckets w) b)"

context reliable_storage
begin

lemma shown_after:
  assumes "set_up w groups b" "w_backend w = be" and "utf8_bytes q \<noteq> None" and "all_valid (contents (se_storage s)) b"
  shows "\<exists>br'. load_all w none (se_storage s) (settle w none (se_storage s) (fetchObjects b q (br, []))) = Some br' \<and>
    br_bucket br' = b \<and> br_prefix br' = q \<and>
    shows_folder (contents (se_storage s)) (the_utf8 b) (the_utf8 q) br'"
proof -
  have "utf8_bytes q = Some (the_utf8 q)" using assms(3) by (auto simp: the_utf8_def)
  then show ?thesis
    using assms folder_loaded [of w groups b "the_utf8 b" q "the_utf8 q" "se_storage s" none br]
      the_utf8_bucket [of b] by (simp add: set_up_def all_valid_def)
qed

lemma open_folder:
  assumes "set_up w groups b" "w_backend w = be" and "se_bucket s = b" and "utf8_bytes q \<noteq> None" and "all_valid (contents (se_storage s)) b"
  shows "\<exists>s'. run_op w none (Open_Folder q) s = Some s' \<and> on_screen contents b s' \<and>
    se_storage s' = se_storage s \<and> se_prefix s' = q"
proof -
  have "b \<noteq> []" using assms(1) by (simp add: set_up_def sound_bucket_def)
  then have "browser_effect b (handleNavigatePrefix q) (w_buckets w) (se_store s, []) = fetchObjects b q (se_store s, [])"
    using assms(1) by (simp add: browser_effect_def page_prefix_navigate set_up_def)
  then show ?thesis
    using shown_after [OF assms(1,2,4,5), of none "se_store s"] assms(3,4)
    by (auto simp: run_op_def show_folder_def page_prefix_navigate on_screen_def)
qed

lemma refreshed:
  assumes "set_up w groups b" "w_backend w = be" and "se_bucket s = b" and "utf8_bytes (se_prefix s) \<noteq> None" and "all_valid (contents (se_storage s)) b"
  shows "\<exists>s'. refresh w none s = Some s' \<and> on_screen contents b s' \<and>
    se_storage s' = se_storage s \<and> se_prefix s' = se_prefix s"
proof -
  have "b \<noteq> []" using assms(1) by (simp add: set_up_def sound_bucket_def)
  then show ?thesis
    using shown_after [OF assms(1,2,4,5), of none "se_store s"] assms(3,4)
    by (auto simp: refresh_def handleRefresh_def page_prefix_navigate on_screen_def)
qed

text \<open>A change of the storage keeps the keys readable if the key changed is.\<close>

lemma valid_set:
  "all_valid (contents st) b \<Longrightarrow> valid_utf8 k \<Longrightarrow>
   all_valid ((contents st)(the_utf8 b := (contents st (the_utf8 b))(k := v))) b"
  by (simp add: all_valid_def)

lemma delete_op:
  assumes "set_up w groups b" "w_backend w = be" and s: "on_screen contents b s" "all_valid (contents (se_storage s)) b"
    and k: "sound_key k"
  shows "\<exists>s'. run_op w none (Delete_Key k) s = Some s' \<and> on_screen contents b s' \<and>
    all_valid (contents (se_storage s')) b \<and> spec_of contents s' = spec_op groups b (Delete_Key k) (spec_of contents s)"
proof -
  have su: "signed_in w groups" "sound_bucket b" using assms(1) by (simp_all add: set_up_def)
  have sb: "se_bucket s = b" "utf8_bytes (se_prefix s) \<noteq> None" using s(1) by (simp_all add: on_screen_def)
  obtain p where p: "buildObjectPath b k = Some p" using sound_path [OF su(2) k] by blast
  let ?rq = "wire_request w none" and ?bb = "the_utf8 b" and ?kb = "the_utf8 k"
  obtain st' where del: "be_delete be (se_storage s) ?bb ?kb = Some st'" using delete_succeeds by blast
  have sent: "send w DELETE p ?rq (se_storage s) =
      Some (if CheckAccess groups ?bb DELETE then (Status_Reply ''deleted'' ?kb, st')
            else (Api_Error 403 ''write_not_allowed'' ''no delete access to bucket'', se_storage s))"
    using send_delete [OF su k p, of none "se_storage s"] the_utf8_bucket [OF su(2)] the_utf8_key [OF k] assms(2) del
    by auto
  show ?thesis
  proof (cases "CheckAccess groups ?bb DELETE")
    case False
    then have "run_op w none (Delete_Key k) s = Some s"
      using sent p sb delete_effects [OF p]
      by (simp add: run_op_def Let_def change_def storage_after_def failure_def)
    then show ?thesis using s False by (simp add: spec_op_def)
  next
    case True
    let ?s = "s\<lparr>se_storage := st'\<rparr>"
    have run: "run_op w none (Delete_Key k) s = refresh w none ?s"
      using sent p sb True delete_effects [OF p]
      by (simp add: run_op_def Let_def change_def storage_after_def failure_def)
    have contents': "contents st' = (contents (se_storage s))(?bb := (contents (se_storage s) ?bb)(?kb := None))"
      by (rule delete_removes [OF del])
    have "valid_utf8 ?kb" using the_utf8_key [OF k] valid_utf8_iff by blast
    then have valid: "all_valid (contents st') b" unfolding contents' by (rule valid_set [OF s(2)])
    then obtain s' where "refresh w none ?s = Some s'" "on_screen contents b s'" "se_storage s' = st'"
        "se_prefix s' = se_prefix s"
      using refreshed [OF assms(1,2), of ?s none] sb by auto
    then show ?thesis
      using run valid contents' True by (simp add: spec_op_def spec_of_def spec_set_def)
  qed
qed

lemma upload_op:
  assumes "set_up w groups b" "w_backend w = be" and s: "on_screen contents b s" "all_valid (contents (se_storage s)) b"
    and k: "sound_key (se_prefix s @ name)"
  shows "\<exists>s'. run_op w none (Upload_File name body file_type len) s = Some s' \<and> on_screen contents b s' \<and>
    all_valid (contents (se_storage s')) b \<and>
    spec_of contents s' = spec_op groups b (Upload_File name body file_type len) (spec_of contents s)"
proof -
  have su: "signed_in w groups" "sound_bucket b" using assms(1) by (simp_all add: set_up_def)
  have sb: "se_bucket s = b" "utf8_bytes (se_prefix s) \<noteq> None" using s(1) by (simp_all add: on_screen_def)
  let ?k = "se_prefix s @ name"
  obtain p where p: "buildObjectPath b ?k = Some p" using sound_path [OF su(2) k] by blast
  let ?ct = "the (utf8_bytes (upload_content_type file_type))"
  let ?rq = "(wire_request w body)\<lparr>ar_content_type := ?ct, ar_content_length := Some len\<rparr>"
  let ?bb = "the_utf8 b" and ?kb = "the_utf8 ?k" and ?u = "upload_of body file_type len"
  obtain st' where put: "be_put be (se_storage s) ?bb ?kb ?u = Some st'" using put_succeeds by blast
  have sent: "send w PUT p ?rq (se_storage s) =
      Some (if CheckAccess groups ?bb PUT then (Status_Reply ''uploaded'' ?kb, st')
            else (Api_Error 403 ''write_not_allowed'' ''no write access to bucket'', se_storage s))"
    using send_upload [OF su k p, where body = body and ct = ?ct and len = "Some len" and st = "se_storage s"] the_utf8_bucket [OF su(2)]
      the_utf8_key [OF k] assms(2) put
    by (auto simp: upload_of_def)
  have key: "upload_key (se_prefix s) name = ?k" by (simp add: upload_key_def)
  show ?thesis
  proof (cases "CheckAccess groups ?bb PUT")
    case False
    then have "run_op w none (Upload_File name body file_type len) s = Some s"
      using sent p sb upload_effects [OF p]
      by (simp add: run_op_def Let_def change_def storage_after_def failure_def key case_prod_beta)
    then show ?thesis using s False by (simp add: spec_op_def spec_of_def)
  next
    case True
    let ?s = "s\<lparr>se_storage := st'\<rparr>"
    have run: "run_op w none (Upload_File name body file_type len) s = refresh w none ?s"
      using sent p sb True upload_effects [OF p]
      by (simp add: run_op_def Let_def change_def storage_after_def failure_def key case_prod_beta)
    have contents': "contents st' = (contents (se_storage s))(?bb := (contents (se_storage s) ?bb)(?kb \<mapsto> ?u))"
      by (rule put_stores [OF put])
    have "valid_utf8 ?kb" by (rule sound_key_suffix [OF k])
    then have valid: "all_valid (contents st') b" unfolding contents' by (rule valid_set [OF s(2)])
    then obtain s' where "refresh w none ?s = Some s'" "on_screen contents b s'" "se_storage s' = st'"
        "se_prefix s' = se_prefix s"
      using refreshed [OF assms(1,2), of ?s none] sb by auto
    then show ?thesis
      using run valid contents' True by (simp add: spec_op_def spec_of_def spec_set_def)
  qed
qed

lemma session_refines_from:
  assumes w: "set_up w groups b" "w_backend w = be"
  shows "on_screen contents b s \<Longrightarrow> all_valid (contents (se_storage s)) b \<Longrightarrow> ops_sound (se_prefix s) ops \<Longrightarrow>
    \<exists>s'. run_session w none ops s = Some s' \<and> on_screen contents b s' \<and>
      spec_of contents s' = fold (spec_op groups b) ops (spec_of contents s)"
proof (induction ops arbitrary: s)
  case (Cons op ops)
  have "\<exists>s'. run_op w none op s = Some s' \<and> on_screen contents b s' \<and>
      all_valid (contents (se_storage s')) b \<and> spec_of contents s' = spec_op groups b op (spec_of contents s)"
  proof (cases op)
    case (Open_Folder q)
    then have "utf8_bytes q \<noteq> None" "se_bucket s = b" using Cons.prems by (simp_all add: op_sound_def on_screen_def)
    from open_folder [OF w this(2,1) Cons.prems(2), of none]
    obtain s' where "run_op w none op s = Some s'" "on_screen contents b s'" "se_storage s' = se_storage s" "se_prefix s' = q"
      using Open_Folder by blast
    then show ?thesis using Cons.prems(2) Open_Folder by (simp add: spec_of_def spec_op_def)
  next
    case (Delete_Key k)
    then show ?thesis using delete_op [OF w Cons.prems(1,2)] Cons.prems(3) by (simp add: op_sound_def)
  next
    case (Upload_File name body file_type len)
    then show ?thesis using upload_op [OF w Cons.prems(1,2)] Cons.prems(3) by (simp add: op_sound_def)
  qed
  then obtain s1 where s1: "run_op w none op s = Some s1" "on_screen contents b s1"
      "all_valid (contents (se_storage s1)) b" "spec_of contents s1 = spec_op groups b op (spec_of contents s)"
    by blast
  have "se_prefix s1 = (case op of Open_Folder q \<Rightarrow> q | _ \<Rightarrow> se_prefix s)"
    using arg_cong [OF s1(4), of sp_folder]
    by (simp add: spec_of_def spec_op_def spec_set_def split: session_op.splits if_splits)
  then have "ops_sound (se_prefix s1) ops" using Cons.prems(3) by simp
  from Cons.IH [OF s1(2,3) this] show ?case using s1(1,4) by simp
qed simp

end


section \<open>Properties\<close>

text \<open>
  C2. A whole session implements its specification. A signed-in user who may read a bucket enters
  it, opens folders, deletes and uploads in any order, one operation after the other, all pages of
  a listing being loaded; the storage keeps the promises of S3 and is up. Then every operation
  comes to its end, the objects in the storage are those the specification says (an operation
  without its right changes nothing, one with it changes exactly that object), the folder is the
  one last opened, and the screen shows each object and each folder of it exactly once, without
  error, spinner or further page.
\<close>

theorem session_refines_storage:
  assumes "reliable_storage (w_backend w) contents" and "set_up w groups b"
    and "all_valid (contents st) b" and "ops_sound [] ops"
  shows "\<exists>s. run_session w none (Open_Folder [] # ops) (enter st b) = Some s \<and>
    (let sp = fold (spec_op groups b) ops \<lparr>sp_contents = contents st, sp_folder = []\<rparr>
     in contents (se_storage s) = sp_contents sp \<and> br_bucket (se_store s) = b \<and>
        br_prefix (se_store s) = sp_folder sp \<and>
        shows_folder (sp_contents sp) (the_utf8 b) (the_utf8 (sp_folder sp)) (se_store s))"
proof -
  note st = reliable_storage.open_folder [OF assms(1)] reliable_storage.session_refines_from [OF assms(1)]
  have "utf8_bytes [] \<noteq> None" by code_simp
  moreover have "se_bucket (enter st b) = b" "se_storage (enter st b) = st" by (simp_all add: enter_def)
  ultimately obtain s1 where s1: "run_op w none (Open_Folder []) (enter st b) = Some s1" "on_screen contents b s1"
      "se_storage s1 = st" "se_prefix s1 = []"
    using st(1) [OF assms(2) refl, of "enter st b" "[]" none] assms(3) by auto
  then obtain s where s: "run_session w none ops s1 = Some s" "on_screen contents b s"
      "spec_of contents s = fold (spec_op groups b) ops (spec_of contents s1)"
    using st(2) [OF assms(2) refl, of s1 ops none] assms(3,4) by auto
  have "spec_of contents s1 = \<lparr>sp_contents = contents st, sp_folder = []\<rparr>" using s1 by (simp add: spec_of_def)
  moreover have "sp_contents (spec_of contents s) = contents (se_storage s)" "sp_folder (spec_of contents s) = se_prefix s"
    by (simp_all add: spec_of_def)
  ultimately show ?thesis
    using s s1(1) by (auto simp: on_screen_def Let_def)
qed

definition sample_world :: "gostr list \<Rightarrow> (unit memory, unit) world" where
  "sample_world groups =
     \<lparr>w_location = id, w_lower = map lower_byte,
      w_verify = (\<lambda>tok. if tok = bytes ''t'' then Some (bytes ''u'', groups) else None),
      w_backend = memory_backend, w_token = js ''t'', w_translate = (\<lambda>key _. key), w_buckets = []\<rparr>"

theorem session_refines_storage_witness:
  "\<exists>s. run_session (sample_world [bytes ''docs-rw'']) ()
       [Open_Folder [], Upload_File (js ''x y'') () [] 3, Open_Folder (js ''d/''), Upload_File (js ''z'') () [] 4]
       (enter [] (js ''docs'')) = Some s \<and>
     shows_folder (mem_contents (se_storage s)) (bytes ''docs'') (bytes ''d/'') (se_store s) \<and>
     mem_contents (se_storage s) (bytes ''docs'') (bytes ''x y'') \<noteq> None"
proof -
  let ?w = "sample_world [bytes ''docs-rw'']" and ?b = "js ''docs''"
  let ?ops = "[Upload_File (js ''x y'') () [] 3, Open_Folder (js ''d/''), Upload_File (js ''z'') () [] 4]"
  let ?sp = "fold (spec_op [bytes ''docs-rw''] ?b) ?ops \<lparr>sp_contents = mem_contents ([] :: unit memory), sp_folder = []\<rparr>"
  have rel: "reliable_storage (w_backend ?w) mem_contents"
    by (simp add: sample_world_def memory.reliable_storage_axioms)
  have "signed_in ?w [bytes ''docs-rw'']" "sound_bucket ?b"
    "CheckAccess [bytes ''docs-rw''] (the_utf8 ?b) GET" "canRead (bucket_info_for (w_buckets ?w) ?b)"
    by code_simp+
  then have ready: "set_up ?w [bytes ''docs-rw''] ?b" by (simp add: set_up_def)
  have valid: "all_valid (mem_contents ([] :: unit memory)) ?b" by (simp add: all_valid_def mem_contents_def)
  have sound: "ops_sound [] ?ops" by code_simp
  have folder: "sp_folder ?sp = js ''d/''" "the_utf8 (js ''d/'') = bytes ''d/''" "the_utf8 ?b = bytes ''docs''"
    by code_simp+
  have kept: "sp_contents ?sp (bytes ''docs'') (bytes ''x y'') \<noteq> None" by code_simp
  show ?thesis
    using session_refines_storage [OF rel ready valid sound, of "()"] folder kept unfolding Let_def by metis
qed


text \<open>A bucket of the gateway's listing as the client's store takes it in.\<close>

definition to_bucket_info :: "gostr \<times> policyGrants \<Rightarrow> bucket_info" where
  "to_bucket_info r =
     (case r of (name, g) \<Rightarrow>
        \<lparr>bi_name = text_of name,
         bi_permissions = \<lparr>perm_read = grant_read g, perm_write = grant_write g, perm_delete = Some (grant_delete g)\<rparr>,
         bi_object_count = None, bi_size_bytes = None, bi_stats_truncated = None, bi_quota_bytes = None\<rparr>)"

lemma bucket_info_of_row:
  assumes "(bb, g) \<in> set rows" and "distinct (map fst rows)" and "\<forall>n\<in>fst ` set rows. valid_utf8 n"
    and "utf8_bytes b = Some bb"
  shows "bucket_info_for (map to_bucket_info rows) b = Some (to_bucket_info (bb, g))"
  using assms(1-3)
proof (induction rows)
  case (Cons r rows)
  obtain n h where r: "r = (n, h)" by fastforce
  have name: "text_of n = b \<longleftrightarrow> n = bb"
    using Cons.prems(3) text_of_utf8 [OF assms(4)] assms(4) by (auto simp: r valid_utf8_def)
  have "bi_name (to_bucket_info (n, h)) = text_of n" by (simp add: to_bucket_info_def)
  then have head: "bucket_info_for (map to_bucket_info (r # rows)) b =
      (if n = bb then Some (to_bucket_info (n, h)) else bucket_info_for (map to_bucket_info rows) b)"
    using name by (simp add: r bucket_info_for_def)
  show ?case
  proof (cases "n = bb")
    case True
    then have "h = g" using Cons.prems(1,2) by (force simp: r)
    then show ?thesis unfolding head using True by simp
  next
    case False
    then show ?thesis unfolding head using Cons by (simp add: r)
  qed
qed simp

text \<open>
  C35. Where the interface and the gateway disagree: on a bucket that the gateway lists with the
  right to write and without the right to delete (a \<open>wo\<close> group), the client offers to delete a
  file, and the confirmed request is refused: the message says so, and the storage, the listing
  and the folder stay as they were.
\<close>

theorem write_only_delete_refused:
  assumes "HandleListBuckets (Some (w_backend w)) st groups = (Buckets_Reply rows :: 'body api_reply)"
    and "signed_in w groups" and "sound_bucket b" and "sound_key k"
    and "utf8_bytes b = Some bb" and "(bb, g) \<in> set rows" and "grant_write g" and "\<not> grant_delete g"
    and "bb \<noteq> WildcardBucket" and "\<not> snd (WildcardGrant groups)" and "\<forall>n\<in>fst ` set rows. valid_utf8 n"
    and "\<not> row_is_prefix r" and "se_bucket s = b" and "w_buckets w = map to_bucket_info rows"
  shows "Delete_Action \<in> set (actions_cell (canWrite (bucket_info_for (w_buckets w) b)) r) \<and>
    handleDelete t b k True (change w DELETE (wire_request w none) (se_storage s)) = [Toast_Error (t (js ''errors.forbidden''))] \<and>
    run_op w none (Delete_Key k) s = Some s"
proof -
  have listing: "distinct (map fst rows)" "methodGranted g m \<longleftrightarrow> CheckAccess groups bb m" for m
    using listed_rights_are_granted [OF assms(1,9)] assms(6,10) by auto
  then have info: "bucket_info_for (w_buckets w) b = Some (to_bucket_info (bb, g))"
    using bucket_info_of_row [OF assms(6) _ assms(11,5)] assms(14) by simp
  have refused: "\<not> CheckAccess groups bb DELETE" using listing(2) [of DELETE] assms(8) by simp
  obtain p where p: "buildObjectPath b k = Some p" using sound_path [OF assms(3,4)] by blast
  have "send w DELETE p (wire_request w none) (se_storage s) =
      Some (Api_Error 403 ''write_not_allowed'' ''no delete access to bucket'', se_storage s)"
    using send_delete [OF assms(2,3,4) p, of none "se_storage s"] refused assms(5) by auto
  then have change: "change w DELETE (wire_request w none) (se_storage s) p =
        Some (Axios_Error (Some \<lparr>err_status = 403, err_message = Some (js ''no delete access to bucket'')\<rparr>))"
      and storage: "storage_after w DELETE (wire_request w none) (se_storage s) (Some p) = se_storage s"
    by (simp_all add: change_def failure_def storage_after_def del: js_Cons)
  have toast: "handleDelete t b k True (change w DELETE (wire_request w none) (se_storage s)) =
      [Toast_Error (t (js ''errors.forbidden''))]" for t
    using change p by (simp add: handleDelete_def confirm_delete_def forbidden_def del: js_Cons)
  have "run_op w none (Delete_Key k) s = Some s"
    using toast [of "plain (w_translate w)"] storage p assms(13) by (simp add: run_op_def del: js_Cons)
  moreover have "canWrite (bucket_info_for (w_buckets w) b)"
    using info assms(7) by (simp add: canWrite_def to_bucket_info_def)
  ultimately show ?thesis using toast assms(12) by (simp add: actions_cell_def rowActions_def)
qed

theorem write_only_delete_refused_witness:
  "run_op ((sample_world [bytes ''in-wo''])\<lparr>w_buckets :=
       [to_bucket_info (bytes ''in'', \<lparr>grant_read = False, grant_write = True, grant_delete = False\<rparr>)]\<rparr>) ()
     (Delete_Key (js ''k'')) (enter [] (js ''in'')) = Some (enter [] (js ''in''))"
proof -
  let ?g = "\<lparr>grant_read = False, grant_write = True, grant_delete = False\<rparr>"
  let ?rows = "[(bytes ''in'', ?g)]"
  let ?w = "(sample_world [bytes ''in-wo''])\<lparr>w_buckets := map to_bucket_info ?rows\<rparr>"
  have "HandleListBuckets (Some memory_backend) ([] :: unit memory) [bytes ''in-wo''] = Buckets_Reply ?rows"
    by code_simp
  then have list: "HandleListBuckets (Some (w_backend ?w)) [] [bytes ''in-wo''] = (Buckets_Reply ?rows :: unit api_reply)"
    by (simp add: sample_world_def)
  have "signed_in (sample_world [bytes ''in-wo'']) [bytes ''in-wo'']" by code_simp
  then have signed: "signed_in ?w [bytes ''in-wo'']" by (simp add: signed_in_def cong: option.case_cong)
  have facts: "sound_bucket (js ''in'')" "sound_key (js ''k'')"
    "utf8_bytes (js ''in'') = Some (bytes ''in'')" "bytes ''in'' \<noteq> WildcardBucket"
    "\<not> snd (WildcardGrant [bytes ''in-wo''])"
    by code_simp+
  have valid: "valid_utf8 (bytes ''in'')" using facts(3) valid_utf8_iff by blast
  have rest: "(bytes ''in'', ?g) \<in> set ?rows" "grant_write ?g" "\<not> grant_delete ?g"
    "\<forall>n\<in>fst ` set ?rows. valid_utf8 n" "\<not> row_is_prefix (object_row id (sample_object (js ''k'')))"
    "se_bucket (enter ([] :: unit memory) (js ''in'')) = js ''in''" "w_buckets ?w = map to_bucket_info ?rows"
    using valid by (simp_all add: object_row_def enter_def)
  have "run_op ?w () (Delete_Key (js ''k'')) (enter [] (js ''in'')) = Some (enter [] (js ''in''))"
    by (rule write_only_delete_refused [THEN conjunct2, THEN conjunct2, OF list signed facts(1-3)
          rest(1-3) facts(4,5) rest(4-7)])
  then show ?thesis by (simp only: list.map)
qed

text \<open>
  An SVG image stored as such cannot be previewed: the preview renders it as an image from the
  bytes fetched, and the gateway labels every such object as octet-stream, a type no browser
  loads an SVG image from; the download is not affected.
\<close>

theorem svg_preview_loses_its_type:
  assumes "byte_lowering lower" and "isActiveContentType (bareMediaType lower ct)"
    and "CheckAccess groups bb GET" and "bb \<noteq> []" and "kb \<noteq> []"
    and "be_get be st bb kb = Some ob" and "ob_type ob = Some ct"
    and "previewKindFor lo k None = Kind Svg" and "pp_key props = k" and "fp_status v = Ready"
  shows "HandleGetObject lower (Some be) st groups (bb, kb) =
      (Body_Reply \<lparr>dp_content_type = octetStream, dp_inline = False\<rparr> (sanitizeFilename kb) ob, st) \<and>
    dlg_body (FilePreview lo t to_num of_num props v) = Img (fp_url v) (baseName k)"
proof -
  have "neutralizeContentType lower ct = \<lparr>dp_content_type = octetStream, dp_inline = False\<rparr>"
    using assms(2) by (auto simp: neutralizeContentType_def Let_def isActiveContentType_def activeContentTypes_def bytes_def)
  then show ?thesis
    using assms by (simp add: HandleGetObject_def guarded_def deref_def FilePreview_def Let_def renderBody_def structured_def)
qed

theorem svg_preview_loses_its_type_witness:
  "fst (HandleGetObject (map lower_byte) (Some memory_backend)
     [((bytes ''b'', bytes ''i.svg''), \<lparr>upl_body = (), upl_type = bytes ''image/svg+xml'', upl_length = None\<rparr>)]
     [bytes ''b-ro''] (bytes ''b'', bytes ''i.svg'')) =
     Body_Reply \<lparr>dp_content_type = octetStream, dp_inline = False\<rparr> (bytes ''i.svg'')
       (mem_object \<lparr>upl_body = (), upl_type = bytes ''image/svg+xml'', upl_length = None\<rparr>)"
proof -
  let ?u = "\<lparr>upl_body = (), upl_type = bytes ''image/svg+xml'', upl_length = None\<rparr>"
  let ?props = "\<lparr>pp_bucket = js ''b'', pp_key = js ''i.svg'', pp_size = None, pp_visible = True\<rparr>"
  let ?view = "\<lparr>fp_status = Ready, fp_url = Some 0, fp_text = [], fp_mode = Rendered, fp_ref = Some 0\<rparr>"
  have active: "isActiveContentType (bareMediaType (map lower_byte) (bytes ''image/svg+xml''))" by code_simp
  have access: "CheckAccess [bytes ''b-ro''] (bytes ''b'') GET" by code_simp
  have names: "bytes ''b'' \<noteq> []" "bytes ''i.svg'' \<noteq> []" by (simp_all add: bytes_def)
  have stored: "be_get memory_backend [((bytes ''b'', bytes ''i.svg''), ?u)] (bytes ''b'') (bytes ''i.svg'') = Some (mem_object ?u)"
    "ob_type (mem_object ?u) = Some (bytes ''image/svg+xml'')"
    by (simp_all add: memory_backend_def mem_contents_def mem_object_def)
  have kind: "previewKindFor lower_ascii (js ''i.svg'') None = Kind Svg" by code_simp
  have name: "sanitizeFilename (bytes ''i.svg'') = bytes ''i.svg''" by code_simp
  note served = svg_preview_loses_its_type [OF ascii_bytes.byte_lowering_axioms active access names stored kind,
      where props = ?props and v = ?view, THEN conjunct1]
  show ?thesis by (subst served) (simp_all add: name)
qed

end
