(* ===== verification/Browser_Events.thy ===== *)
theory Browser_Events
  imports Object_Browser Bucket_Views I18n
begin

text \<open>
  What the object browser does with clicks, keys and typing (\<open>ObjectBrowser.tsx\<close>), with the
  texts that carry a name (\<open>ObjectBrowser.tsx\<close>, \<open>BucketList.tsx\<close>, \<open>UploadZone.tsx\<close>). A click
  or a key reaches the listeners from its target outwards until one of them stops it, as React
  delivers it; the menu of a row is delivered through the cell that holds it. The field of the
  search keeps its own text as long as it is mounted (it is not given a value), and starts empty.
\<close>

section \<open>Texts with names\<close>

text \<open>A text with the names it is given, by the section and the key of the bundles.\<close>

type_synonym named_text = "string \<times> string \<times> (string \<times> jstr) list"

definition say :: "translation \<Rightarrow> named_text \<Rightarrow> jstr" where
  "say t nt =
     (case nt of (sec, k, args) \<Rightarrow> t (js sec @ dot # js k) (map (\<lambda>(n, v). (js n, v)) args))"

definition delete_question :: "jstr \<Rightarrow> named_text" where
  "delete_question key = (''browser'', ''deleteConfirm'', [(''name'', fileName key)])"

definition download_label :: "row \<Rightarrow> named_text" where
  "download_label r = (''common'', ''downloadFile'', [(''name'', row_name r)])"

definition more_label :: "row \<Rightarrow> named_text" where
  "more_label r = (''common'', ''moreActions'', [(''name'', row_name r)])"

definition row_label :: "row \<Rightarrow> named_text" where
  "row_label r =
     (if row_is_prefix r then (''common'', ''openFolder'', [(''name'', row_name r)])
      else (''preview'', ''open'', [(''name'', row_name r)]))"

definition card_label :: "bucket_info \<Rightarrow> named_text" where
  "card_label b = (''common'', ''openFolder'', [(''name'', bi_name b)])"

definition quota_usage :: "quota_bar \<Rightarrow> named_text" where
  "quota_usage q =
     (''buckets'', ''quotaUsage'', [(''used'', fst (qb_tooltip q)), (''quota'', snd (qb_tooltip q))])"

definition access_title :: "(jstr \<Rightarrow> jstr) \<Rightarrow> bucket_info \<Rightarrow> jstr" where
  "access_title t b = t (js ''buckets.access'') @ js '': '' @ fst (accessBadge (bi_permissions b) t)"

definition uploaded_text :: "jstr \<Rightarrow> named_text" where
  "uploaded_text name = (''messages'', ''uploaded'', [(''name'', name)])"

definition upload_failed_text :: "jstr \<Rightarrow> named_text" where
  "upload_failed_text name = (''errors'', ''uploadFailed'', [(''name'', name)])"

definition count_text :: "jstr \<Rightarrow> named_text" where
  "count_text n = (''common'', ''objects'', [(''count'', n)])"

text \<open>The names given are the names the text of the bundle interpolates.\<close>

definition names_fit :: "text_bundle \<Rightarrow> named_text \<Rightarrow> bool" where
  "names_fit b nt =
     (case nt of (sec, k, args) \<Rightarrow>
        (case message b sec k of
           Some s \<Rightarrow> set (placeholders s) = set (map (\<lambda>(n, _). js n) args)
         | None \<Rightarrow> False))"

section \<open>State\<close>

text \<open>The component's state, and the text in the search field while it is on screen.\<close>

record browser_ui =
  bu_search :: jstr
  bu_meta :: "jstr option"
  bu_preview :: "(jstr \<times> int) option"
  bu_field :: "jstr option"

definition bu_init :: browser_ui where
  "bu_init = \<lparr>bu_search = [], bu_meta = None, bu_preview = None, bu_field = None\<rparr>"

text \<open>What the page gives the component: the folder, the store's listing and the right to write.\<close>

record listing =
  li_prefix :: jstr
  li_store :: browser_state
  li_writable :: bool

definition listed_rows :: "(jstr \<Rightarrow> jstr) \<Rightarrow> (jstr \<Rightarrow> jstr) \<Rightarrow> listing \<Rightarrow> browser_ui \<Rightarrow> row list" where
  "listed_rows lower show_date li ui =
     dataSource lower show_date (bu_search ui) (li_prefix li) (br_prefixes (li_store li)) (br_objects (li_store li))"

definition browser_view_of ::
  "(jstr \<Rightarrow> jstr) \<Rightarrow> (jstr \<Rightarrow> jstr) \<Rightarrow> (jstr \<Rightarrow> jstr) \<Rightarrow> (jstr \<Rightarrow> jstr \<Rightarrow> int) \<Rightarrow> listing \<Rightarrow> browser_ui \<Rightarrow> browser_view"
  where
  "browser_view_of lower t show_date cmp li ui =
     ObjectBrowser lower t show_date cmp (bu_search ui) (bu_meta ui) (bu_preview ui) (li_prefix li)
       (br_objects (li_store li)) (br_prefixes (li_store li)) (br_loading (li_store li)) (li_writable li)
       (br_truncated (li_store li))"

text \<open>A render with the skeleton takes the field away; a field that comes back is empty.\<close>

definition shows_skeleton :: "(jstr \<Rightarrow> jstr) \<Rightarrow> (jstr \<Rightarrow> jstr) \<Rightarrow> listing \<Rightarrow> browser_ui \<Rightarrow> bool" where
  "shows_skeleton lower show_date li ui \<longleftrightarrow>
     br_loading (li_store li) \<and> length (listed_rows lower show_date li ui) = 0"

definition rendered :: "(jstr \<Rightarrow> jstr) \<Rightarrow> (jstr \<Rightarrow> jstr) \<Rightarrow> listing \<Rightarrow> browser_ui \<Rightarrow> browser_ui" where
  "rendered lower show_date li ui =
     ui\<lparr>bu_field := (if shows_skeleton lower show_date li ui then None
                    else Some (nullish (bu_field ui) []))\<rparr>"

section \<open>Events\<close>

text \<open>The dialog that asks before a deletion; its button runs \<open>confirm_delete\<close> for the key.\<close>

record confirm_dialog =
  cd_title :: jstr
  cd_content :: jstr
  cd_ok :: jstr
  cd_danger :: bool
  cd_cancel :: jstr
  cd_key :: jstr

definition delete_dialog :: "translation \<Rightarrow> jstr \<Rightarrow> confirm_dialog" where
  "delete_dialog t key =
     \<lparr>cd_title = plain t (js ''browser.deleteTitle''), cd_content = say t (delete_question key),
      cd_ok = plain t (js ''common.delete''), cd_danger = True, cd_cancel = plain t (js ''common.cancel''),
      cd_key = key\<rparr>"

datatype ui_call =
  Navigate_Call jstr
| Show_Preview jstr int
| Show_Meta jstr
| Download_Call jstr
| Confirm_Call confirm_dialog
| Load_More_Call
| Set_Search jstr
| Hide_Meta
| Hide_Preview

text \<open>The parts of a row; the entries of its menu belong to the actions cell.\<close>

datatype row_part = Row_Cell | Actions_Gap | Download_Button | More_Button | Menu_Entry row_action

datatype ui_event =
  Click_On row row_part
| Key_On row row_part jstr
| Search_Input jstr
| Load_More_Click
| Close_Meta
| Close_Preview

text \<open>A listener: whether it stops the event, and the calls it makes.\<close>

fun bubble :: "(bool \<times> ui_call list) list \<Rightarrow> ui_call list" where
  "bubble [] = []"
| "bubble ((stops, cs) # outer) = cs @ (if stops then [] else bubble outer)"

definition activation_call :: "row \<Rightarrow> ui_call" where
  "activation_call r =
     (case handleRowActivate r of Navigate_Prefix q \<Rightarrow> Navigate_Call q | Open_Preview k n \<Rightarrow> Show_Preview k n)"

definition action_call :: "translation \<Rightarrow> row \<Rightarrow> row_action \<Rightarrow> ui_call" where
  "action_call t r a =
     (case a of
        Download_Action \<Rightarrow> Download_Call (row_key r)
      | Info_Action \<Rightarrow> Show_Meta (row_key r)
      | Delete_Action \<Rightarrow> Confirm_Call (delete_dialog t (row_key r)))"

definition click_path :: "translation \<Rightarrow> row \<Rightarrow> row_part \<Rightarrow> (bool \<times> ui_call list) list" where
  "click_path t r part =
     (let row_click = (False, [activation_call r]); actions_div = (True, [])
      in case part of
           Row_Cell \<Rightarrow> [row_click]
         | Actions_Gap \<Rightarrow> [actions_div, row_click]
         | Download_Button \<Rightarrow> [(True, [Download_Call (row_key r)]), actions_div, row_click]
         | More_Button \<Rightarrow> [(True, []), actions_div, row_click]
         | Menu_Entry a \<Rightarrow> [(False, [action_call t r a]), actions_div, row_click])"

definition key_path :: "row \<Rightarrow> row_part \<Rightarrow> jstr \<Rightarrow> (bool \<times> ui_call list) list" where
  "key_path r part key =
     (let row_key_down = (False, if key = js ''Enter'' \<or> key = js '' '' then [activation_call r] else [])
      in case part of Row_Cell \<Rightarrow> [row_key_down] | _ \<Rightarrow> [(True, []), row_key_down])"

definition calls_of :: "translation \<Rightarrow> ui_event \<Rightarrow> ui_call list" where
  "calls_of t e =
     (case e of
        Click_On r part \<Rightarrow> bubble (click_path t r part)
      | Key_On r part key \<Rightarrow> bubble (key_path r part key)
      | Search_Input s \<Rightarrow> [Set_Search s]
      | Load_More_Click \<Rightarrow> [Load_More_Call]
      | Close_Meta \<Rightarrow> [Hide_Meta]
      | Close_Preview \<Rightarrow> [Hide_Preview])"

definition apply_call :: "ui_call \<Rightarrow> browser_ui \<Rightarrow> browser_ui" where
  "apply_call c ui =
     (case c of
        Show_Preview k n \<Rightarrow> ui\<lparr>bu_preview := Some (k, n)\<rparr>
      | Show_Meta k \<Rightarrow> ui\<lparr>bu_meta := Some k\<rparr>
      | Set_Search s \<Rightarrow> ui\<lparr>bu_search := s, bu_field := Some s\<rparr>
      | Hide_Meta \<Rightarrow> ui\<lparr>bu_meta := None\<rparr>
      | Hide_Preview \<Rightarrow> ui\<lparr>bu_preview := None\<rparr>
      | _ \<Rightarrow> ui)"

text \<open>What is on screen to be clicked.\<close>

definition has_part :: "bool \<Rightarrow> row \<Rightarrow> row_part \<Rightarrow> bool" where
  "has_part writable r part =
     (case part of
        Row_Cell \<Rightarrow> True
      | Menu_Entry a \<Rightarrow> \<not> row_is_prefix r \<and> a \<in> set (rowActions writable)
      | _ \<Rightarrow> \<not> row_is_prefix r)"

definition offered :: "(jstr \<Rightarrow> jstr) \<Rightarrow> (jstr \<Rightarrow> jstr) \<Rightarrow> listing \<Rightarrow> browser_ui \<Rightarrow> ui_event \<Rightarrow> bool" where
  "offered lower show_date li ui e =
     (if shows_skeleton lower show_date li ui then False
      else
        (case e of
           Click_On r part \<Rightarrow> r \<in> set (listed_rows lower show_date li ui) \<and> has_part (li_writable li) r part
         | Key_On r part _ \<Rightarrow> r \<in> set (listed_rows lower show_date li ui) \<and> has_part (li_writable li) r part
         | Search_Input _ \<Rightarrow> True
         | Load_More_Click \<Rightarrow> br_truncated (li_store li)
         | Close_Meta \<Rightarrow> truthy (bu_meta ui)
         | Close_Preview \<Rightarrow> bu_preview ui \<noteq> None))"

text \<open>
  A run of events, each with the listing it meets: the state it ends in and the calls made, in
  order; none if one of the events has nothing on screen to happen to.
\<close>

fun ui_run ::
  "(jstr \<Rightarrow> jstr) \<Rightarrow> (jstr \<Rightarrow> jstr) \<Rightarrow> translation \<Rightarrow> (listing \<times> ui_event) list \<Rightarrow> browser_ui \<Rightarrow>
     (browser_ui \<times> ui_call list) option" where
  "ui_run lower show_date t [] ui = Some (ui, [])"
| "ui_run lower show_date t ((li, e) # es) ui =
     (let ui0 = rendered lower show_date li ui
      in if offered lower show_date li ui0 e then
           (case ui_run lower show_date t es (fold apply_call (calls_of t e) ui0) of
              None \<Rightarrow> None
            | Some (ui', cs) \<Rightarrow> Some (ui', calls_of t e @ cs))
         else None)"

section \<open>What the user asked for\<close>

definition asks_download :: "ui_event \<Rightarrow> jstr option" where
  "asks_download e =
     (case e of
        Click_On r Download_Button \<Rightarrow> Some (row_key r)
      | Click_On r (Menu_Entry Download_Action) \<Rightarrow> Some (row_key r)
      | _ \<Rightarrow> None)"

definition asks_delete :: "ui_event \<Rightarrow> jstr option" where
  "asks_delete e = (case e of Click_On r (Menu_Entry Delete_Action) \<Rightarrow> Some (row_key r) | _ \<Rightarrow> None)"

definition opens :: "ui_event \<Rightarrow> row option" where
  "opens e =
     (case e of
        Click_On r Row_Cell \<Rightarrow> Some r
      | Key_On r Row_Cell key \<Rightarrow> if key = js ''Enter'' \<or> key = js '' '' then Some r else None
      | _ \<Rightarrow> None)"

definition opens_folder :: "ui_event \<Rightarrow> jstr option" where
  "opens_folder e = (case opens e of Some r \<Rightarrow> if row_is_prefix r then Some (row_key r) else None | None \<Rightarrow> None)"

definition downloads :: "ui_call list \<Rightarrow> jstr list" where
  "downloads cs = List.map_filter (\<lambda>c. case c of Download_Call k \<Rightarrow> Some k | _ \<Rightarrow> None) cs"

definition confirmations :: "ui_call list \<Rightarrow> confirm_dialog list" where
  "confirmations cs = List.map_filter (\<lambda>c. case c of Confirm_Call d \<Rightarrow> Some d | _ \<Rightarrow> None) cs"

definition navigations :: "ui_call list \<Rightarrow> jstr list" where
  "navigations cs = List.map_filter (\<lambda>c. case c of Navigate_Call q \<Rightarrow> Some q | _ \<Rightarrow> None) cs"

definition listed_object :: "listing \<Rightarrow> jstr \<Rightarrow> bool" where
  "listed_object li k \<longleftrightarrow> list_ex (\<lambda>ob. obj_key ob = k) (br_objects (li_store li))"

definition listed_with_size :: "listing \<Rightarrow> jstr \<times> int \<Rightarrow> bool" where
  "listed_with_size li kn \<longleftrightarrow> list_ex (\<lambda>ob. (obj_key ob, obj_size ob) = kn) (br_objects (li_store li))"

section \<open>Lemmas\<close>

lemma map_filter_append: "List.map_filter f (xs @ ys) = List.map_filter f xs @ List.map_filter f ys"
  by (simp add: List.map_filter_def)

lemma map_filter_Cons:
  "List.map_filter f (x # xs) = (case f x of None \<Rightarrow> [] | Some y \<Rightarrow> [y]) @ List.map_filter f xs"
  by (simp add: map_filter_simps split: option.split)

lemmas asked_defs = downloads_def confirmations_def navigations_def asks_download_def asks_delete_def
  opens_def opens_folder_def

lemmas call_defs = calls_of_def click_path_def key_path_def activation_call_def action_call_def
  handleRowActivate_def

lemma calls_asked:
  "downloads (calls_of t e) = (case asks_download e of None \<Rightarrow> [] | Some k \<Rightarrow> [k])"
  "confirmations (calls_of t e) = (case asks_delete e of None \<Rightarrow> [] | Some k \<Rightarrow> [delete_dialog t k])"
  "navigations (calls_of t e) = (case opens_folder e of None \<Rightarrow> [] | Some q \<Rightarrow> [q])"
  by (cases e; simp add: asked_defs call_defs map_filter_simps Let_def
      split: row_part.split row_action.split option.split)+

lemma calls_open:
  "Show_Preview k n \<in> set (calls_of t e) \<longleftrightarrow>
     (\<exists>r. opens e = Some r \<and> \<not> row_is_prefix r \<and> row_key r = k \<and> row_size r = n)"
  by (cases e; auto simp: asked_defs call_defs Let_def split: row_part.split row_action.split)

lemma apply_call_preview:
  "bu_preview (apply_call c ui) = Some (k, n) \<Longrightarrow> bu_preview ui = Some (k, n) \<or> c = Show_Preview k n"
  by (auto simp: apply_call_def split: ui_call.splits)

lemma apply_calls_preview:
  "bu_preview (fold apply_call cs ui) = Some (k, n) \<Longrightarrow>
     bu_preview ui = Some (k, n) \<or> Show_Preview k n \<in> set cs"
proof (induction cs arbitrary: ui)
  case (Cons c cs)
  then show ?case using apply_call_preview [of c ui k n] by auto
qed simp

lemma rendered_fields [simp]:
  "bu_search (rendered lower show_date li ui) = bu_search ui" "bu_meta (rendered lower show_date li ui) = bu_meta ui"
  "bu_preview (rendered lower show_date li ui) = bu_preview ui"
  by (simp_all add: rendered_def)

lemma listed_row:
  assumes "r \<in> set (listed_rows lower show_date li ui)" and "\<not> row_is_prefix r"
  shows "listed_object li (row_key r)" and "listed_with_size li (row_key r, row_size r)"
  using assms by (auto simp: listed_rows_def dataSource_def Let_def prefix_row_def object_row_def
      listed_object_def listed_with_size_def list_ex_iff)

lemma offered_asks:
  assumes "offered lower show_date li ui e"
  shows "asks_download e = Some k \<Longrightarrow> listed_object li k"
    and "asks_delete e = Some k \<Longrightarrow> li_writable li \<and> listed_object li k"
    and "opens e = Some r \<Longrightarrow> \<not> row_is_prefix r \<Longrightarrow> listed_with_size li (row_key r, row_size r)"
  using assms listed_row
  by (auto simp: offered_def asked_defs has_part_def rowActions_def
      split: if_splits ui_event.splits row_part.splits row_action.splits)

text \<open>The skeleton of the state is the skeleton of the view.\<close>

lemma skeleton_view:
  "browser_view_of lower t show_date cmp li ui = Skeleton_View \<longleftrightarrow> shows_skeleton lower show_date li ui"
  by (simp add: browser_view_of_def ObjectBrowser_def shows_skeleton_def listed_rows_def Let_def)

lemma covered_text:
  assumes "covers en_bundle b" and "message en_bundle sec k = Some s" and "k \<notin> set plural_forms"
  shows "\<exists>s'. message b sec k = Some s' \<and> placeholders s' = placeholders s"
proof -
  obtain kvs ps where "map_of en_bundle sec = Some kvs" "map_of kvs k = Some ps" and s: "s = units ps"
    using assms(2) by (auto simp: message_def split: option.splits)
  then have "(sec, kvs) \<in> set en_bundle" "(k, ps) \<in> set kvs" by (auto dest: map_of_SomeD)
  then show ?thesis using assms(1,3) unfolding s covers_def list_all_iff by (fastforce split: option.splits)
qed

lemma named_message:
  assumes "covers en_bundle b" and "map_option placeholders (message en_bundle sec k) = Some (map js names)"
    and "k \<notin> set plural_forms" and "set names = set (map fst args)"
  shows "names_fit b (sec, k, args)"
proof -
  obtain s where s: "message en_bundle sec k = Some s" "placeholders s = map js names"
    using assms(2) by auto
  obtain s' where "message b sec k = Some s'" "placeholders s' = map js names"
    using covered_text [OF assms(1) s(1) assms(3)] s(2) by auto
  moreover have "js ` set names = js ` fst ` set args" using assms(4) by simp
  ultimately show ?thesis by (simp add: names_fit_def case_prod_beta image_image)
qed

lemma english_names:
  "map_option placeholders (message en_bundle ''browser'' ''deleteConfirm'') = Some (map js [''name''])"
  "map_option placeholders (message en_bundle ''common'' ''downloadFile'') = Some (map js [''name''])"
  "map_option placeholders (message en_bundle ''common'' ''moreActions'') = Some (map js [''name''])"
  "map_option placeholders (message en_bundle ''common'' ''openFolder'') = Some (map js [''name''])"
  "map_option placeholders (message en_bundle ''preview'' ''open'') = Some (map js [''name''])"
  "map_option placeholders (message en_bundle ''buckets'' ''quotaUsage'') = Some (map js [''used'', ''quota''])"
  "map_option placeholders (message en_bundle ''messages'' ''uploaded'') = Some (map js [''name''])"
  "map_option placeholders (message en_bundle ''errors'' ''uploadFailed'') = Some (map js [''name''])"
  "map_option placeholders (message en_bundle ''common'' ''objects'') = Some (map js [''count''])"
  by code_simp+

lemma plural_counts:
  "list_all (\<lambda>(_, b). list_all (\<lambda>f. case map_of (the (map_of b ''common'')) f of
       None \<Rightarrow> True
     | Some ps \<Rightarrow> list_all piece_closed ps \<and> concat (map piece_placeholders ps) = [''count'']) plural_forms) REGISTRY"
  by code_simp

lemma upload_texts:
  "say t (uploaded_text name) = t (js ''messages.uploaded'') [(js ''name'', name)]"
  "say t (upload_failed_text name) = t (js ''errors.uploadFailed'') [(js ''name'', name)]"
  by (simp_all add: say_def uploaded_text_def upload_failed_text_def)

section \<open>Properties\<close>

text \<open>
  C33. Clicks do what they say, and nothing else. In every run of clicks, keys and typing on
  what is on screen, the downloads started are those asked for by the download button or the menu of
  a row, in order, so activating a row never starts one; the questions before a deletion are
  those the delete entries of the menu asked, each for an object listed at that moment under the
  right to write; the folders opened are those whose rows were activated outside their actions;
  and the preview that ends up open is of a file row that was activated, listed then with that size.
\<close>

theorem clicks_do_what_they_say:
  assumes "ui_run lower show_date t events ui = Some (ui', cs)"
  shows "downloads cs = List.map_filter asks_download (map snd events) \<and>
    confirmations cs = map (delete_dialog t) (List.map_filter asks_delete (map snd events)) \<and>
    navigations cs = List.map_filter opens_folder (map snd events) \<and>
    list_all (\<lambda>(li, e).
        (case asks_download e of None \<Rightarrow> True | Some k \<Rightarrow> listed_object li k) \<and>
        (case asks_delete e of None \<Rightarrow> True | Some k \<Rightarrow> li_writable li \<and> listed_object li k)) events \<and>
    (case bu_preview ui' of
       None \<Rightarrow> True
     | Some kn \<Rightarrow> bu_preview ui = Some kn \<or>
         list_ex (\<lambda>(li, e). \<exists>r. opens e = Some r \<and> (row_key r, row_size r) = kn \<and> listed_with_size li kn) events)"
  using assms
proof (induction events arbitrary: ui cs)
  case (Cons ev events)
  obtain li e where ev: "ev = (li, e)" by fastforce
  let ?ui = "rendered lower show_date li ui"
  obtain cs1 where off: "offered lower show_date li ?ui e"
    and run: "ui_run lower show_date t events (fold apply_call (calls_of t e) ?ui) = Some (ui', cs1)"
    and cs: "cs = calls_of t e @ cs1"
    using Cons.prems by (auto simp: ev Let_def split: if_splits option.splits)
  note IH = Cons.IH [OF run]
  have opened: "bu_preview ui = Some kn \<or>
      (\<exists>r. opens e = Some r \<and> (row_key r, row_size r) = kn \<and> listed_with_size li kn)"
    if "bu_preview (fold apply_call (calls_of t e) ?ui) = Some kn" for kn
    using apply_calls_preview [of "calls_of t e" ?ui "fst kn" "snd kn"] that calls_open [of "fst kn" "snd kn" t e]
      offered_asks(3) [OF off] by (cases kn) auto
  have "downloads cs = downloads (calls_of t e) @ downloads cs1"
    "confirmations cs = confirmations (calls_of t e) @ confirmations cs1"
    "navigations cs = navigations (calls_of t e) @ navigations cs1"
    by (simp_all add: cs downloads_def confirmations_def navigations_def map_filter_append)
  moreover have "case asks_download e of None \<Rightarrow> True | Some k \<Rightarrow> listed_object li k"
    "case asks_delete e of None \<Rightarrow> True | Some k \<Rightarrow> li_writable li \<and> listed_object li k"
    using offered_asks(1,2) [OF off] by (auto split: option.split)
  moreover have "case bu_preview ui' of
       None \<Rightarrow> True
     | Some kn \<Rightarrow> bu_preview ui = Some kn \<or>
         list_ex (\<lambda>(li, e). \<exists>r. opens e = Some r \<and> (row_key r, row_size r) = kn \<and> listed_with_size li kn)
           (ev # events)"
    using IH opened by (auto simp: ev split: option.splits)
  ultimately show ?case
    using IH by (simp add: ev calls_asked map_filter_Cons split: option.split)
qed (simp add: downloads_def confirmations_def navigations_def map_filter_simps split: option.split)

definition sample_listing :: "bool \<Rightarrow> listing" where
  "sample_listing writable =
     \<lparr>li_prefix = [], li_store = br_init\<lparr>br_objects := [sample_object (js ''a'')]\<rparr>, li_writable = writable\<rparr>"

theorem clicks_do_what_they_say_witness:
  "\<exists>ui' cs. ui_run lower_ascii id (\<lambda>k _. k)
     [(sample_listing False, Click_On (object_row id (sample_object (js ''a''))) Row_Cell),
      (sample_listing False, Close_Preview),
      (sample_listing False, Click_On (object_row id (sample_object (js ''a''))) (Menu_Entry Download_Action))] bu_init =
     Some (ui', cs) \<and> downloads cs = [js ''a''] \<and> confirmations cs = []"
proof -
  let ?r = "object_row id (sample_object (js ''a''))" and ?li = "sample_listing False"
  let ?es = "[(?li, Click_On ?r Row_Cell), (?li, Close_Preview), (?li, Click_On ?r (Menu_Entry Download_Action))]"
  let ?cs = "[Show_Preview (js ''a'') 1, Hide_Preview, Download_Call (js ''a'')]"
  have run: "ui_run lower_ascii id (\<lambda>k _. k) ?es bu_init = Some (bu_init\<lparr>bu_field := Some []\<rparr>, ?cs)"
    by (simp add: sample_listing_def offered_def rendered_def shows_skeleton_def listed_rows_def dataSource_def
        matches_def br_init_def bu_init_def call_defs apply_call_def has_part_def rowActions_def nullish_def
        object_row_def sample_object_def)
  have "downloads ?cs = [js ''a'']" "confirmations ?cs = []"
    using clicks_do_what_they_say [OF run] by (simp_all add: asked_defs map_filter_simps object_row_def sample_object_def)
  then show ?thesis using run by blast
qed

text \<open>
  C34. The search outlives its field. A refresh (as after a deletion or an upload) shows the skeleton,
  which takes the search field and any open preview off the screen; when the listing is back
  the field is empty, and the search is still in force: the rows shown are only those of the rows an
  empty field stands for that match the old text, and if none does the folder is shown as empty.
\<close>

theorem search_outlives_field:
  assumes "b \<noteq> []" and "list_url b \<noteq> None" and "lower [] = []"
  shows "let st1 = fst (handleRefresh b param (st, pend));
      li1 = \<lparr>li_prefix = q, li_store = st1, li_writable = w\<rparr>;
      ui1 = rendered lower show_date li1 ui;
      st2 = fetch_reply (Inr data) st1;
      li2 = \<lparr>li_prefix = q, li_store = st2, li_writable = w\<rparr>;
      ui2 = rendered lower show_date li2 ui1;
      rows = listed_rows lower show_date li2 ui2
    in browser_view_of lower t show_date cmp li1 ui = Skeleton_View \<and> bu_field ui1 = None \<and>
       bu_field ui2 = Some [] \<and> bu_search ui2 = bu_search ui \<and>
       rows = filter (\<lambda>r. matches lower (lower (bu_search ui)) (row_key r))
                (listed_rows lower show_date li2 (ui2\<lparr>bu_search := []\<rparr>)) \<and>
       (rows = [] \<longrightarrow>
          browser_view_of lower t show_date cmp li2 ui2 =
            Listing_View (br_truncated st2 \<and> bu_search ui \<noteq> []) Empty_Listing (br_truncated st2)
              (if truthy (bu_meta ui) then bu_meta ui else None) (bu_preview ui))"
proof -
  let ?st1 = "fst (handleRefresh b param (st, pend))"
  let ?li1 = "\<lparr>li_prefix = q, li_store = ?st1, li_writable = w\<rparr>"
  let ?li2 = "\<lparr>li_prefix = q, li_store = fetch_reply (Inr data) ?st1, li_writable = w\<rparr>"
  have cleared: "br_objects ?st1 = []" "br_prefixes ?st1 = []" "br_loading ?st1"
    using assms(1,2) by (auto simp: handleRefresh_def fetchObjects_def)
  have loaded: "\<not> br_loading (fetch_reply (Inr data) ?st1)" by (simp add: fetch_reply_def)
  have skeleton: "shows_skeleton lower show_date ?li1 ui"
    by (simp add: shows_skeleton_def listed_rows_def dataSource_def cleared)
  then have "browser_view_of lower t show_date cmp ?li1 ui = Skeleton_View" by (simp add: skeleton_view)
  moreover have "listed_rows lower show_date ?li2 v =
      filter (\<lambda>r. matches lower (lower (bu_search v)) (row_key r)) (listed_rows lower show_date ?li2 (v\<lparr>bu_search := []\<rparr>))"
    for v
    using assms(3)
    by (simp add: listed_rows_def dataSource_def Let_def filter_map comp_def prefix_row_def object_row_def)
       (simp add: matches_def [abs_def])
  ultimately show ?thesis
    using skeleton loaded
    by (simp add: Let_def rendered_def shows_skeleton_def nullish_def browser_view_of_def ObjectBrowser_def
        listed_rows_def)
qed

definition found_page :: list_response where
  "found_page = \<lparr>resp_objects = Some [sample_object (js ''b'')], resp_prefixes = Some [],
     resp_next_page_token = None, resp_truncated = Some False\<rparr>"

theorem search_outlives_field_witness:
  "let st = fetch_reply (Inr found_page) (fst (handleRefresh (js ''d'') None (br_init, [])));
       li = \<lparr>li_prefix = [], li_store = st, li_writable = True\<rparr>
   in br_objects st \<noteq> [] \<and>
      browser_view_of lower_ascii id id ordinal_compare li
        (bu_init\<lparr>bu_search := js ''cat'', bu_field := Some []\<rparr>) = Listing_View False Empty_Listing False None None"
proof -
  let ?ui = "bu_init\<lparr>bu_search := js ''cat''\<rparr>"
  let ?st1 = "fst (handleRefresh (js ''d'') None (br_init, []))"
  let ?st2 = "fetch_reply (Inr found_page) ?st1"
  let ?li1 = "\<lparr>li_prefix = [], li_store = ?st1, li_writable = True\<rparr>"
  let ?li2 = "\<lparr>li_prefix = [], li_store = ?st2, li_writable = True\<rparr>"
  let ?ui2 = "rendered lower_ascii id ?li2 (rendered lower_ascii id ?li1 ?ui)"
  have url: "js ''d'' \<noteq> []" "list_url (js ''d'') \<noteq> None" "lower_ascii [] = []" by code_simp+
  note after = search_outlives_field [where b = "js ''d''" and lower = lower_ascii and param = None and st = br_init
      and pend = "[]" and q = "[]" and w = True and show_date = id and ui = ?ui and data = found_page and t = id
      and cmp = ordinal_compare, OF url, unfolded Let_def]
  have store: "br_objects ?st2 = [sample_object (js ''b'')]" "br_prefixes ?st2 = []" "\<not> br_truncated ?st2"
    by (simp_all add: fetch_reply_def found_page_def nullish_def)
  have "\<not> matches lower_ascii (lower_ascii (js ''cat'')) (js ''b'')" by code_simp
  then have "listed_rows lower_ascii id ?li2 ?ui2 = []"
    by (simp add: listed_rows_def dataSource_def store sample_object_def del: js_Cons)
  then have "browser_view_of lower_ascii id id ordinal_compare ?li2 ?ui2 = Listing_View False Empty_Listing False None None"
    using after store by (simp add: bu_init_def truthy_def)
  moreover have "bu_field ?ui2 = Some []" using after by blast
  then have "?ui2 = bu_init\<lparr>bu_search := js ''cat'', bu_field := Some []\<rparr>"
    by (simp add: rendered_def bu_init_def)
  ultimately show ?thesis using store by (simp add: Let_def)
qed

text \<open>
  Every text that is given names is given exactly those its translation interpolates, in every
  language of the registry, so no label, question or message shows a placeholder or leaves a name out:
  the question before a deletion, the labels of rows, buttons and cards, the usage of a
  quota, the messages of an upload, and each plural form of the number of objects.
\<close>

theorem texts_get_their_names:
  "list_all (\<lambda>l. let b = lang_bundle l in
     names_fit b (delete_question key) \<and> names_fit b (download_label r) \<and> names_fit b (more_label r) \<and>
     names_fit b (row_label r) \<and> names_fit b (card_label info) \<and> names_fit b (quota_usage q) \<and>
     names_fit b (uploaded_text name) \<and> names_fit b (upload_failed_text name) \<and>
     names_fit b (count_text n) \<and>
     list_all (\<lambda>f. case message b ''common'' f of None \<Rightarrow> True | Some s \<Rightarrow> placeholders s = [js ''count''])
       plural_forms) LANGUAGES"
proof -
  have covered: "list_all (\<lambda>(code, b). covers en_bundle b) REGISTRY"
    using bundles_cover [THEN covers_pieces_covers] by (simp add: REGISTRY_def)
  have fits: "names_fit b (delete_question key)" "names_fit b (download_label r)" "names_fit b (more_label r)"
    "names_fit b (row_label r)" "names_fit b (card_label info)" "names_fit b (quota_usage q)"
    "names_fit b (uploaded_text name)" "names_fit b (upload_failed_text name)" "names_fit b (count_text n)"
    if "covers en_bundle b" for b
    using english_names [THEN named_message [OF that]]
    by (simp_all add: plural_forms_def delete_question_def download_label_def more_label_def row_label_def
        card_label_def quota_usage_def uploaded_text_def upload_failed_text_def count_text_def)
  have plurals: "list_all (\<lambda>f. case message b ''common'' f of None \<Rightarrow> True | Some s \<Rightarrow> placeholders s = [js ''count''])
      plural_forms" if "(code, b) \<in> set REGISTRY" for code b
    using plural_counts that
    by (fastforce simp: list_all_iff message_def placeholders_pieces split: option.splits)
  show ?thesis
    using covered fits plurals by (force simp: LANGUAGES_def list_all_iff Let_def)
qed

end
