(* ===== verification/Controls.thy ===== *)
theory Controls
  imports Browser_Events Theme
begin

text \<open>
  How the components are wired: the token getter of \<open>api/client.ts\<close> and the two contexts
  (\<open>AuthProvider.tsx\<close>, \<open>ThemeProvider.tsx\<close>), and the remaining controls: the crumbs
  (\<open>Breadcrumb.tsx\<close>), the drop area (\<open>UploadZone.tsx\<close>), the frame of the preview and of the metadata
  (\<open>FilePreview.tsx\<close>, \<open>ObjectMeta.tsx\<close>), the language and the theme switcher, and the scroll of
  the browser page (\<open>pages/Browser.tsx\<close>).
\<close>

section \<open>The token getter\<close>

text \<open>
  The getter is module state: a function of the state of the provider at the time of the call, and
  constantly null until an effect of the mounted provider replaces it.
\<close>

type_synonym token_getter = "auth_sys \<Rightarrow> jstr option"

definition initial_getter :: token_getter where
  "initial_getter = (\<lambda>_. None)"

definition setTokenGetter :: "token_getter \<Rightarrow> token_getter \<Rightarrow> token_getter" where
  "setTokenGetter getter _ = getter"

definition getToken :: "token_getter \<Rightarrow> auth_sys \<Rightarrow> jstr option" where
  "getToken getter sys = getter sys"

definition wire_client :: "token_getter \<Rightarrow> token_getter" where
  "wire_client = setTokenGetter (\<lambda>sys. au_token (as_state sys))"

definition request_header :: "token_getter \<Rightarrow> auth_sys \<Rightarrow> jstr option \<Rightarrow> jstr option" where
  "request_header getter sys given = request_interceptor (getToken getter sys) given"

section \<open>Contexts\<close>

text \<open>What \<open>useAuth\<close> gives: the value of the provider around the component, or the default.\<close>

record auth_context =
  ac_authenticated :: bool
  ac_loading :: bool
  ac_user :: "user_info option"

definition default_auth_context :: auth_context where
  "default_auth_context = \<lparr>ac_authenticated = False, ac_loading = True, ac_user = None\<rparr>"

definition auth_value :: "auth_state \<Rightarrow> auth_context" where
  "auth_value st = \<lparr>ac_authenticated = isAuthenticated st, ac_loading = au_loading st, ac_user = au_user st\<rparr>"

definition useAuth :: "auth_sys option \<Rightarrow> auth_context" where
  "useAuth around = (case around of None \<Rightarrow> default_auth_context | Some sys \<Rightarrow> auth_value (as_state sys))"

datatype oidc_call = Signin_Redirect

definition login :: "oidc_call list" where
  "login = [Signin_Redirect]"

record theme_context =
  tc_selection :: theme_selection
  tc_scheme :: scheme
  tc_presets :: "preset list"
  tc_active :: "preset option"

definition theme_value :: "provider \<Rightarrow> theme_context" where
  "theme_value s =
     \<lparr>tc_selection = tp_selection s, tc_scheme = effectiveScheme s, tc_presets = PRESET_THEMES,
      tc_active = activePreset s\<rparr>"

definition useTheme :: "provider option \<Rightarrow> jstr + theme_context" where
  "useTheme around =
     (case around of
        None \<Rightarrow> Inl (js ''useTheme must be used within a ThemeProvider'')
      | Some s \<Rightarrow> Inr (theme_value s))"

section \<open>Controls\<close>

text \<open>A crumb that is a link is opened by a click, and by Enter or space.\<close>

definition crumb_click :: "crumb_target \<Rightarrow> crumb_target option" where
  "crumb_click c = (case c of Plain_Crumb \<Rightarrow> None | _ \<Rightarrow> Some c)"

definition crumb_key_down :: "jstr \<Rightarrow> crumb_target \<Rightarrow> crumb_target option" where
  "crumb_key_down key c = (if key = js ''Enter'' \<or> key = js '' '' then crumb_click c else None)"

text \<open>The drop area with its texts, and the uploads under way below it.\<close>

record drop_area =
  da_text :: jstr
  da_hint :: jstr
  da_uploads :: "(jstr \<times> int) list"

definition UploadZone :: "(jstr \<Rightarrow> jstr) \<Rightarrow> upload_item list \<Rightarrow> drop_area" where
  "UploadZone t uploads =
     \<lparr>da_text = t (js ''browser.dropHint''), da_hint = t (js ''browser.dropSubHint''),
      da_uploads = visible_uploads uploads\<rparr>"

text \<open>The buttons below a preview; its download reports a failure like the one of a row.\<close>

datatype footer_button = Close_Button jstr | Save_Button jstr

definition preview_footer :: "(jstr \<Rightarrow> jstr) \<Rightarrow> footer_button list" where
  "preview_footer t = [Close_Button (t (js ''common.cancel'')), Save_Button (t (js ''common.download''))]"

definition triggerDownload ::
  "(jstr \<Rightarrow> jstr) \<Rightarrow> jstr option \<Rightarrow> 'blob network \<Rightarrow> (dom_call \<Rightarrow> bool) \<Rightarrow> preview_props \<Rightarrow>
     dom_call list \<times> ui_effect list" where
  "triggerDownload t token net throws props =
     (downloadObject token net throws (pp_bucket props) (pp_key props) (baseName (pp_key props)),
      if download_rejects token net throws (pp_bucket props) (pp_key props) (baseName (pp_key props))
      then [Toast_Error (errorMessage (Plain_Error []) (t (js ''errors.downloadFailed'')))] else [])"

text \<open>A fallback has its description and the advice to download.\<close>

definition fallback_texts :: "(jstr \<Rightarrow> jstr) \<Rightarrow> body \<Rightarrow> (jstr \<times> jstr) option" where
  "fallback_texts t b = (case b of Fallback d \<Rightarrow> Some (d, t (js ''preview.downloadToView'')) | _ \<Rightarrow> None)"

text \<open>The dialog of the metadata: its title, whether it is open, and what it shows.\<close>

definition meta_dialog ::
  "(jstr \<Rightarrow> jstr) \<Rightarrow> (jstr \<Rightarrow> jstr) \<Rightarrow> bool \<Rightarrow> meta_state \<Rightarrow> jstr \<times> bool \<times> meta_view" where
  "meta_dialog t show_date visible st = (t (js ''meta.title''), visible, ObjectMeta t show_date st)"

text \<open>The two switchers: the options, the one in force, the label, and what choosing does.\<close>

record switcher =
  sw_options :: "(jstr \<times> jstr) list"
  sw_current :: jstr
  sw_label :: jstr

definition LanguageSwitcher :: "(jstr \<Rightarrow> jstr) \<Rightarrow> jstr option \<Rightarrow> switcher" where
  "LanguageSwitcher t resolvedLanguage =
     \<lparr>sw_options = LANGUAGE_OPTIONS, sw_current = current_language resolvedLanguage,
      sw_label = t (js ''common.language'')\<rparr>"

definition entry_options :: "menu_item list \<Rightarrow> (jstr \<times> jstr) list" where
  "entry_options items = concat (map (\<lambda>i. case i of Menu_Item k _ l \<Rightarrow> [(k, l)] | Divider \<Rightarrow> []) items)"

definition ThemeSwitcher :: "(jstr \<Rightarrow> jstr) \<Rightarrow> provider option \<Rightarrow> jstr + switcher" where
  "ThemeSwitcher t around =
     (case useTheme around of
        Inl err \<Rightarrow> Inl err
      | Inr ctx \<Rightarrow>
          Inr \<lparr>sw_options = entry_options (menu_items t (tc_selection ctx) (tc_presets ctx)),
               sw_current = activeKey (tc_selection ctx), sw_label = t (js ''theme.label'')\<rparr>)"

text \<open>The effect that scrolls to the top runs when the bucket or the folder has changed.\<close>

definition scroll_effect :: "(jstr \<times> jstr) option \<Rightarrow> jstr \<times> jstr \<Rightarrow> int option" where
  "scroll_effect before now = (if before = Some now then None else Some 0)"

section \<open>Lemmas\<close>

text \<open>A request carries the token the provider holds when it is sent, not the one of the wiring.\<close>

lemma wired_header: "request_header (wire_client g) sys None = authorization (as_state sys)"
  by (simp add: request_header_def wire_client_def setTokenGetter_def getToken_def authorization_def)

text \<open>
  The effects of children run before those of the provider, so before the getter is wired; but the
  first render asks the gateway for nothing, wherever it is.
\<close>

lemma first_render_sends_nothing:
  "page_requests (snd (settle (ac_loading (useAuth (Some auth_mounted)))
     (ac_authenticated (useAuth (Some auth_mounted))) loc)) = []"
proof -
  have st: "ac_loading (useAuth (Some auth_mounted))" "\<not> ac_authenticated (useAuth (Some auth_mounted))"
    by (simp_all add: useAuth_def auth_value_def auth_mounted_def auth_init_def isAuthenticated_def)
  have "snd (settle True False loc) = Spinner"
  proof (cases "\<exists>p. loc = Elsewhere p")
    case True
    then have "settle True False loc = settle True False At_Buckets"
      by (intro settle_redirect) (auto simp: route_defs)
    also have "\<dots> = (At_Buckets, Spinner)" by (rule settle_show) (simp add: route_defs)
    finally show ?thesis by simp
  next
    case False
    then have "settle True False loc = (loc, Spinner)"
      by (intro settle_show) (cases loc; auto simp: route_defs)
    then show ?thesis by simp
  qed
  then show ?thesis using st by (simp add: page_requests_def)
qed

text \<open>Whatever can be clicked can be used from the keyboard, to the same effect.\<close>

lemma keyboard_opens:
  assumes "key = js ''Enter'' \<or> key = js '' ''"
  shows "calls_of t (Key_On r Row_Cell key) = calls_of t (Click_On r Row_Cell)"
    and "crumb_key_down key c = crumb_click c"
    and "card_key_down key bc = Some (card_target bc)"
  using assms by (auto simp: calls_of_def key_path_def click_path_def Let_def crumb_key_down_def card_key_down_def)

text \<open>
  Each switcher shows one of its options: the language always, the theme for the modes and the
  presets that exist; and no component under the provider fails to find it.
\<close>

lemma language_switcher_shows_option:
  "sw_current (LanguageSwitcher t r) \<in> fst ` set (sw_options (LanguageSwitcher t r))"
  using current_language_offered [of r] by (simp add: LanguageSwitcher_def)

lemma theme_switcher_shows_option:
  assumes "case tp_selection s of Sel_Mode m \<Rightarrow> is_mode m | Sel_Preset i \<Rightarrow> find_preset PRESET_THEMES i \<noteq> None"
  shows "\<exists>sw. ThemeSwitcher t (Some s) = Inr sw \<and> sw_current sw \<in> fst ` set (sw_options sw)"
proof (cases "tp_selection s")
  case (Sel_Mode m)
  then show ?thesis
    using assms by (auto simp: ThemeSwitcher_def useTheme_def theme_value_def entry_options_def menu_items_def
        activeKey_def is_mode_def Let_def simp del: js_Cons) (simp_all add: js_def)
next
  case (Sel_Preset i)
  then obtain p where "p \<in> set PRESET_THEMES" "p_id p = i"
    using assms unfolding find_preset_def by (auto simp: find_Some_iff) (metis nth_mem)
  then show ?thesis
    using Sel_Preset by (force simp: ThemeSwitcher_def useTheme_def theme_value_def entry_options_def menu_items_def
        activeKey_def Let_def simp del: js_Cons)
qed

end
