(* ===== verification/Go_Url.thy ===== *)
theory Go_Url
  imports Content_Security Gateway_Routes "HOL-Library.List_Lexorder" "HOL-Library.Multiset"
begin

text \<open>
  What the gateway uses of Go's \<open>net/url\<close> and of the query handling of \<open>net/http/httputil\<close>, on bytes:
  percent-decoding of paths and queries, the path as it is sent on (\<open>EscapedPath\<close>), \<open>ParseQuery\<close>,
  \<open>Encode\<close>, and the cleaning of a query by a reverse proxy. The lemmas give the round trip
  of a query through \<open>Encode\<close>.
\<close>

section \<open>Percent encoding\<close>

definition unhex :: "byte \<Rightarrow> nat option" where
  "unhex c =
     (if 48 \<le> c \<and> c \<le> 57 then Some (unat c - 48)
      else if 65 \<le> c \<and> c \<le> 70 then Some (unat c - 55)
      else if 97 \<le> c \<and> c \<le> 102 then Some (unat c - 87)
      else None)"

definition upper_hex :: "nat \<Rightarrow> byte" where
  "upper_hex n = (if n < 10 then of_nat (48 + n) else of_nat (55 + n))"

text \<open>\<open>unescape\<close>; in a query a plus sign is a space.\<close>

fun unescape :: "bool \<Rightarrow> byte list \<Rightarrow> byte list option" where
  "unescape q [] = Some []"
| "unescape q (c # cs) =
     (if c = 37 then
        (case cs of
           h # l # rest \<Rightarrow>
             (case (unhex h, unhex l) of
                (Some a, Some b) \<Rightarrow> map_option ((#) (of_nat (16 * a + b))) (unescape q rest)
              | _ \<Rightarrow> None)
         | _ \<Rightarrow> None)
      else map_option ((#) (if q \<and> c = 43 then 32 else c)) (unescape q cs))"

definition unreserved_byte :: "byte \<Rightarrow> bool" where
  "unreserved_byte c \<longleftrightarrow>
     48 \<le> c \<and> c \<le> 57 \<or> 65 \<le> c \<and> c \<le> 90 \<or> 97 \<le> c \<and> c \<le> 122 \<or> c \<in> set (bytes ''-_.~'')"

definition keep_in_path :: "byte \<Rightarrow> bool" where
  "keep_in_path c \<longleftrightarrow> unreserved_byte c \<or> c \<in> set (bytes ''$&+,/:;=@'')"

definition escape_byte :: "byte \<Rightarrow> byte list" where
  "escape_byte c = [37, upper_hex (unat c div 16), upper_hex (unat c mod 16)]"

definition path_escape :: "byte list \<Rightarrow> byte list" where
  "path_escape s = concat (map (\<lambda>c. if keep_in_path c then [c] else escape_byte c) s)"

definition query_escape :: "byte list \<Rightarrow> byte list" where
  "query_escape s = concat (map (\<lambda>c. if unreserved_byte c then [c] else if c = 32 then [43] else escape_byte c) s)"

text \<open>The path of a URL as it is printed: the one read if it is a valid encoding, else a new one.\<close>

definition valid_path :: "byte list \<Rightarrow> bool" where
  "valid_path s \<longleftrightarrow> list_all (\<lambda>c. keep_in_path c \<or> c \<in> set (bytes ''!$&()*+,;=:@[]%'') \<or> c = 39) s"

definition escaped_path :: "byte list \<Rightarrow> byte list option" where
  "escaped_path raw =
     (case unescape False raw of
        None \<Rightarrow> None
      | Some p \<Rightarrow> Some (if valid_path raw then raw else path_escape p))"

section \<open>Queries\<close>

type_synonym params = "(byte list \<times> byte list) list"

text \<open>The part before the first occurrence of a byte, and the part after it if there is one.\<close>

definition cut_byte :: "byte \<Rightarrow> byte list \<Rightarrow> byte list \<times> byte list option" where
  "cut_byte c s =
     (let a = takeWhile (\<lambda>x. x \<noteq> c) s
      in (a, if c \<in> set s then Some (drop (Suc (length a)) s) else None))"

definition parse_pair :: "byte list \<Rightarrow> (byte list \<times> byte list) option" where
  "parse_pair piece =
     (if 59 \<in> set piece \<or> piece = [] then None
      else
        (let (k, v) = cut_byte 61 piece
         in case (unescape True k, unescape True (case v of Some x \<Rightarrow> x | None \<Rightarrow> [])) of
              (Some key, Some val) \<Rightarrow> Some (key, val)
            | _ \<Rightarrow> None))"

text \<open>Pairs that cannot be read are left out (\<open>URL.Query\<close> drops the error).\<close>

definition parse_query :: "byte list \<Rightarrow> params" where
  "parse_query s = List.map_filter parse_pair (split_bytes 38 s)"

fun join_bytes :: "byte \<Rightarrow> byte list list \<Rightarrow> byte list" where
  "join_bytes c [] = []"
| "join_bytes c [p] = p"
| "join_bytes c (p # q # ps) = p @ c # join_bytes c (q # ps)"

definition encode_pair :: "byte list \<times> byte list \<Rightarrow> byte list" where
  "encode_pair kv = query_escape (fst kv) @ 61 # query_escape (snd kv)"

definition encode_values :: "params \<Rightarrow> byte list" where
  "encode_values vs = join_bytes 38 (map encode_pair (sort_key fst vs))"

text \<open>\<open>cleanQueryParams\<close> of the reverse proxy: a query it cannot read in full is read and printed again.\<close>

fun needs_cleaning :: "byte list \<Rightarrow> bool" where
  "needs_cleaning [] = False"
| "needs_cleaning (c # cs) =
     (if c = 59 then True
      else if c = 37 then
        (case cs of
           h # l # rest \<Rightarrow> unhex h = None \<or> unhex l = None \<or> needs_cleaning rest
         | _ \<Rightarrow> True)
      else needs_cleaning cs)"

definition clean_query :: "byte list \<Rightarrow> byte list" where
  "clean_query s = (if needs_cleaning s then encode_values (parse_query s) else s)"

section \<open>Lemmas\<close>

lemma upper_hex_all:
  "list_all (\<lambda>n. unhex (upper_hex n) = Some n \<and> upper_hex n \<notin> {37, 38, 59, 61, 35, 63}) [0..<16]"
  by code_simp

lemma upper_hex_facts: "n < 16 \<Longrightarrow> unhex (upper_hex n) = Some n \<and> upper_hex n \<notin> {37, 38, 59, 61, 35, 63}"
  using upper_hex_all by (simp add: list_all_iff del: upt_Suc)

lemma unescape_escape_byte: "unescape q (escape_byte c @ rest) = map_option ((#) c) (unescape q rest)"
proof -
  have "unat c div 16 < 16" "unat c mod 16 < 16" using byte_div_mod by simp_all
  moreover have "of_nat (16 * (unat c div 16) + unat c mod 16) = c" by simp
  ultimately show ?thesis by (simp add: escape_byte_def upper_hex_facts)
qed

lemma unreserved_facts: "unreserved_byte c \<Longrightarrow> c \<noteq> 37 \<and> c \<noteq> 43 \<and> c \<notin> {38, 59, 61, 35, 63}"
  by (auto simp: unreserved_byte_def bytes_def)

lemma keep_facts: "keep_in_path c \<Longrightarrow> c \<noteq> 37 \<and> c \<noteq> 35 \<and> c \<noteq> 63"
  using unreserved_facts by (auto simp: keep_in_path_def bytes_def)

lemma unescape_query_escape: "unescape True (query_escape s @ rest) = map_option ((@) s) (unescape True rest)"
  by (induction s)
     (auto simp: query_escape_def unescape_escape_byte option.map_comp comp_def option.map_ident
       dest: unreserved_facts)

lemma unescape_path_escape: "unescape False (path_escape s) = Some s"
  by (induction s) (auto simp: path_escape_def unescape_escape_byte dest: keep_facts)

lemma escape_byte_safe: "x \<in> set (escape_byte c) \<Longrightarrow> x \<notin> {38, 59, 61, 35, 63}"
  using upper_hex_facts [OF byte_div_mod(1), of c] upper_hex_facts [OF byte_div_mod(2), of c]
  by (auto simp: escape_byte_def)

lemma query_escape_safe: "x \<in> set (query_escape s) \<Longrightarrow> x \<notin> {38, 59, 61, 35, 63}"
  unfolding query_escape_def using unreserved_facts escape_byte_safe by (fastforce split: if_splits)

lemma path_escape_safe: "x \<in> set (path_escape s) \<Longrightarrow> x \<noteq> 35 \<and> x \<noteq> 63"
  unfolding path_escape_def using keep_facts escape_byte_safe by (fastforce split: if_splits)

lemma valid_path_safe: "valid_path s \<Longrightarrow> x \<in> set s \<Longrightarrow> x \<noteq> 35 \<and> x \<noteq> 63"
  using keep_facts [of x] by (fastforce simp: valid_path_def list_all_iff bytes_def)

lemma escaped_path_facts:
  assumes "escaped_path raw = Some p"
  shows "unescape False p = unescape False raw" and "35 \<notin> set p" and "63 \<notin> set p"
  using assms path_escape_safe valid_path_safe
  by (auto simp: escaped_path_def unescape_path_escape split: option.splits if_splits)

lemma fst_cut_byte: "fst (cut_byte c s) = takeWhile (\<lambda>x. x \<noteq> c) s"
  by (simp add: cut_byte_def Let_def)

lemma takeWhile_before: "c \<notin> set a \<Longrightarrow> takeWhile (\<lambda>x. x \<noteq> c) (a @ s) = a @ takeWhile (\<lambda>x. x \<noteq> c) s"
  by (subst takeWhile_append2) auto

text \<open>The path as printed has no control bytes.\<close>

definition control :: "byte \<Rightarrow> bool" where
  "control c \<longleftrightarrow> c < 32 \<or> c = 127"

lemma upper_hex_printable: "n < 16 \<Longrightarrow> \<not> control (upper_hex n)"
proof -
  have "list_all (\<lambda>n. \<not> control (upper_hex n)) [0..<16]" by code_simp
  then show "n < 16 \<Longrightarrow> ?thesis" by (simp add: list_all_iff del: upt_Suc)
qed

lemma keep_printable: "keep_in_path c \<Longrightarrow> \<not> control c"
  by (auto simp: keep_in_path_def unreserved_byte_def bytes_def control_def word_less_nat_alt word_le_nat_alt)

lemma path_escape_printable: "x \<in> set (path_escape s) \<Longrightarrow> \<not> control x"
  unfolding path_escape_def using keep_printable upper_hex_printable byte_div_mod
  by (fastforce simp: escape_byte_def control_def split: if_splits)

lemma valid_path_printable: "valid_path s \<Longrightarrow> x \<in> set s \<Longrightarrow> \<not> control x"
  using keep_printable [of x] by (fastforce simp: valid_path_def list_all_iff bytes_def control_def)

lemma escaped_path_printable: "escaped_path raw = Some p \<Longrightarrow> x \<in> set p \<Longrightarrow> \<not> control x"
  using path_escape_printable valid_path_printable by (auto simp: escaped_path_def split: option.splits if_splits)

lemma cut_byte_append: "c \<notin> set a \<Longrightarrow> cut_byte c (a @ c # b) = (a, Some b)"
proof -
  assume "c \<notin> set a"
  then have "takeWhile (\<lambda>x. x \<noteq> c) (a @ c # b) = a" by (subst takeWhile_append2) auto
  then show ?thesis by (simp add: cut_byte_def)
qed

lemma cut_byte_none: "c \<notin> set a \<Longrightarrow> cut_byte c a = (a, None)"
  by (auto simp: cut_byte_def takeWhile_eq_all_conv)

lemma parse_encode_pair: "parse_pair (encode_pair kv) = Some kv"
proof -
  have esc: "unescape True (query_escape s) = Some s" for s
    using unescape_query_escape [of s "[]"] by simp
  have "61 \<notin> set (query_escape (fst kv))" "59 \<notin> set (encode_pair kv)"
    using query_escape_safe by (auto simp: encode_pair_def)
  then show ?thesis by (simp add: parse_pair_def encode_pair_def cut_byte_append esc)
qed

lemma split_bytes_none: "c \<notin> set s \<Longrightarrow> split_bytes c s = [s]"
  by (induction s) auto

lemma split_bytes_append: "c \<notin> set p \<Longrightarrow> split_bytes c (p @ c # s) = p # split_bytes c s"
  by (induction p) auto

lemma split_join_bytes:
  "ps \<noteq> [] \<Longrightarrow> \<forall>p\<in>set ps. c \<notin> set p \<Longrightarrow> split_bytes c (join_bytes c ps) = ps"
  by (induction c ps rule: join_bytes.induct) (auto simp: split_bytes_none split_bytes_append)

lemma parse_encode: "parse_query (encode_values vs) = sort_key fst vs"
proof (cases "vs = []")
  case True
  then show ?thesis by (simp add: encode_values_def parse_query_def parse_pair_def map_filter_simps)
next
  case False
  have "\<forall>p\<in>set (map encode_pair (sort_key fst vs)). 38 \<notin> set p"
    using query_escape_safe by (auto simp: encode_pair_def)
  then have "split_bytes 38 (encode_values vs) = map encode_pair (sort_key fst vs)"
    using False unfolding encode_values_def by (intro split_join_bytes) (auto dest: arg_cong [of _ _ length])
  then show ?thesis
    by (simp add: parse_query_def List.map_filter_def comp_def parse_encode_pair)
qed

lemma map_filter_member: "y \<in> set (List.map_filter f xs) \<longleftrightarrow> (\<exists>x\<in>set xs. f x = Some y)"
  by (induction xs) (auto simp: map_filter_simps split: option.split)

text \<open>Cleaning loses and adds no pair that can be read.\<close>

lemma clean_query_params: "mset (parse_query (clean_query s)) = mset (parse_query s)"
  by (simp add: clean_query_def parse_encode)

end
