(* ===== verification/S3_Proxy.thy ===== *)
theory S3_Proxy
  imports Go_Url Gateway
begin

text \<open>
  The S3 side of the gateway, \<open>internal/proxy\<close>: the handler that admits requests of S3 clients by
  token and group (\<open>s3handler.go\<close>, with \<open>IsAdminOperation\<close> of \<open>internal/acl/resolver.go\<close>), and
  what is passed on to the storage (\<open>passthrough.go\<close>, \<open>rewrite.go\<close>). Verifying a token, signing a
  request and the storage are parameters. A request is the one \<open>net/http\<close> has read, so its target
  starts with a slash. In front of the handler \<open>cmd/server/main.go\<close> has a \<open>ServeMux\<close> with the one
  pattern \<open>/\<close>, which answers a path that is not clean with a redirect; the model takes such
  paths too, so what is proved of every request holds of those that get through.
\<close>

section \<open>Requests\<close>

type_synonym headers = "(gostr \<times> gostr list) list"

record s3_request =
  sr_method :: http_method
  sr_path :: gostr
  sr_query :: "gostr option"
  sr_headers :: headers

text \<open>The target as \<open>ParseRequestURI\<close> cuts it: only at the question mark.\<close>

definition read_target :: "http_method \<Rightarrow> gostr \<Rightarrow> headers \<Rightarrow> s3_request" where
  "read_target m target hs =
     (let (p, q) = cut_byte 63 target in \<lparr>sr_method = m, sr_path = p, sr_query = q, sr_headers = hs\<rparr>)"

definition header_get :: "string \<Rightarrow> headers \<Rightarrow> gostr" where
  "header_get name hs = (case map_of hs (bytes name) of Some (v # vs) \<Rightarrow> v | _ \<Rightarrow> [])"

definition extractBearerToken :: "headers \<Rightarrow> gostr" where
  "extractBearerToken hs =
     (let h = header_get ''Authorization'' hs
      in case (if h = [] then None else cut_first [32] h) of
           None \<Rightarrow> []
         | Some (scheme, rest) \<Rightarrow> if map lower_byte scheme = bytes ''bearer'' then TrimSpace rest else [])"

definition pathBucket :: "gostr \<Rightarrow> gostr" where
  "pathBucket p = fst (cut_byte 47 (case p of c # rest \<Rightarrow> if c = 47 then rest else p | [] \<Rightarrow> p))"

text \<open>\<open>r.URL.RequestURI()\<close>: the path as printed, with the raw query.\<close>

definition request_uri :: "s3_request \<Rightarrow> gostr option" where
  "request_uri rq =
     map_option (\<lambda>p. p @ (case sr_query rq of None \<Rightarrow> [] | Some q \<Rightarrow> 63 # q)) (escaped_path (sr_path rq))"

section \<open>Admin operations\<close>

definition adminSubResources :: "string list" where
  "adminSubResources =
     [''acl'', ''policy'', ''versioning'', ''tagging'', ''lifecycle'', ''cors'', ''website'', ''notification'',
      ''encryption'', ''replication'', ''logging'', ''requestpayment'', ''accelerate'', ''object-lock'', ''lock'',
      ''retention'', ''legal-hold'', ''inventory'', ''analytics'', ''metrics'', ''select'', ''restore'', ''torrent'',
      ''publicaccessblock'', ''ownershipcontrols'', ''intelligent-tiering'', ''uploads'', ''uploadid'', ''partnumber'']"

text \<open>
  \<open>url.Parse\<close> of a target that starts with a single slash: unlike for the target of a request, a
  number sign starts a fragment, which is decoded as well, so that a bad escape in it is an
  error. The result is the decoded path with the raw query.
\<close>

definition url_parse :: "gostr \<Rightarrow> (gostr \<times> gostr) option" where
  "url_parse uri =
     (let (u, frag) = cut_byte 35 uri; (rest, q) = cut_byte 63 u
      in if list_ex control u \<or> unescape False (case frag of Some f \<Rightarrow> f | None \<Rightarrow> []) = None then None
         else map_option (\<lambda>p. (p, case q of Some x \<Rightarrow> x | None \<Rightarrow> [])) (unescape False rest))"

definition names_admin :: "(gostr \<Rightarrow> gostr) \<Rightarrow> params \<Rightarrow> bool" where
  "names_admin lower ps \<longleftrightarrow> list_ex (\<lambda>(k, _). lower k \<in> set (map bytes adminSubResources)) ps"

definition trim_slashes :: "gostr \<Rightarrow> gostr" where
  "trim_slashes p = rev (dropWhile (\<lambda>c. c = 47) (rev (dropWhile (\<lambda>c. c = 47) p)))"

definition IsAdminOperation :: "(gostr \<Rightarrow> gostr) \<Rightarrow> http_method \<Rightarrow> gostr \<Rightarrow> bool" where
  "IsAdminOperation lower m uri =
     (case url_parse uri of
        None \<Rightarrow> True
      | Some (p, q) \<Rightarrow>
          if names_admin lower (parse_query q) then True
          else length (split_bytes 47 (trim_slashes p)) = 1 \<and> (m = PUT \<or> m = DELETE \<or> m = POST))"

section \<open>Passing a request on\<close>

definition hopByHopHeaders :: "string list" where
  "hopByHopHeaders =
     [''Connection'', ''Keep-Alive'', ''Proxy-Authenticate'', ''Proxy-Authorization'', ''Te'', ''Trailers'',
      ''Transfer-Encoding'', ''Upgrade'']"

definition sigV4Headers :: "string list" where
  "sigV4Headers =
     [''Authorization'', ''X-Amz-Date'', ''X-Amz-Content-Sha256'', ''X-Amz-Security-Token'', ''X-Amz-Credential'',
      ''X-Amz-Signature'', ''X-Amz-Signedheaders'', ''X-Amz-Algorithm'']"

definition RewriteHeaders :: "headers \<Rightarrow> headers" where
  "RewriteHeaders hs = filter (\<lambda>(k, _). k \<notin> set (map bytes (sigV4Headers @ hopByHopHeaders))) hs"

record out_request =
  out_method :: http_method
  out_scheme :: gostr
  out_host :: gostr
  out_path :: gostr
  out_query :: gostr
  out_headers :: headers

text \<open>The storage service: scheme and host if its endpoint is well formed, and the credentials.\<close>

record upstream =
  up_endpoint :: "(gostr \<times> gostr) option"
  up_credentials :: "gostr option"
  up_buckets :: "gostr option list option"

datatype proxy_reply =
  Proxy_Error nat string string
| Bucket_Names "gostr list"
| Forwarded out_request

text \<open>
  The outgoing request as \<open>Rewrite\<close> makes it: the reverse proxy has cleaned the query, the headers are
  a filtered copy of those received.
\<close>

definition outgoing :: "gostr \<times> gostr \<Rightarrow> s3_request \<Rightarrow> out_request" where
  "outgoing target rq =
     \<lparr>out_method = sr_method rq, out_scheme = fst target, out_host = snd target,
      out_path = (case escaped_path (sr_path rq) of Some p \<Rightarrow> p | None \<Rightarrow> []),
      out_query = clean_query (case sr_query rq of Some q \<Rightarrow> q | None \<Rightarrow> []),
      out_headers = RewriteHeaders (sr_headers rq)\<rparr>"

text \<open>Signing may fail; the failure is logged and the request goes out as it is.\<close>

definition sign_request :: "(gostr \<Rightarrow> out_request \<Rightarrow> out_request option) \<Rightarrow> gostr \<Rightarrow> out_request \<Rightarrow> out_request" where
  "sign_request sign creds out = (case sign creds out of Some r \<Rightarrow> r | None \<Rightarrow> out)"

text \<open>After \<open>Rewrite\<close> the reverse proxy sets an empty \<open>User-Agent\<close> where the request has none.\<close>

definition with_agent :: "out_request \<Rightarrow> out_request" where
  "with_agent out =
     (if list_ex (\<lambda>(k, _). k = bytes ''User-Agent'') (out_headers out) then out
      else out\<lparr>out_headers := out_headers out @ [(bytes ''User-Agent'', [[]])]\<rparr>)"

definition Forward :: "(gostr \<Rightarrow> out_request \<Rightarrow> out_request option) \<Rightarrow> upstream \<Rightarrow> s3_request \<Rightarrow> proxy_reply" where
  "Forward sign up rq =
     (case up_endpoint up of
        None \<Rightarrow> Proxy_Error 502 ''upstream_error'' ''S3 backend endpoint is misconfigured''
      | Some target \<Rightarrow>
          (case up_credentials up of
             None \<Rightarrow> Proxy_Error 502 ''upstream_error'' ''failed to obtain backend credentials''
           | Some creds \<Rightarrow> Forwarded (with_agent (sign_request sign creds (outgoing target rq)))))"

section \<open>The handler\<close>

definition handleListBuckets :: "upstream option \<Rightarrow> gostr list \<Rightarrow> proxy_reply" where
  "handleListBuckets upstr groups =
     (case upstr of
        None \<Rightarrow> Proxy_Error 502 ''upstream_error'' ''S3 backend is not configured''
      | Some up \<Rightarrow>
          (case up_buckets up of
             None \<Rightarrow> Proxy_Error 502 ''upstream_error'' ''failed to list buckets from storage''
           | Some bs \<Rightarrow>
               (let effective = map_of (EffectiveBuckets groups); wild = snd (WildcardGrant groups)
                in Bucket_Names (List.map_filter (\<lambda>b. case b of None \<Rightarrow> None
                     | Some n \<Rightarrow> if wild \<or> effective n \<noteq> None then Some n else None) bs))))"

definition ServeHTTP ::
  "(gostr \<Rightarrow> gostr) \<Rightarrow> (gostr \<Rightarrow> (gostr \<times> gostr list) option) \<Rightarrow> (gostr \<Rightarrow> out_request \<Rightarrow> out_request option) \<Rightarrow>
     upstream option \<Rightarrow> s3_request \<Rightarrow> proxy_reply" where
  "ServeHTTP lower verify sign upstr rq =
     (let token = extractBearerToken (sr_headers rq)
      in if token = [] then Proxy_Error 401 ''unauthorized'' ''missing or invalid authorization header''
         else case verify token of
           None \<Rightarrow> Proxy_Error 401 ''invalid_token'' ''token verification failed''
         | Some (user, groups) \<Rightarrow>
             (case (unescape False (sr_path rq), request_uri rq) of
                (Some path, Some uri) \<Rightarrow>
                  (let bucket = pathBucket path
                   in if bucket = [] then
                        (if sr_method rq = GET then handleListBuckets upstr groups
                         else Proxy_Error 400 ''bad_request'' ''bucket name required'')
                      else if IsAdminOperation lower (sr_method rq) uri
                      then Proxy_Error 403 ''operation_not_permitted'' ''admin operations are not allowed''
                      else if \<not> CheckAccess groups bucket (sr_method rq)
                      then Proxy_Error 403 ''forbidden'' ''insufficient permissions''
                      else case upstr of
                             None \<Rightarrow> Proxy_Error 502 ''upstream_error'' ''S3 backend is not configured''
                           | Some up \<Rightarrow> Forward sign up rq)
              | _ \<Rightarrow> Proxy_Error 400 [] []))"

section \<open>Lemmas\<close>

definition raw_query :: "s3_request \<Rightarrow> gostr" where
  "raw_query rq = (case sr_query rq of Some q \<Rightarrow> q | None \<Rightarrow> [])"

text \<open>What the check parses is the path and the query up to the first number sign.\<close>

lemma url_parse_request:
  assumes "request_uri rq = Some uri" and "url_parse uri = Some (p, q)"
  shows "unescape False (sr_path rq) = Some p" and "q = fst (cut_byte 35 (raw_query rq))"
proof -
  obtain e where e: "escaped_path (sr_path rq) = Some e"
    and uri: "uri = e @ (case sr_query rq of None \<Rightarrow> [] | Some x \<Rightarrow> 63 # x)"
    using assms(1) by (auto simp: request_uri_def)
  note safe = escaped_path_facts [OF e]
  have cut: "fst (cut_byte 35 uri) = e @ (case sr_query rq of None \<Rightarrow> [] | Some x \<Rightarrow> 63 # fst (cut_byte 35 x))"
    unfolding uri fst_cut_byte takeWhile_before [OF safe(2)] by (simp split: option.split)
  have "cut_byte 63 (fst (cut_byte 35 uri)) = (e, map_option (\<lambda>x. fst (cut_byte 35 x)) (sr_query rq))"
    unfolding cut using safe(3) by (cases "sr_query rq") (simp_all add: cut_byte_append cut_byte_none)
  then show "unescape False (sr_path rq) = Some p" "q = fst (cut_byte 35 (raw_query rq))"
    using assms(2) safe(1)
    by (cases "sr_query rq";
        simp add: url_parse_def Let_def case_prod_beta raw_query_def fst_cut_byte split: if_splits)+
qed

text \<open>The fragment of the target is what follows the number sign in the query.\<close>

lemma fragment_of_request:
  assumes "request_uri rq = Some uri"
  shows "snd (cut_byte 35 uri) = snd (cut_byte 35 (raw_query rq))"
proof -
  obtain e where e: "escaped_path (sr_path rq) = Some e"
    and uri: "uri = e @ (case sr_query rq of None \<Rightarrow> [] | Some x \<Rightarrow> 63 # x)"
    using assms by (auto simp: request_uri_def)
  have "takeWhile (\<lambda>x. x \<noteq> 35) uri = e @ takeWhile (\<lambda>x. x \<noteq> 35) (drop (length e) uri)"
    unfolding uri using takeWhile_before [OF escaped_path_facts(2) [OF e]] by simp
  then show ?thesis
    using escaped_path_facts(2) [OF e] by (auto simp: uri cut_byte_def Let_def raw_query_def split: option.splits)
qed

lemma stripped_headers:
  "(k, v) \<in> set (RewriteHeaders hs) \<longleftrightarrow>
     (k, v) \<in> set hs \<and> k \<notin> set (map bytes (sigV4Headers @ hopByHopHeaders))"
  by (auto simp: RewriteHeaders_def)

lemma names_admin_mset: "mset ps = mset qs \<Longrightarrow> names_admin lower ps = names_admin lower qs"
  unfolding names_admin_def list_ex_iff by (metis set_mset_mset)

lemma names_admin_append: "names_admin lower (ps @ qs) \<longleftrightarrow> names_admin lower ps \<or> names_admin lower qs"
  by (auto simp: names_admin_def)

lemma no_fragment: "35 \<notin> set q \<Longrightarrow> fst (cut_byte 35 q) = q"
  by (auto simp: fst_cut_byte takeWhile_eq_all_conv)

text \<open>A path of several parts names something below the bucket.\<close>

lemma split_bytes_length: "length (split_bytes c s) = Suc (count_list s c)"
proof (induction s)
  case (Cons x s)
  then show ?case by (cases "split_bytes c s") auto
qed simp

lemma one_part_iff: "length (split_bytes c s) = Suc 0 \<longleftrightarrow> c \<notin> set s"
  by (simp add: split_bytes_length count_list_0_iff)

text \<open>What the handler passes on, in terms of its guards.\<close>

lemma ServeHTTP_forwards:
  assumes "ServeHTTP lower verify sign upstr rq = Forwarded f"
  shows "\<exists>user groups path uri up target creds.
    extractBearerToken (sr_headers rq) \<noteq> [] \<and> verify (extractBearerToken (sr_headers rq)) = Some (user, groups) \<and>
    unescape False (sr_path rq) = Some path \<and> request_uri rq = Some uri \<and> pathBucket path \<noteq> [] \<and>
    \<not> IsAdminOperation lower (sr_method rq) uri \<and> CheckAccess groups (pathBucket path) (sr_method rq) \<and>
    upstr = Some up \<and> up_endpoint up = Some target \<and> up_credentials up = Some creds \<and>
    f = with_agent (sign_request sign creds (outgoing target rq))"
  using assms
  by (auto simp: ServeHTTP_def Forward_def handleListBuckets_def Let_def split: if_splits option.splits prod.splits)

lemma ServeHTTP_accepts:
  assumes "verify (extractBearerToken (sr_headers rq)) = Some (user, groups)"
    and "extractBearerToken (sr_headers rq) \<noteq> []"
    and "unescape False (sr_path rq) = Some path" and "request_uri rq = Some uri" and "pathBucket path \<noteq> []"
    and "\<not> IsAdminOperation lower (sr_method rq) uri" and "CheckAccess groups (pathBucket path) (sr_method rq)"
    and "up_endpoint up = Some target" and "up_credentials up = Some creds"
  shows "ServeHTTP lower verify sign (Some up) rq = Forwarded (with_agent (sign_request sign creds (outgoing target rq)))"
  using assms by (simp add: ServeHTTP_def Forward_def Let_def)

lemma request_uri_some: "unescape False (sr_path rq) = Some path \<Longrightarrow> \<exists>uri. request_uri rq = Some uri"
  by (simp add: request_uri_def escaped_path_def)

lemma clean_query_id: "\<not> needs_cleaning q \<Longrightarrow> clean_query q = q"
  by (simp add: clean_query_def)

text \<open>The query the check sees decides, with the parts of the path.\<close>

lemma not_admin:
  assumes "unescape False (sr_path rq) = Some path" and "request_uri rq = Some uri"
    and "\<not> list_ex control (fst (cut_byte 35 (raw_query rq)))"
    and "unescape False (case snd (cut_byte 35 (raw_query rq)) of Some f \<Rightarrow> f | None \<Rightarrow> []) \<noteq> None"
    and "\<not> names_admin lower (parse_query (fst (cut_byte 35 (raw_query rq))))"
    and "sr_method rq \<in> {GET, HEAD} \<or> 47 \<in> set (trim_slashes path)"
  shows "\<not> IsAdminOperation lower (sr_method rq) uri"
proof -
  obtain e where e: "escaped_path (sr_path rq) = Some e"
    and uri: "uri = e @ (case sr_query rq of None \<Rightarrow> [] | Some x \<Rightarrow> 63 # x)"
    using assms(2) by (auto simp: request_uri_def)
  have cut: "fst (cut_byte 35 uri) = e @ (case sr_query rq of None \<Rightarrow> [] | Some x \<Rightarrow> 63 # fst (cut_byte 35 x))"
    unfolding uri fst_cut_byte takeWhile_before [OF escaped_path_facts(2) [OF e]] by (simp split: option.split)
  have "\<not> list_ex control (fst (cut_byte 35 uri))"
    using assms(3) escaped_path_printable [OF e] unfolding cut
    by (auto simp: list_ex_iff raw_query_def control_def split: option.splits)
  then have "url_parse uri \<noteq> None"
    using assms(1,4) escaped_path_facts(1,3) [OF e] fragment_of_request [OF assms(2)]
    unfolding url_parse_def case_prod_beta Let_def cut
    by (cases "sr_query rq") (simp_all add: cut_byte_append cut_byte_none)
  then obtain p q where pq: "url_parse uri = Some (p, q)" by auto
  have "p = path" "q = fst (cut_byte 35 (raw_query rq))"
    using url_parse_request [OF assms(2) pq] assms(1) by auto
  then show ?thesis
    using pq assms(5,6) by (auto simp: IsAdminOperation_def one_part_iff)
qed

text \<open>
  The buckets an S3 client is shown are those the storage reports on which its groups grant
  anything, which is also when some method on them is admitted.
\<close>

lemma proxy_lists_granted:
  assumes "handleListBuckets (Some up) groups = Bucket_Names ns" and "up_buckets up = Some bs"
    and "n \<noteq> WildcardBucket"
  shows "n \<in> set ns \<longleftrightarrow> Some n \<in> set bs \<and> granted True groups n (\<lambda>_. True)"
proof -
  have "snd (WildcardGrant groups) \<or> map_of (EffectiveBuckets groups) n \<noteq> None \<longleftrightarrow> granted True groups n (\<lambda>_. True)"
    using assms(3) wildcard_found [of no_grants False groups] granted_split [of groups n "\<lambda>_. True"]
    by (auto simp: WildcardGrant_def effective_in simp del: not_None_eq)
  moreover have "n \<in> set ns \<longleftrightarrow>
      Some n \<in> set bs \<and> (snd (WildcardGrant groups) \<or> map_of (EffectiveBuckets groups) n \<noteq> None)"
  proof -
    let ?f = "\<lambda>b. case b of None \<Rightarrow> None
      | Some m \<Rightarrow> if snd (WildcardGrant groups) \<or> map_of (EffectiveBuckets groups) m \<noteq> None then Some m else None"
    have "ns = List.map_filter ?f bs"
      using assms(1,2) by (simp add: handleListBuckets_def Let_def del: not_None_eq)
    then have "n \<in> set ns \<longleftrightarrow> (\<exists>x\<in>set bs. ?f x = Some n)"
      by (simp only: map_filter_member)
    also have "\<dots> \<longleftrightarrow> (\<exists>x\<in>set bs. x = Some n \<and> ?f (Some n) = Some n)"
      by (intro bex_cong refl) (auto split: option.splits if_splits)
    finally show ?thesis by auto
  qed
  ultimately show ?thesis by blast
qed

text \<open>A bad escape behind the number sign is refused with everything else that cannot be read.\<close>

lemma bad_fragment_is_refused:
  assumes "request_uri rq = Some uri" and "snd (cut_byte 35 (raw_query rq)) = Some f" and "unescape False f = None"
  shows "IsAdminOperation lower m uri"
proof -
  have "snd (cut_byte 35 uri) = Some f" using fragment_of_request [OF assms(1)] assms(2) by simp
  then have "url_parse uri = None" using assms(3) by (simp add: url_parse_def case_prod_beta Let_def)
  then show ?thesis by (simp add: IsAdminOperation_def)
qed

lemma clean_unescapes: "\<not> needs_cleaning q \<Longrightarrow> unescape b q \<noteq> None"
proof (induction q rule: needs_cleaning.induct)
  case (2 c cs)
  show ?case
  proof (cases "c = 37")
    case True
    then obtain h l rest where cs: "cs = h # l # rest"
      using 2(3) by (cases cs; cases "tl cs") (simp_all split: if_splits)
    then have "unhex h \<noteq> None" "unhex l \<noteq> None" "\<not> needs_cleaning rest" using 2(3) True by auto
    then show ?thesis using 2(1) [OF _ True cs refl] True cs by auto
  next
    case False
    then have "\<not> needs_cleaning cs" and "c \<noteq> 59" using 2(3) by (simp_all split: if_splits)
    then show ?thesis using 2(2) [OF _ False] False by simp
  qed
qed simp

text \<open>
  A header that the sender has named in \<open>Connection\<close>, for the next hop alone, is passed on: the reverse
  proxy has removed it, but \<open>Rewrite\<close> starts again from the headers received.
\<close>

lemma connection_options_pass:
  assumes "(bytes ''Connection'', [k]) \<in> set (sr_headers rq)" and "(k, v) \<in> set (sr_headers rq)"
    and "k \<notin> set (map bytes (sigV4Headers @ hopByHopHeaders))"
  shows "(k, v) \<in> set (out_headers (outgoing target rq)) \<and>
    bytes ''Connection'' \<notin> fst ` set (out_headers (outgoing target rq))"
proof -
  have "bytes ''Connection'' \<in> set (map bytes (sigV4Headers @ hopByHopHeaders))"
    by (simp add: hopByHopHeaders_def)
  then show ?thesis using assms(2,3) by (auto simp: outgoing_def stripped_headers simp del: set_map set_append)
qed

section \<open>What must not be passed on\<close>

text \<open>
  Apart from the lists of the code: the headers with which an S3 client signs, among them the
  one with its token; the headers that RFC 7230 says belong to one connection, as far as the code
  knows them; and the parameters of S3 requests that configure a bucket or an object or handle
  uploads in parts.
\<close>

definition client_credentials :: "string list" where
  "client_credentials =
     ''Authorization'' # map (\<lambda>s. ''X-Amz-'' @ s)
       [''Algorithm'', ''Content-Sha256'', ''Credential'', ''Date'', ''Security-Token'', ''Signature'', ''Signedheaders'']"

definition connection_headers :: "string list" where
  "connection_headers =
     [''Connection'', ''Keep-Alive'', ''Proxy-Authenticate'', ''Proxy-Authorization'', ''Te'', ''Transfer-Encoding'', ''Upgrade'']"

definition admin_parameters :: "string list" where
  "admin_parameters =
     [''accelerate'', ''acl'', ''analytics'', ''cors'', ''encryption'', ''intelligent-tiering'', ''inventory'', ''legal-hold'',
      ''lifecycle'', ''logging'', ''metrics'', ''notification'', ''object-lock'', ''ownershipcontrols'', ''partnumber'',
      ''policy'', ''publicaccessblock'', ''replication'', ''requestpayment'', ''restore'', ''retention'', ''select'',
      ''tagging'', ''torrent'', ''uploadid'', ''uploads'', ''versioning'', ''website'']"

definition asks_admin :: "params \<Rightarrow> bool" where
  "asks_admin ps \<longleftrightarrow> list_ex (\<lambda>(k, _). map lower_byte k \<in> set (map bytes admin_parameters)) ps"

lemma spec_lists:
  "set client_credentials \<union> set connection_headers \<subseteq> set (sigV4Headers @ hopByHopHeaders)"
  "set admin_parameters \<subseteq> set adminSubResources" "list_all (\<lambda>n. visible (bytes n)) admin_parameters"
    apply (simp add: client_credentials_def connection_headers_def sigV4Headers_def hopByHopHeaders_def)
   apply (simp add: admin_parameters_def adminSubResources_def)
  apply code_simp
  done

lemma visible_lowered: "visible (map lower_byte k) \<Longrightarrow> visible k"
proof -
  have "32 < x \<and> x < 128" if low: "32 < lower_byte x \<and> lower_byte x < 128" for x
  proof (cases "65 \<le> x \<and> x \<le> 90")
    case True
    have "32 < x" by (rule order.strict_trans2 [of _ 65]) (use True in simp_all)
    moreover have "x < 128" by (rule order.strict_trans1 [of _ 90]) (use True in simp_all)
    ultimately show ?thesis ..
  next
    case False
    then have "lower_byte x = x" by (simp only: lower_byte_def if_False)
    then show ?thesis using low by simp
  qed
  then show "visible (map lower_byte k) \<Longrightarrow> visible k"
    unfolding visible_def list_all_iff set_map by blast
qed

context byte_lowering
begin

lemma asks_named: "asks_admin ps \<Longrightarrow> names_admin lower ps"
proof -
  assume "asks_admin ps"
  then obtain k v where kv: "(k, v) \<in> set ps" "map lower_byte k \<in> set (map bytes admin_parameters)"
    unfolding asks_admin_def list_ex_iff by blast
  from kv(2) obtain n where n: "n \<in> set admin_parameters" "map lower_byte k = bytes n"
    unfolding set_map by blast
  have "visible (bytes n)" using n(1) spec_lists(3) unfolding list_all_iff by blast
  then have "visible (map lower_byte k)" unfolding n(2) .
  then have "visible k" by (rule visible_lowered)
  then have low: "lower k = bytes n" unfolding n(2) [symmetric] by (rule lower_visible)
  have "bytes n \<in> set (map bytes adminSubResources)"
    using n(1) spec_lists(2) unfolding set_map by blast
  then have "lower k \<in> set (map bytes adminSubResources)" unfolding low .
  then show ?thesis using kv(1) unfolding names_admin_def list_ex_iff by blast
qed

end

section \<open>Properties\<close>

text \<open>
  C13. The proxy passes on only what is permitted: a request reaches the storage only if its token is
  verified and the groups of the token grant its method on the bucket of its path; a \<open>PUT\<close>, \<open>POST\<close> or
  \<open>DELETE\<close> names an object below the bucket; the path is the one that was checked; none of the
  headers with the caller's signature or token and none of the connection's own headers goes along; and
  unless the query has a number sign, no parameter of the query sent on, in whatever letter case, is
  one of S3's administrative ones. These headers and parameters are listed apart from the code. Other
  headers do go along, \<open>Cookie\<close> and those that \<open>Connection\<close> names included.
\<close>

theorem proxy_forwards_permitted:
  assumes "byte_lowering lower" and "ServeHTTP lower verify sign upstr rq = Forwarded f"
  shows "\<exists>user groups path target creds.
    verify (extractBearerToken (sr_headers rq)) = Some (user, groups) \<and>
    unescape False (sr_path rq) = Some path \<and> pathBucket path \<noteq> [] \<and>
    CheckAccess groups (pathBucket path) (sr_method rq) \<and>
    (sr_method rq \<in> {PUT, POST, DELETE} \<longrightarrow> 47 \<in> set (trim_slashes path)) \<and>
    f = with_agent (sign_request sign creds (outgoing target rq)) \<and>
    out_method (outgoing target rq) = sr_method rq \<and>
    unescape False (out_path (outgoing target rq)) = Some path \<and>
    list_all (\<lambda>(k, _). k \<notin> set (map bytes (client_credentials @ connection_headers)))
      (out_headers (outgoing target rq)) \<and>
    (35 \<in> set (raw_query rq) \<or> \<not> asks_admin (parse_query (out_query (outgoing target rq))))"
proof -
  obtain user groups path uri target creds where
      token: "verify (extractBearerToken (sr_headers rq)) = Some (user, groups)"
    and path: "unescape False (sr_path rq) = Some path" and uri: "request_uri rq = Some uri"
    and named: "pathBucket path \<noteq> []" and admin: "\<not> IsAdminOperation lower (sr_method rq) uri"
    and access: "CheckAccess groups (pathBucket path) (sr_method rq)"
    and f: "f = with_agent (sign_request sign creds (outgoing target rq))"
    using ServeHTTP_forwards [OF assms(2)] by blast
  obtain p q where pq: "url_parse uri = Some (p, q)" using admin by (auto simp: IsAdminOperation_def split: option.splits)
  have p: "p = path" and q: "q = fst (cut_byte 35 (raw_query rq))"
    using url_parse_request [OF uri pq] path by auto
  have query: "\<not> names_admin lower (parse_query q)"
    and parts: "sr_method rq \<in> {PUT, POST, DELETE} \<longrightarrow> 47 \<in> set (trim_slashes path)"
    using admin pq p by (auto simp: IsAdminOperation_def one_part_iff split: if_splits)
  obtain e where "escaped_path (sr_path rq) = Some e" using uri by (auto simp: request_uri_def)
  then have sent: "unescape False (out_path (outgoing target rq)) = Some path"
    using escaped_path_facts(1) path by (simp add: outgoing_def)
  have "out_query (outgoing target rq) = clean_query (raw_query rq)" by (simp add: outgoing_def raw_query_def)
  then have "35 \<in> set (raw_query rq) \<or> \<not> names_admin lower (parse_query (out_query (outgoing target rq)))"
    using query names_admin_mset [OF clean_query_params [of "raw_query rq"], of lower] no_fragment [of "raw_query rq"]
    by (auto simp: q)
  then have asked: "35 \<in> set (raw_query rq) \<or> \<not> asks_admin (parse_query (out_query (outgoing target rq)))"
    using byte_lowering.asks_named [OF assms(1)] by blast
  have "set (map bytes (client_credentials @ connection_headers)) \<subseteq> set (map bytes (sigV4Headers @ hopByHopHeaders))"
    using spec_lists(1) by (simp only: set_map set_append) (rule image_mono)
  then have "list_all (\<lambda>(k, _). k \<notin> set (map bytes (client_credentials @ connection_headers)))
      (out_headers (outgoing target rq))"
    unfolding list_all_iff by (auto simp: outgoing_def stripped_headers simp del: set_map set_append)
  moreover have "out_method (outgoing target rq) = sr_method rq" by (simp add: outgoing_def)
  ultimately show ?thesis using token path named access parts f sent asked by blast
qed

text \<open>
  C15. A number sign hides an administrative parameter from the proxy. The check parses the target as
  a URL with a fragment, the request itself has none. So with the rights for the method alone, every
  query with valid escapes and without a semicolon that is refused for an administrative parameter
  gets through behind \<open>x=#&\<close>, and each of its parameters is sent on as one of its own.
\<close>

theorem fragment_hides_admin_parameter:
  assumes "byte_lowering lower"
    and "extractBearerToken (sr_headers rq) \<noteq> []"
    and "verify (extractBearerToken (sr_headers rq)) = Some (user, groups)"
    and "unescape False (sr_path rq) = Some path" and "pathBucket path \<noteq> []"
    and "CheckAccess groups (pathBucket path) (sr_method rq)"
    and "sr_method rq \<in> {GET, HEAD} \<or> 47 \<in> set (trim_slashes path)"
    and "up_endpoint up = Some target" and "up_credentials up = Some creds"
    and "names_admin lower (parse_query q)" and "35 \<notin> set q" and "\<not> needs_cleaning q"
  shows "ServeHTTP lower verify sign (Some up) (rq\<lparr>sr_query := Some q\<rparr>) =
      Proxy_Error 403 ''operation_not_permitted'' ''admin operations are not allowed'' \<and>
    ServeHTTP lower verify sign (Some up) (rq\<lparr>sr_query := Some (bytes ''x=#&'' @ q)\<rparr>) =
      Forwarded (with_agent (sign_request sign creds (outgoing target (rq\<lparr>sr_query := Some (bytes ''x=#&'' @ q)\<rparr>)))) \<and>
    set (parse_query q) \<subseteq>
      set (parse_query (out_query (outgoing target (rq\<lparr>sr_query := Some (bytes ''x=#&'' @ q)\<rparr>))))"
proof (intro conjI)
  let ?r1 = "rq\<lparr>sr_query := Some q\<rparr>" and ?r2 = "rq\<lparr>sr_query := Some (bytes ''x=#&'' @ q)\<rparr>"
  obtain u1 where u1: "request_uri ?r1 = Some u1" using request_uri_some [of ?r1 path] assms(4) by auto
  have "IsAdminOperation lower (sr_method rq) u1"
  proof (cases "url_parse u1")
    case (Some pq)
    then have "snd pq = q"
      using url_parse_request(2) [OF u1, of "fst pq" "snd pq"] no_fragment [OF assms(11)] by (simp add: raw_query_def)
    then show ?thesis using Some assms(10) by (cases pq) (simp add: IsAdminOperation_def)
  qed (simp add: IsAdminOperation_def)
  then show "ServeHTTP lower verify sign (Some up) ?r1 =
      Proxy_Error 403 ''operation_not_permitted'' ''admin operations are not allowed''"
    using assms(2-5) u1 by (simp add: ServeHTTP_def)
  obtain u2 where u2: "request_uri ?r2 = Some u2" using request_uri_some [of ?r2 path] assms(4) by auto
  have cut: "fst (cut_byte 35 (raw_query ?r2)) = bytes ''x=''"
    by (simp add: raw_query_def fst_cut_byte bytes_def)
  have "lower (bytes ''x'') = bytes ''x''"
    using byte_lowering.lower_visible [OF assms(1), of "bytes ''x''"]
    by (simp add: visible_def bytes_def lower_byte_def)
  moreover have "parse_query (bytes ''x='') = [(bytes ''x'', [])]" "bytes ''x'' \<notin> set (map bytes adminSubResources)"
    "\<not> list_ex control (bytes ''x='')"
    by code_simp+
  moreover have "snd (cut_byte 35 (raw_query ?r2)) = Some (38 # q)"
    by (simp add: raw_query_def cut_byte_def bytes_def)
  moreover have "unescape False (38 # q) \<noteq> None" using clean_unescapes [OF assms(12)] by simp
  ultimately have "\<not> names_admin lower (parse_query (fst (cut_byte 35 (raw_query ?r2))))"
      "unescape False (case snd (cut_byte 35 (raw_query ?r2)) of Some f \<Rightarrow> f | None \<Rightarrow> []) \<noteq> None"
      "\<not> list_ex control (fst (cut_byte 35 (raw_query ?r2)))"
    unfolding cut by (simp_all add: names_admin_def del: set_map)
  then have "\<not> IsAdminOperation lower (sr_method rq) u2"
    using not_admin [of ?r2 path u2 lower] u2 assms(4,7) by simp
  then show "ServeHTTP lower verify sign (Some up) ?r2 = Forwarded (with_agent (sign_request sign creds (outgoing target ?r2)))"
    using ServeHTTP_accepts [of verify ?r2 user groups path u2 lower up target creds sign] u2 assms(2-6,8,9) by simp
  have "\<not> needs_cleaning (bytes ''x=#&'' @ q)" using assms(12) by (simp add: bytes_def)
  moreover have "split_bytes 38 (bytes ''x=#&'' @ q) = bytes ''x=#'' # split_bytes 38 q"
    using split_bytes_append [of 38 "bytes ''x=#''" q] by (simp add: bytes_def)
  ultimately show "set (parse_query q) \<subseteq> set (parse_query (out_query (outgoing target ?r2)))"
    by (auto simp: outgoing_def clean_query_id parse_query_def map_filter_simps split: option.split)
qed

text \<open>
  C27. The proxy checks the bucket of the path and no other: a copy is a \<open>PUT\<close> whose source is
  named in a header, the header is passed on as it came, and the decision is the same whatever object it
  names. The right to write to one bucket is thus enough to ask for a copy out of every
  bucket the gateway itself can read, of those the groups grant nothing on.
\<close>

theorem copy_source_is_not_checked:
  assumes "extractBearerToken (sr_headers rq) \<noteq> []"
    and "verify (extractBearerToken (sr_headers rq)) = Some (user, groups)"
    and "unescape False (sr_path rq) = Some path" and "pathBucket path \<noteq> []" and "47 \<in> set (trim_slashes path)"
    and "sr_method rq = PUT" and "sr_query rq = None" and "CheckAccess groups (pathBucket path) PUT"
    and "up_endpoint up = Some target" and "up_credentials up = Some creds"
    and "(bytes ''X-Amz-Copy-Source'', [source]) \<in> set (sr_headers rq)"
  shows "ServeHTTP lower verify sign (Some up) rq = Forwarded (with_agent (sign_request sign creds (outgoing target rq))) \<and>
    out_method (outgoing target rq) = PUT \<and>
    (bytes ''X-Amz-Copy-Source'', [source]) \<in> set (out_headers (outgoing target rq))"
proof -
  obtain uri where uri: "request_uri rq = Some uri" using request_uri_some [OF assms(3)] by blast
  have "\<not> IsAdminOperation lower (sr_method rq) uri"
    using assms(5,7) by (intro not_admin [OF assms(3) uri])
      (simp_all add: raw_query_def cut_byte_none parse_query_def parse_pair_def map_filter_simps names_admin_def)
  then have "ServeHTTP lower verify sign (Some up) rq = Forwarded (with_agent (sign_request sign creds (outgoing target rq)))"
    using ServeHTTP_accepts [of verify rq user groups path uri lower up target creds sign] uri assms by simp
  moreover have "bytes ''X-Amz-Copy-Source'' \<notin> set (map bytes (sigV4Headers @ hopByHopHeaders))"
    by code_simp
  ultimately show ?thesis
    using assms(6,11) by (simp add: outgoing_def stripped_headers del: set_map)
qed

section \<open>Examples\<close>

definition drop_groups :: "gostr \<Rightarrow> (gostr \<times> gostr list) option" where
  "drop_groups tok = (if tok = bytes ''t'' then Some (bytes ''u'', [bytes ''in-wo'']) else None)"

definition sample_upstream :: upstream where
  "sample_upstream = \<lparr>up_endpoint = Some (bytes ''http'', bytes ''s3:80''), up_credentials = Some (bytes ''k''), up_buckets = None\<rparr>"

definition drop_put :: "headers \<Rightarrow> s3_request" where
  "drop_put hs = read_target PUT (bytes ''/in/k'') ((bytes ''Authorization'', [bytes ''Bearer t'']) # hs)"

lemma drop_put_facts:
  "extractBearerToken (sr_headers (drop_put hs)) = bytes ''t''" "unescape False (sr_path (drop_put hs)) = Some (bytes ''/in/k'')"
  "pathBucket (bytes ''/in/k'') = bytes ''in''" "drop_groups (bytes ''t'') = Some (bytes ''u'', [bytes ''in-wo''])"
  "bytes ''t'' \<noteq> []" "bytes ''in'' \<noteq> []" "CheckAccess [bytes ''in-wo''] (bytes ''in'') PUT"
  "47 \<in> set (trim_slashes (bytes ''/in/k''))" "sr_method (drop_put hs) = PUT" "sr_query (drop_put hs) = None"
  "up_endpoint sample_upstream = Some (bytes ''http'', bytes ''s3:80'')" "up_credentials sample_upstream = Some (bytes ''k'')"
proof -
  have hd: "header_get ''Authorization'' (sr_headers (drop_put hs)) = bytes ''Bearer t''"
    by (simp add: drop_put_def read_target_def case_prod_beta header_get_def)
  have "extractBearerToken [(bytes ''Authorization'', [bytes ''Bearer t''])] = bytes ''t''"
    "header_get ''Authorization'' [(bytes ''Authorization'', [bytes ''Bearer t''])] = bytes ''Bearer t''" by code_simp+
  then show "extractBearerToken (sr_headers (drop_put hs)) = bytes ''t''"
    unfolding extractBearerToken_def hd by simp
  have "cut_byte 63 (bytes ''/in/k'') = (bytes ''/in/k'', None)" "unescape False (bytes ''/in/k'') = Some (bytes ''/in/k'')"
    by code_simp+
  then show "unescape False (sr_path (drop_put hs)) = Some (bytes ''/in/k'')" "sr_method (drop_put hs) = PUT"
    "sr_query (drop_put hs) = None"
    by (simp_all add: drop_put_def read_target_def)
  show "pathBucket (bytes ''/in/k'') = bytes ''in''" "drop_groups (bytes ''t'') = Some (bytes ''u'', [bytes ''in-wo''])"
    "bytes ''t'' \<noteq> []" "bytes ''in'' \<noteq> []" "CheckAccess [bytes ''in-wo''] (bytes ''in'') PUT"
    "47 \<in> set (trim_slashes (bytes ''/in/k''))"
    "up_endpoint sample_upstream = Some (bytes ''http'', bytes ''s3:80'')" "up_credentials sample_upstream = Some (bytes ''k'')"
    by code_simp+
qed

theorem copy_source_is_not_checked_witness:
  "(\<exists>out. ServeHTTP (map lower_byte) drop_groups (\<lambda>_. Some) (Some sample_upstream)
      (drop_put [(bytes ''X-Amz-Copy-Source'', [bytes ''/secret/k''])]) = Forwarded out \<and>
    (bytes ''X-Amz-Copy-Source'', [bytes ''/secret/k'']) \<in> set (out_headers out)) \<and>
   \<not> CheckAccess [bytes ''in-wo''] (bytes ''secret'') GET"
proof -
  let ?rq = "drop_put [(bytes ''X-Amz-Copy-Source'', [bytes ''/secret/k''])]"
  have src: "(bytes ''X-Amz-Copy-Source'', [bytes ''/secret/k'']) \<in> set (sr_headers ?rq)"
    by (simp add: drop_put_def read_target_def case_prod_beta)
  have "\<not> CheckAccess [bytes ''in-wo''] (bytes ''secret'') GET" by code_simp
  then show ?thesis
    using copy_source_is_not_checked [of ?rq drop_groups "bytes ''u''" "[bytes ''in-wo'']" "bytes ''/in/k''"
        sample_upstream "(bytes ''http'', bytes ''s3:80'')" "bytes ''k''" "bytes ''/secret/k''" "map lower_byte" "\<lambda>_. Some"]
      drop_put_facts src
    by (auto simp: sign_request_def with_agent_def)
qed

lemma drop_put_forwarded:
  "\<exists>out. ServeHTTP (map lower_byte) drop_groups (\<lambda>_. Some) (Some sample_upstream) (drop_put []) = Forwarded out"
proof -
  obtain uri where uri: "request_uri (drop_put []) = Some uri" using request_uri_some drop_put_facts(2) by blast
  have "\<not> IsAdminOperation (map lower_byte) PUT uri"
    using not_admin [OF drop_put_facts(2) uri, of "map lower_byte"] drop_put_facts
    by (simp add: raw_query_def cut_byte_none parse_query_def parse_pair_def map_filter_simps names_admin_def)
  then show ?thesis using ServeHTTP_accepts [of drop_groups "drop_put []"] uri drop_put_facts by simp
qed

theorem proxy_forwards_permitted_witness:
  "\<exists>out. ServeHTTP (map lower_byte) drop_groups (\<lambda>_. Some) (Some sample_upstream) (drop_put []) = Forwarded out \<and>
     CheckAccess [bytes ''in-wo''] (pathBucket (bytes ''/in/k'')) PUT"
proof -
  obtain out where fwd: "ServeHTTP (map lower_byte) drop_groups (\<lambda>_. Some) (Some sample_upstream) (drop_put []) = Forwarded out"
    using drop_put_forwarded by blast
  from proxy_forwards_permitted [OF ascii_bytes.byte_lowering_axioms fwd] fwd show ?thesis using drop_put_facts by auto
qed

theorem fragment_hides_admin_parameter_witness:
  "ServeHTTP (map lower_byte) drop_groups (\<lambda>_. Some) (Some sample_upstream) ((drop_put [])\<lparr>sr_query := Some (bytes ''acl'')\<rparr>) =
     Proxy_Error 403 ''operation_not_permitted'' ''admin operations are not allowed'' \<and>
   (\<exists>out. ServeHTTP (map lower_byte) drop_groups (\<lambda>_. Some) (Some sample_upstream)
      ((drop_put [])\<lparr>sr_query := Some (bytes ''x=#&acl'')\<rparr>) = Forwarded out \<and>
    (bytes ''acl'', []) \<in> set (parse_query (out_query out)))"
proof -
  have low: "byte_lowering (map lower_byte)" by (rule ascii_bytes.byte_lowering_axioms)
  have q: "names_admin (map lower_byte) (parse_query (bytes ''acl''))" "35 \<notin> set (bytes ''acl'')"
    "\<not> needs_cleaning (bytes ''acl'')" "bytes ''x=#&'' @ bytes ''acl'' = bytes ''x=#&acl''"
    "(bytes ''acl'', []) \<in> set (parse_query (bytes ''acl''))"
    by code_simp+
  show ?thesis
    using fragment_hides_admin_parameter [OF low, of "drop_put []" drop_groups "bytes ''u''" "[bytes ''in-wo'']" "bytes ''/in/k''"
        sample_upstream "(bytes ''http'', bytes ''s3:80'')" "bytes ''k''" "bytes ''acl''" "\<lambda>_. Some"]
      drop_put_facts q
    by (auto simp: sign_request_def with_agent_def)
qed

end
