(* ===== verification/Stats_Flight.thy ===== *)
theory Stats_Flight
  imports Gateway Reachability
begin

text \<open>
  The statistics of the gateway under overlapping requests, \<open>internal/webui/stats.go\<close>: the cache,
  the buckets being walked and the channels on which other requests wait for a walk. Each
  section under the mutex is one step, so the steps of any number of requests interleave. The
  requests are those past their guards (\<open>HandleBucketStats\<close>); what a walk finds, and when, is open.
\<close>

section \<open>State\<close>

text \<open>A request is a number; while it walks or waits it has its bucket and its channel.\<close>

record flight_call =
  fc_id :: nat
  fc_bucket :: gostr
  fc_chan :: nat

record 'body flight =
  fl_cache :: "'body stats_cache"
  fl_pending :: "gostr \<rightharpoonup> nat"
  fl_closed :: "nat list"
  fl_next :: nat
  fl_walks :: "flight_call list"
  fl_waits :: "flight_call list"
  fl_answers :: "(nat \<times> 'body api_reply) list"

definition newStatsCache :: "'body flight" where
  "newStatsCache =
     \<lparr>fl_cache = Map.empty, fl_pending = Map.empty, fl_closed = [], fl_next = 0, fl_walks = [], fl_waits = [],
      fl_answers = []\<rparr>"

definition walk_failed :: "'body api_reply" where
  "walk_failed = Api_Error 502 ''upstream_error'' ''failed to compute bucket stats''"

definition answer :: "nat \<Rightarrow> 'body api_reply \<Rightarrow> 'body flight \<Rightarrow> 'body flight" where
  "answer i r s = s\<lparr>fl_answers := fl_answers s @ [(i, r)]\<rparr>"

section \<open>Operations\<close>

text \<open>The first section: a fresh entry answers, a walk under way is waited for, else one is begun.\<close>

definition fresh :: "int \<Rightarrow> ('body api_reply \<times> int) option \<Rightarrow> bool" where
  "fresh now e \<longleftrightarrow> (case e of Some (_, fetched) \<Rightarrow> now - fetched < 300 | None \<Rightarrow> False)"

definition arrive :: "nat \<Rightarrow> gostr \<Rightarrow> int \<Rightarrow> 'body flight \<Rightarrow> 'body flight" where
  "arrive i b now s =
     (if fresh now (fl_cache s b) then answer i (fst (the (fl_cache s b))) s
      else case fl_pending s b of
             Some ch \<Rightarrow> s\<lparr>fl_waits := fl_waits s @ [\<lparr>fc_id = i, fc_bucket = b, fc_chan = ch\<rparr>]\<rparr>
           | None \<Rightarrow>
               s\<lparr>fl_pending := (fl_pending s)(b \<mapsto> fl_next s), fl_next := Suc (fl_next s),
                 fl_walks := fl_walks s @ [\<lparr>fc_id = i, fc_bucket = b, fc_chan = fl_next s\<rparr>]\<rparr>)"

text \<open>The section after the walk, with what it found, if it did not fail.\<close>

definition without :: "flight_call \<Rightarrow> flight_call list \<Rightarrow> flight_call list" where
  "without c cs = filter (\<lambda>d. fc_id d \<noteq> fc_id c) cs"

definition walk_done :: "flight_call \<Rightarrow> 'body api_reply option \<Rightarrow> int \<Rightarrow> 'body flight \<Rightarrow> 'body flight" where
  "walk_done c found now s =
     (let s1 = s\<lparr>fl_pending := (fl_pending s)(fc_bucket c := None), fl_closed := fc_chan c # fl_closed s,
                 fl_walks := without c (fl_walks s)\<rparr>
      in case found of
           None \<Rightarrow> answer (fc_id c) walk_failed s1
         | Some r \<Rightarrow> answer (fc_id c) r (s1\<lparr>fl_cache := (fl_cache s1)(fc_bucket c \<mapsto> (r, now))\<rparr>))"

text \<open>A waiting request goes on when its channel is closed, or when its client has gone.\<close>

definition leave_wait :: "flight_call \<Rightarrow> 'body flight \<Rightarrow> 'body flight" where
  "leave_wait c s = s\<lparr>fl_waits := without c (fl_waits s)\<rparr>"

definition wake :: "flight_call \<Rightarrow> 'body flight \<Rightarrow> 'body flight" where
  "wake c s =
     answer (fc_id c) (case fl_cache s (fc_bucket c) of Some (r, _) \<Rightarrow> r | None \<Rightarrow> walk_failed) (leave_wait c s)"

definition cancel_wait :: "flight_call \<Rightarrow> 'body flight \<Rightarrow> 'body flight" where
  "cancel_wait c s = answer (fc_id c) (Api_Error 503 ''canceled'' ''request canceled'') (leave_wait c s)"

section \<open>Steps\<close>

definition requests :: "'body flight \<Rightarrow> nat list" where
  "requests s = map fc_id (fl_walks s) @ map fc_id (fl_waits s) @ map fst (fl_answers s)"

text \<open>The steps that need no new request.\<close>

inductive settling :: "'body flight \<Rightarrow> 'body flight \<Rightarrow> bool" where
  settle_walk: "c \<in> set (fl_walks s) \<Longrightarrow> settling s (walk_done c found now s)"
| settle_wake: "c \<in> set (fl_waits s) \<Longrightarrow> fc_chan c \<in> set (fl_closed s) \<Longrightarrow> settling s (wake c s)"
| settle_cancel: "c \<in> set (fl_waits s) \<Longrightarrow> settling s (cancel_wait c s)"

inductive flight_step :: "'body flight \<Rightarrow> 'body flight \<Rightarrow> bool" where
  flight_arrive: "i \<notin> set (requests s) \<Longrightarrow> flight_step s (arrive i b now s)"
| flight_settle: "settling s s' \<Longrightarrow> flight_step s s'"

inductive_cases settlingE: "settling s s'"
inductive_cases flight_stepE: "flight_step s s'"

section \<open>Invariant\<close>

text \<open>
  Pending buckets are those being walked, each once and by its own channel; who waits does so on the
  channel of the walk of its bucket, or on a closed one; a request is in one place.
\<close>

definition channels :: "flight_call list \<Rightarrow> gostr \<rightharpoonup> nat" where
  "channels cs = map_of (map (\<lambda>c. (fc_bucket c, fc_chan c)) cs)"

definition flight_ok :: "'body flight \<Rightarrow> bool" where
  "flight_ok s \<longleftrightarrow>
     distinct (requests s) \<and> distinct (map fc_bucket (fl_walks s)) \<and> fl_pending s = channels (fl_walks s) \<and>
     (\<forall>c\<in>set (fl_waits s). fc_chan c \<in> set (fl_closed s) \<or> fl_pending s (fc_bucket c) = Some (fc_chan c))"

lemma without_id: "map fc_id (without c cs) = filter (\<lambda>j. j \<noteq> fc_id c) (map fc_id cs)"
  by (simp add: without_def filter_map comp_def)

lemma without_set: "fc_id ` set (without c cs) = fc_id ` set cs - {fc_id c}"
  by (auto simp: without_def)

lemma without_length: "c \<in> set cs \<Longrightarrow> distinct (map fc_id cs) \<Longrightarrow> length cs = Suc (length (without c cs))"
proof (induction cs)
  case (Cons d cs)
  show ?case
  proof (cases "d = c")
    case True
    then have "without c cs = cs" using Cons.prems(2) by (auto simp: without_def filter_id_conv) (metis image_eqI)
    then show ?thesis using True by (simp add: without_def)
  next
    case False
    then have "fc_id d \<noteq> fc_id c" using Cons.prems by auto
    then show ?thesis using Cons False by (simp add: without_def)
  qed
qed simp

lemma without_bucket:
  assumes "c \<in> set cs" and "distinct (map fc_id cs)" and "distinct (map fc_bucket cs)"
  shows "without c cs = filter (\<lambda>d. fc_bucket d \<noteq> fc_bucket c) cs"
  unfolding without_def using assms by (intro filter_cong refl) (auto simp: distinct_map dest: inj_onD)

lemma channels_filter: "channels (filter (\<lambda>d. fc_bucket d \<noteq> b) cs) = (channels cs)(b := None)"
  by (induction cs) (auto simp: channels_def fun_eq_iff)

lemma channels_snoc: "b \<notin> fc_bucket ` set cs \<Longrightarrow>
    channels (cs @ [\<lparr>fc_id = i, fc_bucket = b, fc_chan = ch\<rparr>]) = (channels cs)(b \<mapsto> ch)"
  by (induction cs) (auto simp: channels_def fun_eq_iff)

lemma channels_None: "channels cs b = None \<longleftrightarrow> b \<notin> fc_bucket ` set cs"
  by (simp add: channels_def map_of_eq_None_iff image_image)

lemma ok_start: "flight_ok newStatsCache"
  by (simp add: flight_ok_def newStatsCache_def requests_def channels_def)

lemma ok_arrive:
  assumes "flight_ok s" and "i \<notin> set (requests s)"
  shows "flight_ok (arrive i b now s)"
proof (cases "fresh now (fl_cache s b)")
  case True
  then show ?thesis using assms by (auto simp: flight_ok_def arrive_def answer_def requests_def)
next
  case stale: False
  show ?thesis
  proof (cases "fl_pending s b")
    case None
    then have "b \<notin> fc_bucket ` set (fl_walks s)" using assms(1) by (simp add: flight_ok_def channels_None)
    then show ?thesis
      using assms None stale by (auto simp: flight_ok_def arrive_def requests_def channels_snoc)
  next
    case (Some ch)
    then show ?thesis using assms stale by (auto simp: flight_ok_def arrive_def requests_def)
  qed
qed

lemma ok_walk_done:
  assumes "flight_ok s" and "c \<in> set (fl_walks s)"
  shows "flight_ok (walk_done c found now s)"
proof -
  have ids: "distinct (map fc_id (fl_walks s))" and buckets: "distinct (map fc_bucket (fl_walks s))"
    using assms(1) by (simp_all add: flight_ok_def requests_def)
  have chan: "fl_pending s (fc_bucket c) = Some (fc_chan c)"
    using assms buckets unfolding flight_ok_def channels_def by (auto intro!: map_of_is_SomeI simp: comp_def)
  have walks: "fl_walks (walk_done c found now s) = without c (fl_walks s)"
    "fl_pending (walk_done c found now s) = (fl_pending s)(fc_bucket c := None)"
    "fl_waits (walk_done c found now s) = fl_waits s"
    "fl_closed (walk_done c found now s) = fc_chan c # fl_closed s"
    "map fst (fl_answers (walk_done c found now s)) = map fst (fl_answers s) @ [fc_id c]"
    by (simp_all add: walk_done_def answer_def Let_def split: option.split)
  have "distinct (requests (walk_done c found now s))"
    using assms unfolding requests_def walks flight_ok_def without_id by auto
  moreover have "distinct (map fc_bucket (without c (fl_walks s)))"
    using buckets by (simp add: without_def distinct_map_filter)
  moreover have "(fl_pending s)(fc_bucket c := None) = channels (without c (fl_walks s))"
    using assms(1) unfolding without_bucket [OF assms(2) ids buckets] channels_filter by (simp add: flight_ok_def)
  moreover have "\<forall>d\<in>set (fl_waits s). fc_chan d \<in> set (fc_chan c # fl_closed s) \<or>
      ((fl_pending s)(fc_bucket c := None)) (fc_bucket d) = Some (fc_chan d)"
  proof
    fix d assume "d \<in> set (fl_waits s)"
    then have "fc_chan d \<in> set (fl_closed s) \<or> fl_pending s (fc_bucket d) = Some (fc_chan d)"
      using assms(1) unfolding flight_ok_def by blast
    then show "fc_chan d \<in> set (fc_chan c # fl_closed s) \<or>
        ((fl_pending s)(fc_bucket c := None)) (fc_bucket d) = Some (fc_chan d)"
      using chan by (cases "fc_bucket d = fc_bucket c") auto
  qed
  ultimately show ?thesis unfolding flight_ok_def walks by blast
qed

lemma ok_leave:
  assumes "flight_ok s" and "c \<in> set (fl_waits s)"
  shows "flight_ok (answer (fc_id c) r (leave_wait c s))"
  using assms unfolding flight_ok_def
  by (auto simp: answer_def leave_wait_def requests_def without_id) (auto simp: without_def)

interpretation stats: transition_invariant newStatsCache flight_step flight_ok
proof
  show "flight_ok newStatsCache" by (rule ok_start)
next
  fix s s' :: "'body flight" assume step: "flight_step s s'" and ok: "flight_ok s"
  show "flight_ok s'"
    using step ok ok_arrive ok_walk_done ok_leave unfolding wake_def cancel_wait_def
    by (elim flight_stepE settlingE) (auto simp: wake_def cancel_wait_def)
qed

section \<open>One request at a time\<close>

text \<open>A request alone is what \<open>HandleBucketStats\<close> makes of it.\<close>

definition alone :: "nat \<Rightarrow> gostr \<Rightarrow> 'body api_reply option \<Rightarrow> int \<Rightarrow> 'body flight \<Rightarrow> 'body flight" where
  "alone i b found now s =
     (let s1 = arrive i b now s in case fl_walks s1 of [] \<Rightarrow> s1 | c # _ \<Rightarrow> walk_done c found now s1)"

lemma alone_handles:
  assumes "fl_walks s = []" and "flight_ok s"
    and "b \<noteq> []" and "CheckAccess groups b GET"
  shows "HandleBucketStats (Some be) st quotas groups b now (fl_cache s) =
      (let s' = alone i b (computeBucketStats be st quotas b) now s in (snd (last (fl_answers s')), fl_cache s'))"
proof -
  have "fl_pending s b = None" using assms(1,2) by (simp add: flight_ok_def channels_def)
  then show ?thesis
    using assms
    by (auto simp: HandleBucketStats_def guarded_def alone_def arrive_def walk_done_def answer_def fresh_def walk_failed_def
        Let_def split: option.split)
qed

section \<open>Properties\<close>

definition in_flight :: "'body flight \<Rightarrow> nat" where
  "in_flight s = length (fl_walks s) + length (fl_waits s)"

lemma settling_counts:
  assumes "flight_ok s" and "settling s s'"
  shows "in_flight s = Suc (in_flight s')"
proof -
  have ids: "distinct (map fc_id (fl_walks s))" "distinct (map fc_id (fl_waits s))"
    using assms(1) by (simp_all add: flight_ok_def requests_def)
  show ?thesis
    using assms(2) without_length [OF _ ids(1)] without_length [OF _ ids(2)]
    by (elim settlingE)
       (auto simp: in_flight_def walk_done_def wake_def cancel_wait_def leave_wait_def answer_def Let_def split: option.splits)
qed

text \<open>
  C18. However requests for statistics overlap, no bucket is walked twice at a time; whoever waits
  waits on a walk of its own bucket that is under way, or on one that has ended, so no
  wake-up is lost; each request is in one place and has at most one answer.
\<close>

theorem stats_single_flight:
  assumes "reach newStatsCache flight_step s"
  shows "distinct (map fc_bucket (fl_walks s)) \<and> distinct (requests s) \<and>
    list_all (\<lambda>c. fc_chan c \<in> set (fl_closed s) \<or>
       list_ex (\<lambda>w. fc_bucket w = fc_bucket c \<and> fc_chan w = fc_chan c) (fl_walks s)) (fl_waits s)"
proof -
  have ok: "flight_ok s" using assms by (rule stats.always)
  have "fc_chan c \<in> set (fl_closed s) \<or> (\<exists>w\<in>set (fl_walks s). fc_bucket w = fc_bucket c \<and> fc_chan w = fc_chan c)"
    if "c \<in> set (fl_waits s)" for c
    using ok that map_of_SomeD [of "map (\<lambda>c. (fc_bucket c, fc_chan c)) (fl_walks s)" "fc_bucket c" "fc_chan c"]
    unfolding flight_ok_def channels_def by fastforce
  then show ?thesis using ok by (auto simp: flight_ok_def list_all_iff list_ex_iff)
qed

definition two_requests :: "unit flight" where
  "two_requests = arrive 2 (bytes ''b'') 0 (arrive 1 (bytes ''b'') 0 newStatsCache)"

lemma two_requests_reached: "reach newStatsCache flight_step two_requests"
proof -
  have "flight_step newStatsCache (arrive 1 (bytes ''b'') 0 newStatsCache)"
    "flight_step (arrive 1 (bytes ''b'') 0 newStatsCache) two_requests"
    unfolding two_requests_def by (rule flight_arrive; simp add: requests_def newStatsCache_def arrive_def fresh_def)+
  then show ?thesis by (blast intro: reach.intros)
qed

lemma two_requests_state:
  "fl_walks two_requests = [\<lparr>fc_id = 1, fc_bucket = bytes ''b'', fc_chan = 0\<rparr>]"
  "fl_waits two_requests = [\<lparr>fc_id = 2, fc_bucket = bytes ''b'', fc_chan = 0\<rparr>]"
  by (simp_all add: two_requests_def newStatsCache_def arrive_def fresh_def)

theorem stats_single_flight_witness:
  "length (fl_walks two_requests) = 1 \<and> length (fl_waits two_requests) = 1 \<and>
   distinct (map fc_bucket (fl_walks two_requests)) \<and> distinct (requests two_requests)"
  using stats_single_flight [OF two_requests_reached] by (simp add: two_requests_state)

text \<open>
  C19. Every request for statistics is answered: from wherever overlapping requests have led, each
  step that takes no new request answers exactly one, as long as one is unanswered there is
  such a step that is not a client giving up, and when none is left all that came have their answer.
\<close>

theorem stats_all_answered:
  assumes "reach newStatsCache flight_step s"
  shows "(settling s s' \<longrightarrow> in_flight s = Suc (in_flight s') \<and> length (fl_answers s') = Suc (length (fl_answers s)) \<and>
      set (requests s') = set (requests s)) \<and>
    (in_flight s \<noteq> 0 \<longrightarrow>
      fl_walks s \<noteq> [] \<or> list_ex (\<lambda>c. fc_chan c \<in> set (fl_closed s)) (fl_waits s)) \<and>
    (in_flight s = 0 \<longrightarrow> requests s = map fst (fl_answers s))"
proof -
  have ok: "flight_ok s" using assms by (rule stats.always)
  have ids: "set (requests s') = set (requests s)" if "settling s s'"
    using that
    by (elim settlingE)
       (auto simp: requests_def walk_done_def wake_def cancel_wait_def leave_wait_def answer_def Let_def without_set
         split: option.splits)
  have "length (fl_answers s') = Suc (length (fl_answers s))" if "settling s s'"
    using that
    by (elim settlingE) (auto simp: walk_done_def wake_def cancel_wait_def leave_wait_def answer_def Let_def split: option.splits)
  moreover have "fl_walks s \<noteq> [] \<or> list_ex (\<lambda>c. fc_chan c \<in> set (fl_closed s)) (fl_waits s)" if "in_flight s \<noteq> 0"
  proof (cases "fl_walks s")
    case Nil
    then have "fl_waits s \<noteq> []" using that by (simp add: in_flight_def)
    then obtain c where "c \<in> set (fl_waits s)" using last_in_set by blast
    then show ?thesis using Nil ok by (auto simp: flight_ok_def channels_def list_ex_iff)
  qed simp
  ultimately show ?thesis
    using ids settling_counts [OF ok] by (auto simp: in_flight_def requests_def)
qed

theorem stats_all_answered_witness:
  "in_flight two_requests = 2 \<and> fl_walks two_requests \<noteq> []"
proof -
  have "settling two_requests (walk_done \<lparr>fc_id = 1, fc_bucket = bytes ''b'', fc_chan = 0\<rparr> None 0 two_requests)"
    by (rule settle_walk) (simp add: two_requests_state)
  then show ?thesis
    using stats_all_answered [OF two_requests_reached, of "walk_done \<lparr>fc_id = 1, fc_bucket = bytes ''b'', fc_chan = 0\<rparr> None 0 two_requests"]
    by (simp add: two_requests_state in_flight_def)
qed

text \<open>
  A walk that fails, as when the client that began it goes away, fails the requests of other clients
  that wait for it, none of which begins a walk of its own.
\<close>

theorem failed_walk_fails_followers:
  assumes "c \<in> set (fl_walks s)" and "d \<in> set (fl_waits s)" and "fc_bucket d = fc_bucket c"
    and "fl_cache s (fc_bucket c) = None"
  shows "last (fl_answers (wake d (walk_done c None now s))) = (fc_id d, walk_failed)"
  using assms by (simp add: wake_def walk_done_def answer_def leave_wait_def)

text \<open>A request that finds a walk under way waits, also where an older result is kept.\<close>

lemma older_result_not_served:
  assumes "\<not> fresh now (fl_cache s b)" and "fl_pending s b = Some ch"
  shows "fl_answers (arrive i b now s) = fl_answers s"
  using assms by (simp add: arrive_def)

end
