(* ===== verification/Sign_In.thy ===== *)
theory Sign_In
  imports Go_Url Gateway
begin

text \<open>
  The sign-in of the gateway, \<open>internal/webui/oidc_handlers.go\<close> with the logout of \<open>auth.go\<close> and
  \<open>internal/auth/oidc.go\<close>: the redirect to the provider, the callback and the
  cookies that hold the state in between. Random values, the hash of PKCE, the provider's token endpoint and
  the decoding of its JSON are parameters. Cookies carry the values here unchanged (base64 and
  tokens); their path is that of the
  API, and their expiry is not modelled except that a negative age deletes.
\<close>

section \<open>Cookies\<close>

datatype set_cookie = Set_Cookie string gostr int

type_synonym cookie_jar = "string \<rightharpoonup> gostr"

definition keep_cookie :: "set_cookie \<Rightarrow> cookie_jar \<Rightarrow> cookie_jar" where
  "keep_cookie c jar = (case c of Set_Cookie n v age \<Rightarrow> jar(n := (if age < 0 then None else Some v)))"

definition keep_cookies :: "set_cookie list \<Rightarrow> cookie_jar \<Rightarrow> cookie_jar" where
  "keep_cookies cs jar = fold keep_cookie cs jar"

definition accessTokenCookie :: string where "accessTokenCookie = ''access_token''"
definition pkceVerifierCookie :: string where "pkceVerifierCookie = ''pkce_verifier''"
definition oauthStateCookie :: string where "oauthStateCookie = ''oauth_state''"

definition setAccessTokenCookie :: "gostr \<Rightarrow> int \<Rightarrow> set_cookie" where
  "setAccessTokenCookie token max_age = Set_Cookie accessTokenCookie token (if max_age < 0 then 0 else max_age)"

definition setTransientCookie :: "string \<Rightarrow> gostr \<Rightarrow> set_cookie" where
  "setTransientCookie name val = Set_Cookie name val 300"

definition clearCookie :: "string \<Rightarrow> set_cookie" where
  "clearCookie name = Set_Cookie name [] (-1)"

definition SetRefreshTokenCookie :: "gostr \<Rightarrow> int \<Rightarrow> set_cookie" where
  "SetRefreshTokenCookie token max_age = Set_Cookie ''refresh_token'' token max_age"

definition ClearRefreshTokenCookie :: set_cookie where
  "ClearRefreshTokenCookie = Set_Cookie ''refresh_token'' [] (-1)"

section \<open>Handlers\<close>

record oidc_config =
  oc_client_id :: gostr
  oc_client_secret :: gostr
  oc_redirect_uri :: gostr
  oc_auth_url :: gostr
  oc_token_url :: gostr
  oc_end_session :: gostr

definition IssuerURL :: "gostr \<Rightarrow> gostr \<Rightarrow> gostr" where
  "IssuerURL url realm = rev (dropWhile (\<lambda>c. c = 47) (rev url)) @ bytes ''/realms/'' @ realm"

definition NewOIDCConfig :: "gostr \<Rightarrow> gostr \<Rightarrow> gostr \<Rightarrow> gostr \<Rightarrow> gostr \<Rightarrow> oidc_config" where
  "NewOIDCConfig url realm client secret redirect =
     (let base = IssuerURL url realm @ bytes ''/protocol/openid-connect''
      in \<lparr>oc_client_id = client, oc_client_secret = secret, oc_redirect_uri = redirect,
          oc_auth_url = base @ bytes ''/auth'', oc_token_url = base @ bytes ''/token'',
          oc_end_session = base @ bytes ''/logout''\<rparr>)"

record token_response =
  tr_access :: gostr
  tr_refresh :: gostr
  tr_expires :: int

datatype sign_in_reply =
  Sign_In_Error nat string gostr
| Found gostr
| Logout_Url gostr

definition oidc_unavailable :: "sign_in_reply \<times> set_cookie list" where
  "oidc_unavailable = (Sign_In_Error 503 ''oidc_unavailable'' (bytes ''OIDC is not configured''), [])"

text \<open>\<open>url.Values\<close> of the redirect.\<close>

definition login_values :: "oidc_config \<Rightarrow> gostr \<Rightarrow> gostr \<Rightarrow> params" where
  "login_values cfg state challenge =
     [(bytes ''response_type'', bytes ''code''), (bytes ''client_id'', oc_client_id cfg),
      (bytes ''redirect_uri'', oc_redirect_uri cfg), (bytes ''scope'', bytes ''openid profile''),
      (bytes ''state'', state), (bytes ''code_challenge'', challenge),
      (bytes ''code_challenge_method'', bytes ''S256'')]"

text \<open>The random values are none where the source of randomness fails.\<close>

definition HandleLogin ::
  "(gostr \<Rightarrow> gostr) \<Rightarrow> oidc_config option \<Rightarrow> gostr option \<Rightarrow> gostr option \<Rightarrow> sign_in_reply \<times> set_cookie list" where
  "HandleLogin pkceChallenge cfg verifier state =
     (case cfg of
        None \<Rightarrow> oidc_unavailable
      | Some c \<Rightarrow>
          (case (verifier, state) of
             (Some v, Some s) \<Rightarrow>
               (Found (oc_auth_url c @ 63 # encode_values (login_values c s (pkceChallenge v))),
                [setTransientCookie pkceVerifierCookie v, setTransientCookie oauthStateCookie s])
           | _ \<Rightarrow> (Sign_In_Error 500 ''internal_error'' (bytes ''failed to start login''), [])))"

text \<open>\<open>Values.Get\<close>: the first value of a key, empty if there is none.\<close>

definition query_get :: "params \<Rightarrow> string \<Rightarrow> gostr" where
  "query_get ps k = (case map_of ps (bytes k) of Some v \<Rightarrow> v | None \<Rightarrow> [])"

definition cookie_value :: "cookie_jar \<Rightarrow> string \<Rightarrow> gostr" where
  "cookie_value jar n = (case jar n of Some v \<Rightarrow> v | None \<Rightarrow> [])"

text \<open>
  The token endpoint: the status and the body of its reply to a form, or none if it cannot be
  reached or read. Keeping at most a megabyte, the reply is decoded.
\<close>

type_synonym token_endpoint = "gostr \<Rightarrow> gostr \<Rightarrow> (nat \<times> gostr) option"

definition maxTokenResponseBytes :: nat where
  "maxTokenResponseBytes = 1048576"

definition with_secret :: "oidc_config \<Rightarrow> params \<Rightarrow> params" where
  "with_secret c vs = vs @ (if oc_client_secret c \<noteq> [] then [(bytes ''client_secret'', oc_client_secret c)] else [])"

definition ask_tokens :: "token_endpoint \<Rightarrow> (gostr \<Rightarrow> token_response option) \<Rightarrow> oidc_config \<Rightarrow> params \<Rightarrow> token_response option" where
  "ask_tokens post Unmarshal c vs =
     (case post (oc_token_url c) (encode_values (with_secret c vs)) of
        None \<Rightarrow> None
      | Some (status, body) \<Rightarrow> if status \<noteq> 200 then None else Unmarshal (take maxTokenResponseBytes body))"

definition code_values :: "oidc_config \<Rightarrow> gostr \<Rightarrow> gostr \<Rightarrow> params" where
  "code_values c code verifier =
     [(bytes ''grant_type'', bytes ''authorization_code''), (bytes ''code'', code),
      (bytes ''redirect_uri'', oc_redirect_uri c), (bytes ''client_id'', oc_client_id c),
      (bytes ''code_verifier'', verifier)]"

definition ExchangeCode ::
  "token_endpoint \<Rightarrow> (gostr \<Rightarrow> token_response option) \<Rightarrow> oidc_config \<Rightarrow> gostr \<Rightarrow> gostr \<Rightarrow> token_response option" where
  "ExchangeCode post Unmarshal c code verifier = ask_tokens post Unmarshal c (code_values c code verifier)"

definition RefreshTokens ::
  "token_endpoint \<Rightarrow> (gostr \<Rightarrow> token_response option) \<Rightarrow> oidc_config \<Rightarrow> gostr \<Rightarrow> token_response option" where
  "RefreshTokens post Unmarshal c refresh =
     ask_tokens post Unmarshal c
       [(bytes ''grant_type'', bytes ''refresh_token''), (bytes ''refresh_token'', refresh),
        (bytes ''client_id'', oc_client_id c)]"

definition HandleCallback ::
  "token_endpoint \<Rightarrow> (gostr \<Rightarrow> token_response option) \<Rightarrow> oidc_config option \<Rightarrow> params \<Rightarrow> cookie_jar \<Rightarrow>
     sign_in_reply \<times> set_cookie list" where
  "HandleCallback post Unmarshal cfg ps jar =
     (case cfg of
        None \<Rightarrow> oidc_unavailable
      | Some c \<Rightarrow>
          (let code = query_get ps ''code''; state = query_get ps ''state''
           in if query_get ps ''error'' \<noteq> [] then (Sign_In_Error 401 ''oidc_error'' (query_get ps ''error''), [])
              else if code = [] \<or> state = [] then (Sign_In_Error 400 ''bad_request'' (bytes ''missing code or state''), [])
              else if cookie_value jar oauthStateCookie = [] \<or> cookie_value jar oauthStateCookie \<noteq> state
              then (Sign_In_Error 400 ''invalid_state'' (bytes ''state mismatch''), [])
              else if cookie_value jar pkceVerifierCookie = []
              then (Sign_In_Error 400 ''invalid_request'' (bytes ''missing PKCE verifier''), [])
              else case ExchangeCode post Unmarshal c code (cookie_value jar pkceVerifierCookie) of
                     None \<Rightarrow> (Sign_In_Error 502 ''token_exchange_failed'' (bytes ''failed to exchange authorization code''), [])
                   | Some tokens \<Rightarrow>
                       (Found (bytes ''/''),
                        [clearCookie pkceVerifierCookie, clearCookie oauthStateCookie,
                         setAccessTokenCookie (tr_access tokens) (tr_expires tokens)]
                        @ (if tr_refresh tokens \<noteq> [] then [SetRefreshTokenCookie (tr_refresh tokens) 0] else []))))"

definition HandleLogout :: "oidc_config option \<Rightarrow> http_method \<Rightarrow> sign_in_reply \<times> set_cookie list" where
  "HandleLogout cfg m =
     (if m \<noteq> POST then (Sign_In_Error 405 ''method_not_allowed'' (bytes ''use POST''), [])
      else (Logout_Url (case cfg of Some c \<Rightarrow> oc_end_session c | None \<Rightarrow> []),
            [ClearRefreshTokenCookie, clearCookie accessTokenCookie]))"

section \<open>Lemmas\<close>

lemmas cookie_names = accessTokenCookie_def pkceVerifierCookie_def oauthStateCookie_def

lemmas cookie_defs = keep_cookies_def keep_cookie_def setAccessTokenCookie_def setTransientCookie_def
  clearCookie_def SetRefreshTokenCookie_def ClearRefreshTokenCookie_def cookie_names

lemma map_of_sort_key: "distinct (map fst vs) \<Longrightarrow> map_of (sort_key fst vs) = map_of vs"
proof -
  assume d: "distinct (map fst vs)"
  have "mset (map fst (sort_key fst vs)) = mset (map fst vs)" by simp
  then have "distinct (map fst (sort_key fst vs))" using d mset_eq_imp_distinct_iff by blast
  then show ?thesis using d by (simp add: map_of_inject_set)
qed

lemma bearer_of_cookie:
  "extractToken [] cookie = (case cookie of None \<Rightarrow> ([], False) | Some v \<Rightarrow> (v, v \<noteq> []))"
  by (auto simp: extractToken_def split: option.split)

text \<open>What the provider reads of a query or a form is what was put in.\<close>

lemma query_get_encoded: "distinct (map fst vs) \<Longrightarrow> query_get (parse_query (encode_values vs)) k = query_get vs k"
  unfolding query_get_def parse_encode by (simp only: map_of_sort_key)

lemma login_keys: "distinct (map fst (login_values c s ch))"
  by (simp add: login_values_def bytes_inject)

lemma code_keys: "distinct (map fst (with_secret c (code_values c code ver)))"
  by (simp add: with_secret_def code_values_def bytes_inject)

lemma code_form:
  "query_get (with_secret c (code_values c code ver)) ''code'' = code"
  "query_get (with_secret c (code_values c code ver)) ''code_verifier'' = ver"
  "query_get (with_secret c (code_values c code ver)) ''client_id'' = oc_client_id c"
  "query_get (with_secret c (code_values c code ver)) ''redirect_uri'' = oc_redirect_uri c"
  "query_get (with_secret c (code_values c code ver)) ''grant_type'' = bytes ''authorization_code''"
  "query_get (with_secret c (code_values c code ver)) ''client_secret'' = oc_client_secret c"
  by (simp_all add: query_get_def with_secret_def code_values_def bytes_inject)

lemma encoded_keys: "distinct (map fst vs) \<Longrightarrow> distinct (map fst (parse_query (encode_values vs)))"
proof -
  have "mset (map fst (sort_key fst vs)) = mset (map fst vs)" by simp
  then show "distinct (map fst vs) \<Longrightarrow> ?thesis" unfolding parse_encode using mset_eq_imp_distinct_iff by blast
qed

section \<open>The provider\<close>

text \<open>
  When a provider must give tokens, apart from what the gateway sends (RFC 6749, 4.1.1 and 4.1.3, with
  2.3.1 for the secret; RFC 7636, 4.3 to 4.6; OpenID Connect Core 3.1.2.1). It knows a client by its
  name, its secret (empty for a public client) and the address to send the user back to. The
  redirect asks for a code, with the scope \<open>openid\<close> and an \<open>S256\<close> challenge; the form then names the
  grant, the code given out, the same address and the client, with its secret, and a verifier of the
  challenge. Neither has a parameter twice.
\<close>

record registration =
  rg_client :: gostr
  rg_secret :: gostr
  rg_redirect :: gostr

definition asks_for_code :: "registration \<Rightarrow> params \<Rightarrow> bool" where
  "asks_for_code reg lp \<longleftrightarrow>
     distinct (map fst lp) \<and> query_get lp ''response_type'' = bytes ''code'' \<and>
     query_get lp ''client_id'' = rg_client reg \<and> query_get lp ''redirect_uri'' = rg_redirect reg \<and>
     List.member (split_bytes 32 (query_get lp ''scope'')) (bytes ''openid'') \<and>
     query_get lp ''code_challenge_method'' = bytes ''S256''"

definition redeems_code :: "(gostr \<Rightarrow> gostr) \<Rightarrow> registration \<Rightarrow> params \<Rightarrow> gostr \<Rightarrow> params \<Rightarrow> bool" where
  "redeems_code hash reg lp code form \<longleftrightarrow>
     distinct (map fst form) \<and> query_get form ''grant_type'' = bytes ''authorization_code'' \<and>
     query_get form ''code'' = code \<and> query_get form ''redirect_uri'' = query_get lp ''redirect_uri'' \<and>
     query_get form ''client_id'' = rg_client reg \<and> query_get form ''client_secret'' = rg_secret reg \<and>
     hash (query_get form ''code_verifier'') = query_get lp ''code_challenge''"

text \<open>What the gateway sends is what such a provider asks for.\<close>

lemma login_asks:
  assumes "reg = \<lparr>rg_client = oc_client_id c, rg_secret = oc_client_secret c, rg_redirect = oc_redirect_uri c\<rparr>"
  shows "asks_for_code reg (parse_query (encode_values (login_values c s ch)))"
proof -
  have "List.member (split_bytes 32 (bytes ''openid profile'')) (bytes ''openid'')" by code_simp
  then have scope: "List.member (split_bytes 32 (query_get (login_values c s ch) ''scope'')) (bytes ''openid'')"
    by (simp add: query_get_def login_values_def bytes_inject)
  show ?thesis
    unfolding asks_for_code_def query_get_encoded [OF login_keys]
    using encoded_keys [OF login_keys] scope
    by (simp add: assms query_get_def login_values_def bytes_inject)
qed

lemma exchange_redeems:
  assumes "reg = \<lparr>rg_client = oc_client_id c, rg_secret = oc_client_secret c, rg_redirect = oc_redirect_uri c\<rparr>"
    and "query_get lp ''redirect_uri'' = oc_redirect_uri c" and "hash v = query_get lp ''code_challenge''"
  shows "redeems_code hash reg lp code (parse_query (encode_values (with_secret c (code_values c code v))))"
  unfolding redeems_code_def query_get_encoded [OF code_keys]
  using encoded_keys [OF code_keys] assms by (simp add: code_form)

section \<open>Properties\<close>

text \<open>
  C17. A callback signs in only the browser that began: an access token is stored only if the state
  of the callback is the one the browser holds, and it is the token the provider gave for
  the code of the callback together with the verifier the browser holds. Otherwise the
  callback changes no cookie.
\<close>

theorem callback_needs_own_state:
  assumes "HandleCallback post Unmarshal cfg ps jar = (reply, cookies)"
  shows "cookies = [] \<and> (case reply of Sign_In_Error _ _ _ \<Rightarrow> True | _ \<Rightarrow> False) \<or>
    (\<exists>c tokens. cfg = Some c \<and> query_get ps ''state'' \<noteq> [] \<and> jar oauthStateCookie = Some (query_get ps ''state'') \<and>
       (\<exists>v. jar pkceVerifierCookie = Some v \<and> v \<noteq> [] \<and> ExchangeCode post Unmarshal c (query_get ps ''code'') v = Some tokens) \<and>
       reply = Found (bytes ''/'') \<and>
       keep_cookies cookies jar accessTokenCookie = Some (tr_access tokens) \<and>
       keep_cookies cookies jar oauthStateCookie = None \<and> keep_cookies cookies jar pkceVerifierCookie = None)"
  using assms
  by (auto simp: HandleCallback_def oidc_unavailable_def cookie_value_def Let_def cookie_defs
      split: option.splits if_splits)

definition sample_oidc :: oidc_config where
  "sample_oidc =
     NewOIDCConfig (bytes ''https://k/'') (bytes ''r'') (bytes ''pier'') (bytes ''z'') (bytes ''https://g/api/v1/auth/callback'')"

definition sample_tokens :: token_response where
  "sample_tokens = \<lparr>tr_access = bytes ''T'', tr_refresh = [], tr_expires = 60\<rparr>"

definition sample_jar :: cookie_jar where
  "sample_jar = [''oauth_state'' \<mapsto> bytes ''s'', ''pkce_verifier'' \<mapsto> bytes ''v'']"

definition sample_post :: token_endpoint where
  "sample_post url form =
     (let ps = parse_query form
      in if query_get ps ''grant_type'' = bytes ''authorization_code'' \<and> query_get ps ''client_secret'' = bytes ''z'' \<and>
            query_get ps ''code'' = bytes ''c'' \<and> query_get ps ''code_verifier'' = bytes ''v''
         then Some (200, bytes ''T'') else Some (400, []))"

definition sample_unmarshal :: "gostr \<Rightarrow> token_response option" where
  "sample_unmarshal body = Some \<lparr>tr_access = body, tr_refresh = [], tr_expires = 60\<rparr>"

lemma sample_secret: "oc_client_secret sample_oidc = bytes ''z''"
  by (simp add: sample_oidc_def NewOIDCConfig_def Let_def)

lemma sample_exchange:
  "ExchangeCode sample_post sample_unmarshal sample_oidc (bytes ''c'') (bytes ''v'') = Some sample_tokens"
  by (simp add: sample_secret ExchangeCode_def ask_tokens_def sample_post_def query_get_encoded code_keys code_form Let_def
      sample_unmarshal_def sample_tokens_def maxTokenResponseBytes_def bytes_def)

lemma callback_needs_own_state_witness:
  "(\<exists>reply cookies. HandleCallback sample_post sample_unmarshal (Some sample_oidc)
       [(bytes ''code'', bytes ''c''), (bytes ''state'', bytes ''s'')] sample_jar = (reply, cookies) \<and>
     keep_cookies cookies sample_jar accessTokenCookie = Some (bytes ''T'')) \<and>
   (\<exists>reply. HandleCallback sample_post sample_unmarshal (Some sample_oidc)
       [(bytes ''code'', bytes ''c''), (bytes ''state'', bytes ''x'')] sample_jar = (reply, []))"
  using callback_needs_own_state [of sample_post sample_unmarshal "Some sample_oidc"
      "[(bytes ''code'', bytes ''c''), (bytes ''state'', bytes ''s'')]" sample_jar]
    callback_needs_own_state [of sample_post sample_unmarshal "Some sample_oidc"
      "[(bytes ''code'', bytes ''c''), (bytes ''state'', bytes ''x'')]" sample_jar]
  by (auto simp: HandleCallback_def Let_def query_get_def cookie_value_def sample_jar_def sample_exchange
      sample_tokens_def cookie_defs bytes_inject) (simp_all add: bytes_def)

text \<open>
  C16. A sign-in completes with every provider that keeps to the standards: one that knows the client as
  the gateway is configured, and gives tokens for its code to any form that redeems it, once the
  redirect has asked for one. When it returns the code with the state of the redirect, the
  callback leaves the browser with a cookie that the API accepts as the user's; and once the user
  signs out, no cookie is left that any request could use.
\<close>

theorem sign_in_completes:
  assumes rand: "v \<noteq> []" "s \<noteq> []"
    and login: "HandleLogin hash (Some c) (Some v) (Some s) = (Found (oc_auth_url c @ 63 # q), sent)"
    and known: "reg = \<lparr>rg_client = oc_client_id c, rg_secret = oc_client_secret c, rg_redirect = oc_redirect_uri c\<rparr>"
    and provider: "asks_for_code reg (parse_query q) \<Longrightarrow>
      (\<And>form. redeems_code hash reg (parse_query q) (query_get ps ''code'') (parse_query form) \<Longrightarrow>
         post (oc_token_url c) form = Some (200, body))"
    and tokens: "Unmarshal (take maxTokenResponseBytes body) = Some tokens" "tr_access tokens \<noteq> []"
    and returned: "query_get ps ''code'' \<noteq> []" "query_get ps ''error'' = []"
      "query_get ps ''state'' = query_get (parse_query q) ''state''"
    and callback: "HandleCallback post Unmarshal (Some c) ps (keep_cookies sent jar) = (reply, got)"
    and signed_in: "signed_in = keep_cookies got (keep_cookies sent jar)"
    and user: "verify (tr_access tokens) = Some user" "ar_authorization rq = []"
    and logout: "HandleLogout (Some c) POST = (goodbye, cleared)"
  shows "reply = Found (bytes ''/'') \<and>
    authenticate verify GET (rq\<lparr>ar_cookie := signed_in accessTokenCookie\<rparr>) = Inr user \<and>
    goodbye = Logout_Url (oc_end_session c) \<and>
    authenticate verify m (rq\<lparr>ar_cookie := keep_cookies cleared signed_in accessTokenCookie\<rparr>) =
      Inl (401, ''unauthorized'', ''missing authentication'')"
proof -
  have q: "q = encode_values (login_values c s (hash v))"
    and sent: "sent = [setTransientCookie pkceVerifierCookie v, setTransientCookie oauthStateCookie s]"
    using login by (auto simp: HandleLogin_def)
  have read: "query_get (parse_query q) ''code_challenge'' = hash v" "query_get (parse_query q) ''state'' = s"
    "query_get (parse_query q) ''client_id'' = oc_client_id c" "query_get (parse_query q) ''redirect_uri'' = oc_redirect_uri c"
    unfolding q query_get_encoded [OF login_keys] by (simp_all add: query_get_def login_values_def bytes_inject)
  have "post (oc_token_url c) (encode_values (with_secret c (code_values c (query_get ps ''code'') v))) = Some (200, body)"
  proof (rule provider)
    show "asks_for_code reg (parse_query q)" unfolding q by (rule login_asks [OF known])
    show "redeems_code hash reg (parse_query q) (query_get ps ''code'')
        (parse_query (encode_values (with_secret c (code_values c (query_get ps ''code'') v))))"
      by (rule exchange_redeems [OF known]) (simp_all add: read)
  qed
  then have "ExchangeCode post Unmarshal c (query_get ps ''code'') v = Some tokens"
    by (simp add: ExchangeCode_def ask_tokens_def tokens)
  moreover have "keep_cookies sent jar oauthStateCookie = Some s" "keep_cookies sent jar pkceVerifierCookie = Some v"
    by (simp_all add: sent cookie_defs)
  ultimately have fin: "reply = Found (bytes ''/'')" "signed_in accessTokenCookie = Some (tr_access tokens)"
    using callback read returned rand
    by (auto simp: HandleCallback_def Let_def cookie_value_def signed_in) (simp_all add: cookie_defs)
  have "keep_cookies cleared signed_in accessTokenCookie = None" "goodbye = Logout_Url (oc_end_session c)"
    using logout by (auto simp: HandleLogout_def cookie_defs)
  then show ?thesis using fin user tokens(2)
    by (simp add: authenticate_def bearer_of_cookie isCrossSiteStateChange_def)
qed

definition sample_request :: "unit api_request" where
  "sample_request =
     \<lparr>ar_authorization = [], ar_cookie = None, ar_fetch_site = bytes ''same-origin'', ar_foreign_origin = None,
      ar_prefix = [], ar_delimiter = [], ar_page_token = [], ar_max_keys = [], ar_content_type = [],
      ar_content_length = None, ar_body = ()\<rparr>"

definition sample_verify :: "gostr \<Rightarrow> (gostr \<times> gostr list) option" where
  "sample_verify tok = (if tok = bytes ''T'' then Some (bytes ''u'', []) else None)"

theorem sign_in_completes_witness:
  "\<exists>q sent got. HandleLogin id (Some sample_oidc) (Some (bytes ''v'')) (Some (bytes ''a&b'')) =
      (Found (bytes ''https://k/realms/r/protocol/openid-connect/auth'' @ 63 # q), sent) \<and>
    HandleCallback sample_post sample_unmarshal (Some sample_oidc)
      [(bytes ''code'', bytes ''c''), (bytes ''state'', query_get (parse_query q) ''state'')] (keep_cookies sent Map.empty) =
      (Found (bytes ''/''), got) \<and>
    authenticate sample_verify GET
      (sample_request\<lparr>ar_cookie := keep_cookies got (keep_cookies sent Map.empty) accessTokenCookie\<rparr>) =
      Inr (bytes ''u'', [])"
proof -
  define q where "q = encode_values (login_values sample_oidc (bytes ''a&b'') (bytes ''v''))"
  define sent where "sent = [setTransientCookie pkceVerifierCookie (bytes ''v''), setTransientCookie oauthStateCookie (bytes ''a&b'')]"
  define ps where "ps = [(bytes ''code'', bytes ''c''), (bytes ''state'', query_get (parse_query q) ''state'')]"
  obtain reply got where call:
    "HandleCallback sample_post sample_unmarshal (Some sample_oidc) ps (keep_cookies sent Map.empty) = (reply, got)"
    by fastforce
  have login: "HandleLogin id (Some sample_oidc) (Some (bytes ''v'')) (Some (bytes ''a&b'')) =
      (Found (oc_auth_url sample_oidc @ 63 # q), sent)"
    by (simp add: HandleLogin_def q_def sent_def)
  have chal: "query_get (parse_query q) ''code_challenge'' = bytes ''v''"
    unfolding q_def query_get_encoded [OF login_keys] by (simp add: query_get_def login_values_def bytes_inject)
  have ps: "query_get ps ''code'' = bytes ''c''" "query_get ps ''error'' = []"
    "query_get ps ''state'' = query_get (parse_query q) ''state''"
    by (simp_all add: query_get_def ps_def bytes_inject)
  have ne: "bytes ''v'' \<noteq> []" "bytes ''a&b'' \<noteq> []" "query_get ps ''code'' \<noteq> []" "tr_access sample_tokens \<noteq> []"
    and ur: "sample_verify (tr_access sample_tokens) = Some (bytes ''u'', [])" "ar_authorization sample_request = []"
    and um: "sample_unmarshal (take maxTokenResponseBytes (bytes ''T'')) = Some sample_tokens"
    by (simp_all add: ps bytes_def sample_tokens_def sample_request_def sample_verify_def sample_unmarshal_def maxTokenResponseBytes_def)
  have out: "HandleLogout (Some sample_oidc) POST =
      (Logout_Url (oc_end_session sample_oidc), snd (HandleLogout (Some sample_oidc) POST))"
    by (simp add: HandleLogout_def)
  have "reply = Found (bytes ''/'') \<and>
    authenticate sample_verify GET
      (sample_request\<lparr>ar_cookie := keep_cookies got (keep_cookies sent Map.empty) accessTokenCookie\<rparr>) = Inr (bytes ''u'', []) \<and>
    Logout_Url (oc_end_session sample_oidc) = Logout_Url (oc_end_session sample_oidc) \<and>
    authenticate sample_verify GET
      (sample_request\<lparr>ar_cookie := keep_cookies (snd (HandleLogout (Some sample_oidc) POST))
         (keep_cookies got (keep_cookies sent Map.empty)) accessTokenCookie\<rparr>) =
      Inl (401, ''unauthorized'', ''missing authentication'')"
  proof (rule sign_in_completes [where hash = id and post = sample_post and Unmarshal = sample_unmarshal and
        body = "bytes ''T''" and ps = ps and q = q and c = sample_oidc and verify = sample_verify and
        rq = sample_request and jar = Map.empty, OF ne(1,2) login refl _ um ne(4,3) ps(2,3) call refl ur out])
    fix form
    assume "redeems_code id \<lparr>rg_client = oc_client_id sample_oidc, rg_secret = oc_client_secret sample_oidc,
        rg_redirect = oc_redirect_uri sample_oidc\<rparr> (parse_query q) (query_get ps ''code'') (parse_query form)"
    then show "sample_post (oc_token_url sample_oidc) form = Some (200, bytes ''T'')"
      by (simp add: redeems_code_def sample_post_def Let_def ps chal sample_secret)
  qed
  moreover have "oc_auth_url sample_oidc = bytes ''https://k/realms/r/protocol/openid-connect/auth''" by code_simp
  ultimately show ?thesis using login call unfolding ps_def by metis
qed

end
