(* ===== verification/Rate_Limit.thy ===== *)
theory Rate_Limit
  imports Js_Number Acl Content_Security "HOL-Library.Sublist"
begin

text \<open>
  The rate limiter of the sign-in endpoints, \<open>internal/webui/ratelimit.go\<close>: a token bucket per
  client address, with the eviction of idle buckets. Times are in nanoseconds; the counts are doubles.
\<close>

section \<open>Buckets\<close>

record token_bucket =
  tb_tokens :: rat
  tb_last :: int

record rate_limiter =
  rl_buckets :: "byte list \<rightharpoonup> token_bucket"
  rl_rate :: rat
  rl_burst :: rat
  rl_idle :: int
  rl_last_gc :: "int option"

text \<open>The zero time of \<open>lastGC\<close> lies before every idle span: none.\<close>

definition newRateLimiter :: "nat \<Rightarrow> nat \<Rightarrow> rate_limiter" where
  "newRateLimiter ratePerMinute burst =
     \<lparr>rl_buckets = Map.empty, rl_rate = to_double (of_nat ratePerMinute / 60), rl_burst = of_nat burst,
      rl_idle = 600 * 10 ^ 9, rl_last_gc = None\<rparr>"

text \<open>\<open>Duration.Seconds\<close>; the division of Go truncates, so it is odd.\<close>

definition span_seconds :: "int \<Rightarrow> rat" where
  "span_seconds d = to_double (to_double (of_int (d div 10 ^ 9)) + to_double (of_int (d mod 10 ^ 9) / 10 ^ 9))"

definition Seconds :: "int \<Rightarrow> rat" where
  "Seconds d = (if d < 0 then - span_seconds (- d) else span_seconds d)"

definition gcLocked :: "int \<Rightarrow> rate_limiter \<Rightarrow> rate_limiter" where
  "gcLocked now l =
     (if (case rl_last_gc l of Some t \<Rightarrow> now - t < rl_idle l | None \<Rightarrow> False) then l
      else l\<lparr>rl_last_gc := Some now,
             rl_buckets := (\<lambda>k. case rl_buckets l k of
                None \<Rightarrow> None | Some b \<Rightarrow> if now - tb_last b > rl_idle l then None else Some b)\<rparr>)"

definition refill :: "rat \<Rightarrow> rat \<Rightarrow> int \<Rightarrow> token_bucket \<Rightarrow> token_bucket" where
  "refill rate burst now b =
     (let elapsed = Seconds (now - tb_last b)
      in if elapsed > 0
         then \<lparr>tb_tokens = min burst (to_double (tb_tokens b + to_double (elapsed * rate))), tb_last = now\<rparr>
         else b)"

definition take_token :: "token_bucket \<Rightarrow> token_bucket \<times> bool" where
  "take_token b =
     (if tb_tokens b < 1 then (b, False) else (b\<lparr>tb_tokens := to_double (tb_tokens b - 1)\<rparr>, True))"

definition allow :: "byte list \<Rightarrow> int \<Rightarrow> rate_limiter \<Rightarrow> rate_limiter \<times> bool" where
  "allow key now l =
     (let l1 = gcLocked now l;
          b = (case rl_buckets l1 key of Some b \<Rightarrow> b | None \<Rightarrow> \<lparr>tb_tokens = rl_burst l1, tb_last = now\<rparr>);
          (b', ok) = take_token (refill (rl_rate l1) (rl_burst l1) now b)
      in (l1\<lparr>rl_buckets := (rl_buckets l1)(key \<mapsto> b')\<rparr>, ok))"

section \<open>The key of a client\<close>

text \<open>\<open>net.SplitHostPort\<close>, its host if the address has the form of one.\<close>

definition split_host :: "byte list \<Rightarrow> byte list option" where
  "split_host addr =
     (case cut_last 58 addr of
        None \<Rightarrow> None
      | Some (host, port) \<Rightarrow>
          if 91 \<in> set port \<or> 93 \<in> set port then None
          else if take 1 host = [91]
          then (if last host = 93 \<and> 91 \<notin> set (tl host) \<and> 93 \<notin> set (butlast host) then Some (butlast (tl host)) else None)
          else if 58 \<in> set host \<or> 91 \<in> set host \<or> 93 \<in> set host then None
          else Some host)"

definition clientIP :: "byte list \<Rightarrow> byte list \<Rightarrow> byte list" where
  "clientIP forwarded_for remote_addr =
     (if forwarded_for \<noteq> [] then
        (case cut_last 44 forwarded_for of
           Some (_, r) \<Rightarrow> TrimSpace r
         | None \<Rightarrow> TrimSpace forwarded_for)
      else (case split_host remote_addr of None \<Rightarrow> remote_addr | Some host \<Rightarrow> host))"

section \<open>The middleware\<close>

datatype 'r limited = Rate_Limited nat string string string | Passed 'r

definition rateLimitMiddleware ::
  "byte list \<Rightarrow> byte list \<Rightarrow> int \<Rightarrow> 'r \<Rightarrow> rate_limiter \<Rightarrow> rate_limiter \<times> 'r limited" where
  "rateLimitMiddleware forwarded_for remote_addr now reply l =
     (let (l', ok) = allow (clientIP forwarded_for remote_addr) now l
      in (l', if ok then Passed reply else Rate_Limited 429 ''60'' ''rate_limited'' ''too many requests''))"

section \<open>Runs\<close>

fun allow_all :: "(byte list \<times> int) list \<Rightarrow> rate_limiter \<Rightarrow> bool list" where
  "allow_all [] l = []"
| "allow_all ((k, now) # rs) l = (let (l', ok) = allow k now l in ok # allow_all rs l')"

text \<open>Which of a run of requests (header, peer, time) the middleware lets through.\<close>

fun serve_all :: "(byte list \<times> byte list \<times> int) list \<Rightarrow> rate_limiter \<Rightarrow> bool list" where
  "serve_all [] l = []"
| "serve_all ((xff, remote, now) # rs) l =
     (let (l', a) = rateLimitMiddleware xff remote now () l in (a = Passed ()) # serve_all rs l')"

text \<open>The same limiter without eviction.\<close>

definition allow_kept :: "byte list \<Rightarrow> int \<Rightarrow> rate_limiter \<Rightarrow> rate_limiter \<times> bool" where
  "allow_kept key now l =
     (let b = (case rl_buckets l key of Some b \<Rightarrow> b | None \<Rightarrow> \<lparr>tb_tokens = rl_burst l, tb_last = now\<rparr>);
          (b', ok) = take_token (refill (rl_rate l) (rl_burst l) now b)
      in (l\<lparr>rl_buckets := (rl_buckets l)(key \<mapsto> b')\<rparr>, ok))"

fun allow_all_kept :: "(byte list \<times> int) list \<Rightarrow> rate_limiter \<Rightarrow> bool list" where
  "allow_all_kept [] l = []"
| "allow_all_kept ((k, now) # rs) l = (let (l', ok) = allow_kept k now l in ok # allow_all_kept rs l')"

section \<open>Lemmas\<close>

lemma to_double_pos: "0 < x \<Longrightarrow> 0 < to_double x"
  using round_mag_bounds(1) [of x] pow2_pos [of "exponent2 x"] by (simp add: to_double_def del: pow2_pos)

lemma to_double_numeral: "numeral k < (2::nat) ^ 53 \<Longrightarrow> to_double (numeral k) = numeral k"
  using to_double_nat [of "numeral k"] by simp

lemma to_double_zero [simp]: "to_double 0 = 0"
  by (simp add: to_double_def)

lemma span_seconds_pos: "0 < d \<Longrightarrow> 0 < span_seconds d"
proof -
  assume d: "0 < d"
  have nn: "0 \<le> (of_int (d div 10 ^ 9) :: rat)" "0 \<le> (of_int (d mod 10 ^ 9) / 10 ^ 9 :: rat)"
    using d by (simp_all add: pos_imp_zdiv_nonneg_iff)
  have "0 < to_double (of_int (d div 10 ^ 9)) + to_double (of_int (d mod 10 ^ 9) / 10 ^ 9)"
  proof (cases "0 < d div 10 ^ 9")
    case True
    then show ?thesis using nn by (intro add_pos_nonneg to_double_pos to_double_nonneg) simp_all
  next
    case False
    then have "d div 10 ^ 9 = 0" using d by (simp add: pos_imp_zdiv_nonneg_iff order_antisym)
    then have "0 < d mod 10 ^ 9" using d div_mult_mod_eq [of d "10 ^ 9"] by simp
    then show ?thesis using nn by (intro add_nonneg_pos to_double_pos to_double_nonneg) simp_all
  qed
  then show ?thesis by (simp add: span_seconds_def to_double_pos)
qed

lemma Seconds_pos_iff: "0 < Seconds d \<longleftrightarrow> 0 < d"
  using span_seconds_pos [of d] span_seconds_pos [of "- d"]
  by (cases "d = 0") (auto simp: Seconds_def span_seconds_def)

text \<open>Ten minutes refill any bucket of the sign-in endpoints.\<close>

lemma Seconds_idle: "600 * 10 ^ 9 < d \<Longrightarrow> 600 \<le> Seconds d"
proof -
  assume d: "600 * 10 ^ 9 < d"
  then have "600 \<le> d div 10 ^ 9" by (simp add: zdiv_mono1 [of "600 * 10 ^ 9" d "10 ^ 9", simplified])
  then have "(600 :: rat) \<le> of_int (d div 10 ^ 9)" by (metis of_int_le_iff of_int_numeral)
  then have "to_double 600 \<le> to_double (of_int (d div 10 ^ 9))" by (intro to_double_mono) simp_all
  moreover have "0 \<le> to_double (of_int (d mod 10 ^ 9) / 10 ^ 9)" by (intro to_double_nonneg) simp
  ultimately have "600 \<le> to_double (of_int (d div 10 ^ 9)) + to_double (of_int (d mod 10 ^ 9) / 10 ^ 9)"
    by (simp add: to_double_numeral)
  then have "to_double 600 \<le> span_seconds d" unfolding span_seconds_def by (intro to_double_mono) simp_all
  then show ?thesis using d by (simp add: Seconds_def to_double_numeral)
qed

definition sign_in_rate :: rat where
  "sign_in_rate = to_double (of_nat 20 / 60)"

lemma sign_in_rate_bound: "1 / 4 \<le> sign_in_rate"
proof -
  have "to_double (1 / 4) \<le> to_double (of_nat 20 / 60)" by (intro to_double_mono) simp_all
  moreover have "to_double (1 / 4) = 1 / 4" by code_simp
  ultimately show ?thesis by (simp add: sign_in_rate_def)
qed

lemma refill_idle:
  assumes "0 \<le> tb_tokens b" and "600 * 10 ^ 9 < now - tb_last b"
  shows "refill sign_in_rate 10 now b = \<lparr>tb_tokens = 10, tb_last = now\<rparr>"
proof -
  let ?r = "sign_in_rate" and ?e = "Seconds (now - tb_last b)"
  have e: "600 \<le> ?e" using assms(2) by (rule Seconds_idle)
  then have "600 * (1 / 4) \<le> ?e * ?r" using sign_in_rate_bound by (intro mult_mono) simp_all
  then have "to_double 150 \<le> to_double (?e * ?r)" by (intro to_double_mono) simp_all
  then have "150 \<le> tb_tokens b + to_double (?e * ?r)" using assms(1) by (simp add: to_double_numeral)
  then have "to_double 150 \<le> to_double (tb_tokens b + to_double (?e * ?r))" by (intro to_double_mono) simp_all
  then show ?thesis using e by (simp add: refill_def Let_def to_double_numeral min_def)
qed

lemma refill_now: "\<not> tb_last b < now \<Longrightarrow> refill r burst now b = b"
  by (simp add: refill_def Seconds_pos_iff)

lemma refill_nonneg: "0 \<le> tb_tokens b \<Longrightarrow> 0 \<le> r \<Longrightarrow> 0 \<le> burst \<Longrightarrow> 0 \<le> tb_tokens (refill r burst now b)"
  unfolding refill_def Let_def by (auto intro!: to_double_nonneg add_nonneg_nonneg mult_nonneg_nonneg)

lemma take_token_nonneg: "0 \<le> tb_tokens b \<Longrightarrow> 0 \<le> tb_tokens (fst (take_token b))"
  by (simp add: take_token_def to_double_nonneg)

definition request_key :: "byte list \<times> byte list \<times> int \<Rightarrow> byte list \<times> int" where
  "request_key r = (case r of (xff, remote, now) \<Rightarrow> (clientIP xff remote, now))"

lemma serve_all_allow: "serve_all rs l = allow_all (map request_key rs) l"
  by (induction rs l rule: serve_all.induct)
     (simp_all add: request_key_def rateLimitMiddleware_def Let_def case_prod_beta)

section \<open>Eviction\<close>

text \<open>
  The limiter and the one that keeps its buckets agree on a bucket, or the first has dropped it and the
  second has left it idle for more than the span.
\<close>

definition same_limits :: "int \<Rightarrow> rate_limiter \<Rightarrow> rate_limiter \<Rightarrow> bool" where
  "same_limits t l m \<longleftrightarrow>
     rl_rate l = sign_in_rate \<and> rl_rate m = rl_rate l \<and> rl_burst l = 10 \<and> rl_burst m = 10 \<and>
     rl_idle l = 600 * 10 ^ 9 \<and>
     (\<forall>k b. rl_buckets m k = Some b \<longrightarrow> 0 \<le> tb_tokens b) \<and>
     (\<forall>k. rl_buckets l k = rl_buckets m k \<or>
        rl_buckets l k = None \<and> (\<exists>b. rl_buckets m k = Some b \<and> 600 * 10 ^ 9 < t - tb_last b))"

lemma same_limits_gc:
  assumes "same_limits t l m" and "t \<le> now"
  shows "same_limits now (gcLocked now l) m"
  unfolding same_limits_def
proof (intro conjI allI)
  fix k
  have "rl_buckets l k = rl_buckets m k \<or>
      rl_buckets l k = None \<and> (\<exists>b. rl_buckets m k = Some b \<and> 600 * 10 ^ 9 < t - tb_last b)"
    using assms(1) by (simp add: same_limits_def)
  moreover have "rl_idle l = 600 * 10 ^ 9" using assms(1) by (simp add: same_limits_def)
  ultimately show "rl_buckets (gcLocked now l) k = rl_buckets m k \<or>
      rl_buckets (gcLocked now l) k = None \<and> (\<exists>b. rl_buckets m k = Some b \<and> 600 * 10 ^ 9 < now - tb_last b)"
    using assms(2) by (auto simp: gcLocked_def split: option.split)
qed (use assms in \<open>auto simp: same_limits_def gcLocked_def\<close>)

lemma same_limits_allow:
  assumes "same_limits t l m" and "t \<le> now"
  shows "snd (allow k now l) = snd (allow_kept k now m)"
    and "same_limits now (fst (allow k now l)) (fst (allow_kept k now m))"
proof -
  let ?l = "gcLocked now l"
  have sim: "same_limits now ?l m" using assms by (rule same_limits_gc)
  let ?r = "sign_in_rate"
  let ?fresh = "\<lparr>tb_tokens = 10, tb_last = now\<rparr>"
  let ?b = "refill ?r 10 now (case rl_buckets ?l k of Some b \<Rightarrow> b | None \<Rightarrow> ?fresh)"
  let ?c = "refill ?r 10 now (case rl_buckets m k of Some b \<Rightarrow> b | None \<Rightarrow> ?fresh)"
  have par: "rl_rate ?l = ?r" "rl_rate m = ?r" "rl_burst ?l = 10" "rl_burst m = 10"
    and nn: "\<And>k b. rl_buckets m k = Some b \<Longrightarrow> 0 \<le> tb_tokens b"
    using sim by (auto simp: same_limits_def)
  have same: "?b = ?c"
  proof (cases "rl_buckets ?l k = rl_buckets m k")
    case False
    then obtain b where b: "rl_buckets ?l k = None" "rl_buckets m k = Some b" "600 * 10 ^ 9 < now - tb_last b"
      using sim unfolding same_limits_def by blast
    have "refill ?r 10 now b = ?fresh" using nn [OF b(2)] b(3) by (rule refill_idle)
    then show ?thesis using b refill_now [of ?fresh now ?r 10] by simp
  qed simp
  have nnc: "0 \<le> tb_tokens (fst (take_token ?c))"
    using sign_in_rate_bound nn by (intro take_token_nonneg refill_nonneg) (auto split: option.split)
  have l: "allow k now l = (?l\<lparr>rl_buckets := (rl_buckets ?l)(k \<mapsto> fst (take_token ?b))\<rparr>, snd (take_token ?b))"
    and m: "allow_kept k now m = (m\<lparr>rl_buckets := (rl_buckets m)(k \<mapsto> fst (take_token ?c))\<rparr>, snd (take_token ?c))"
    by (simp_all add: allow_def allow_kept_def Let_def case_prod_beta par cong: option.case_cong)
  show "snd (allow k now l) = snd (allow_kept k now m)" unfolding l m same by simp
  show "same_limits now (fst (allow k now l)) (fst (allow_kept k now m))"
    unfolding l m same using sim nnc by (auto simp: same_limits_def)
qed

lemma same_limits_runs:
  "same_limits t l m \<Longrightarrow> sorted (t # map snd rs) \<Longrightarrow> allow_all rs l = allow_all_kept rs m"
proof (induction rs arbitrary: t l m)
  case (Cons r rs)
  obtain k now where r: "r = (k, now)" by fastforce
  have "t \<le> now" and srt: "sorted (now # map snd rs)" using Cons.prems(2) by (auto simp: r)
  note step = same_limits_allow [OF Cons.prems(1) \<open>t \<le> now\<close>, of k]
  show ?case using step(1) Cons.IH [OF step(2) srt] by (simp add: r Let_def case_prod_beta)
qed simp

lemma same_limits_new: "same_limits t (newRateLimiter 20 10) (newRateLimiter 20 10)"
  by (simp add: same_limits_def newRateLimiter_def sign_in_rate_def)

lemma allow_all_new:
  assumes "sorted (map snd rs)"
  shows "allow_all rs (newRateLimiter 20 10) = allow_all_kept rs (newRateLimiter 20 10)"
proof (cases rs)
  case (Cons r rest)
  then have "sorted (snd r # map snd rs)" using assms by simp
  then show ?thesis by (rule same_limits_runs [OF same_limits_new])
qed simp

section \<open>One client\<close>

text \<open>Without eviction the answers to a client depend on its own bucket only.\<close>

definition answers_to :: "byte list \<Rightarrow> (byte list \<times> int) list \<Rightarrow> bool list \<Rightarrow> bool list" where
  "answers_to k rs oks = map snd (filter (\<lambda>(r, ok). fst r = k) (zip rs oks))"

lemma allow_kept_local:
  assumes "rl_buckets l k = rl_buckets m k" "rl_rate l = rl_rate m" "rl_burst l = rl_burst m"
  shows "snd (allow_kept k now l) = snd (allow_kept k now m)"
    and "rl_buckets (fst (allow_kept k now l)) k = rl_buckets (fst (allow_kept k now m)) k"
  using assms by (simp_all add: allow_kept_def Let_def case_prod_beta cong: option.case_cong)

lemma allow_kept_other:
  "k' \<noteq> k \<Longrightarrow> rl_buckets (fst (allow_kept k' now l)) k = rl_buckets l k"
  "rl_rate (fst (allow_kept k' now l)) = rl_rate l"
  "rl_burst (fst (allow_kept k' now l)) = rl_burst l"
  by (simp_all add: allow_kept_def Let_def case_prod_beta)

lemma kept_apart:
  "rl_buckets l k = rl_buckets m k \<Longrightarrow> rl_rate l = rl_rate m \<Longrightarrow> rl_burst l = rl_burst m \<Longrightarrow>
     answers_to k rs (allow_all_kept rs l) = allow_all_kept (filter (\<lambda>r. fst r = k) rs) m"
proof (induction rs arbitrary: l m)
  case (Cons r rs)
  obtain k' now where r: "r = (k', now)" by fastforce
  show ?case
  proof (cases "k' = k")
    case True
    note loc = allow_kept_local [OF Cons.prems, of now]
    have "answers_to k rs (allow_all_kept rs (fst (allow_kept k now l))) =
        allow_all_kept (filter (\<lambda>r. fst r = k) rs) (fst (allow_kept k now m))"
      by (rule Cons.IH) (simp_all add: loc allow_kept_other Cons.prems)
    then show ?thesis using True loc by (simp add: r answers_to_def Let_def case_prod_beta)
  next
    case False
    then have "answers_to k rs (allow_all_kept rs (fst (allow_kept k' now l))) =
        allow_all_kept (filter (\<lambda>r. fst r = k) rs) m"
      by (intro Cons.IH) (simp_all add: allow_kept_other Cons.prems)
    then show ?thesis using False by (simp add: r answers_to_def Let_def case_prod_beta)
  qed
qed (simp add: answers_to_def)

text \<open>At one instant a bucket of at most \<open>n\<close> tokens lets at most \<open>n\<close> requests pass.\<close>

definition available :: "byte list \<Rightarrow> int \<Rightarrow> rate_limiter \<Rightarrow> rat" where
  "available k now l =
     (case rl_buckets l k of Some b \<Rightarrow> tb_tokens (refill (rl_rate l) (rl_burst l) now b) | None \<Rightarrow> rl_burst l)"

lemma refill_twice: "\<not> tb_last (refill r burst now b) < now"
  by (simp add: refill_def Let_def Seconds_pos_iff)

lemma to_double_le_nat: "x \<le> of_nat n \<Longrightarrow> n < 2 ^ 53 \<Longrightarrow> 0 \<le> x \<Longrightarrow> to_double x \<le> of_nat n"
  using to_double_mono [of x "of_nat n"] to_double_nat [of n] by simp

lemma available_step:
  "snd (allow_kept k now l) \<longleftrightarrow> 1 \<le> available k now l"
  "available k now (fst (allow_kept k now l)) =
     (if 1 \<le> available k now l then to_double (available k now l - 1) else available k now l)"
proof -
  let ?b = "case rl_buckets l k of Some b \<Rightarrow> b | None \<Rightarrow> \<lparr>tb_tokens = rl_burst l, tb_last = now\<rparr>"
  let ?c = "refill (rl_rate l) (rl_burst l) now ?b"
  have av: "available k now l = tb_tokens ?c"
    by (simp add: available_def refill_now split: option.split)
  have st: "allow_kept k now l =
      (l\<lparr>rl_buckets := (rl_buckets l)(k \<mapsto> fst (take_token ?c))\<rparr>, snd (take_token ?c))"
    by (simp add: allow_kept_def Let_def case_prod_beta)
  have "tb_last (fst (take_token ?c)) = tb_last ?c" by (simp add: take_token_def)
  then have again: "refill r x now (fst (take_token ?c)) = fst (take_token ?c)" for r x
    using refill_twice by (simp add: refill_now)
  show "snd (allow_kept k now l) \<longleftrightarrow> 1 \<le> available k now l"
    unfolding st av by (auto simp: take_token_def)
  show "available k now (fst (allow_kept k now l)) =
      (if 1 \<le> available k now l then to_double (available k now l - 1) else available k now l)"
    unfolding st av by (simp add: available_def again) (simp add: take_token_def)
qed

lemma instant_bound:
  "available k now l \<le> of_nat n \<Longrightarrow> n < 2 ^ 53 \<Longrightarrow>
     length (filter (\<lambda>ok. ok) (allow_all_kept (replicate i (k, now)) l)) \<le> n"
proof (induction i arbitrary: l n)
  case (Suc i)
  let ?l = "fst (allow_kept k now l)"
  show ?case
  proof (cases "1 \<le> available k now l")
    case True
    then have n: "0 < n" using Suc.prems(1) by (cases n) simp_all
    then have "to_double (available k now l - 1) \<le> of_nat (n - 1)"
      using True Suc.prems by (intro to_double_le_nat) (simp_all add: of_nat_diff)
    then have "length (filter (\<lambda>ok. ok) (allow_all_kept (replicate i (k, now)) ?l)) \<le> n - 1"
      using Suc.prems(2) True by (intro Suc.IH) (simp_all add: available_step)
    then show ?thesis using n True by (simp add: Let_def case_prod_beta available_step)
  next
    case False
    then have "length (filter (\<lambda>ok. ok) (allow_all_kept (replicate i (k, now)) ?l)) \<le> n"
      using Suc.prems by (intro Suc.IH) (simp_all add: available_step)
    then show ?thesis using False by (simp add: Let_def case_prod_beta available_step)
  qed
qed simp

text \<open>No bucket ever holds more than the burst.\<close>

definition capped :: "rate_limiter \<Rightarrow> bool" where
  "capped l \<longleftrightarrow> 0 \<le> rl_rate l \<and> rl_burst l = 10 \<and> (\<forall>k b. rl_buckets l k = Some b \<longrightarrow> 0 \<le> tb_tokens b \<and> tb_tokens b \<le> 10)"

lemma refill_capped: "tb_tokens b \<le> burst \<Longrightarrow> tb_tokens (refill r burst now b) \<le> burst"
  by (simp add: refill_def Let_def)

lemma take_token_capped: "0 \<le> tb_tokens b \<Longrightarrow> tb_tokens b \<le> 10 \<Longrightarrow> tb_tokens (fst (take_token b)) \<le> 10"
  using to_double_le_nat [of "tb_tokens b - 1" 10] by (simp add: take_token_def)

lemma capped_step: "capped l \<Longrightarrow> capped (fst (allow_kept k now l))"
  unfolding capped_def allow_kept_def
  by (auto simp: Let_def case_prod_beta intro!: take_token_nonneg take_token_capped refill_nonneg refill_capped
      split: option.splits if_splits)

lemma capped_available: "capped l \<Longrightarrow> available k now l \<le> of_nat 10"
  by (auto simp: capped_def available_def refill_capped split: option.split)

lemma capped_new: "capped (newRateLimiter 20 10)"
  by (simp add: capped_def newRateLimiter_def to_double_nonneg)

fun state_after :: "(byte list \<times> int) list \<Rightarrow> rate_limiter \<Rightarrow> rate_limiter" where
  "state_after [] l = l"
| "state_after ((k, now) # rs) l = state_after rs (fst (allow_kept k now l))"

lemma kept_append: "allow_all_kept (rs @ qs) l = allow_all_kept rs l @ allow_all_kept qs (state_after rs l)"
  by (induction rs l rule: state_after.induct) (simp_all add: Let_def case_prod_beta)

lemma kept_length: "length (allow_all_kept rs l) = length rs"
  by (induction rs l rule: state_after.induct) (simp_all add: Let_def case_prod_beta)

lemma state_after_capped: "capped l \<Longrightarrow> capped (state_after rs l)"
  by (induction rs l rule: state_after.induct) (simp_all add: capped_step)

section \<open>Properties\<close>

text \<open>
  C26. Clients are limited apart, and dropping idle buckets is invisible: over any run of requests in the
  order of time, the answers to a client are those a limiter gives that sees this client alone, and
  they are those of a limiter that never drops a bucket.
\<close>

theorem clients_limited_apart:
  assumes "sorted (map snd rs)"
  shows "answers_to k rs (allow_all rs (newRateLimiter 20 10)) =
      allow_all (filter (\<lambda>r. fst r = k) rs) (newRateLimiter 20 10) \<and>
    allow_all rs (newRateLimiter 20 10) = allow_all_kept rs (newRateLimiter 20 10)"
proof -
  have "sorted (map snd (filter (\<lambda>r. fst r = k) rs))" using assms by (induction rs) auto
  then have "allow_all (filter (\<lambda>r. fst r = k) rs) (newRateLimiter 20 10) =
      allow_all_kept (filter (\<lambda>r. fst r = k) rs) (newRateLimiter 20 10)"
    by (rule allow_all_new)
  then show ?thesis using kept_apart [of "newRateLimiter 20 10" k "newRateLimiter 20 10" rs]
    by (simp add: allow_all_new [OF assms])
qed

lemma clients_limited_apart_witness:
  "answers_to [1] [([1], 0), ([2], 0), ([1], 700 * 10 ^ 9)] (allow_all [([1], 0), ([2], 0), ([1], 700 * 10 ^ 9)] (newRateLimiter 20 10)) =
   allow_all (filter (\<lambda>r. fst r = [1]) [([1], 0), ([2], 0), ([1], 700 * 10 ^ 9)]) (newRateLimiter 20 10)"
  by (rule conjunct1 [OF clients_limited_apart [of "[([1], 0), ([2], 0), ([1], 700 * 10 ^ 9)]" "[1]"]]) simp

text \<open>
  The requests a client sent through the ingress, which writes its address as the last entry of the
  header: alone, or after a comma and any number of spaces.
\<close>

definition sent_by :: "byte list \<Rightarrow> byte list \<times> byte list \<Rightarrow> bool" where
  "sent_by ip h \<longleftrightarrow>
     suffix ip (fst h) \<and>
     (let before = dropWhile (\<lambda>x. x = 32) (rev (take (length (fst h) - length ip) (fst h)))
      in before = [] \<or> hd before = 44)"

lemma sent_by_split:
  assumes "sent_by ip h"
  obtains f sp where "fst h = f @ sp @ ip" "\<forall>x\<in>set sp. x = 32" "f = [] \<or> last f = 44"
proof -
  obtain p where p: "fst h = p @ ip" using assms by (auto simp: sent_by_def suffix_def)
  define f where "f = rev (dropWhile (\<lambda>x. x = 32) (rev p))"
  obtain sp where sp: "\<forall>x\<in>set sp. x = 32" "p = f @ sp"
    using takeWhile_rev_split [where P = "\<lambda>x. x = 32" and s = p] unfolding f_def by blast
  have "f = [] \<or> last f = 44" using assms by (simp add: sent_by_def p f_def Let_def last_rev)
  then show ?thesis using that [of f sp] p sp by simp
qed

lemma sent_by_key:
  assumes "visible ip" "ip \<noteq> []" "44 \<notin> set ip" "sent_by ip h"
  shows "clientIP (fst h) remote = ip"
proof -
  obtain f sp where h: "fst h = f @ sp @ ip" "\<forall>x\<in>set sp. x = 32" "f = [] \<or> last f = 44"
    using sent_by_split [OF assms(4)] .
  have blanks: "\<forall>x\<in>set sp. blank x" using h(2) by (auto simp: blank_def)
  have "\<forall>x\<in>set ip. 32 < x \<and> x < 128" using assms(1) by (simp add: visible_def list_all_iff)
  then have trim: "TrimSpace (sp @ ip) = ip" using TrimSpace_around [OF blanks, of "[]" ip] by simp
  have no_comma: "44 \<notin> set (sp @ ip)" using h(2) assms(3) by auto
  show ?thesis
  proof (cases "f = []")
    case True
    then show ?thesis using h(1) assms(2) no_comma trim by (simp add: clientIP_def cut_last_def)
  next
    case False
    then obtain g where "f = g @ [44]" using h(3) by (metis append_butlast_last_id)
    then have "fst h = g @ 44 # (sp @ ip)" using h(1) by simp
    then show ?thesis using no_comma trim by (simp add: clientIP_def cut_last_snoc)
  qed
qed

lemma sent_by_answers:
  assumes "visible ip" "ip \<noteq> []" "44 \<notin> set ip"
  shows "length (filter (\<lambda>(h, ok). sent_by ip h \<and> ok) (zip hs oks)) \<le>
    length (filter (\<lambda>ok. ok) (answers_to ip (map (\<lambda>h. (clientIP (fst h) (snd h), now)) hs) oks))"
proof (induction hs arbitrary: oks)
  case (Cons h hs)
  have "sent_by ip h \<Longrightarrow> clientIP (fst h) (snd h) = ip" using assms by (rule sent_by_key)
  then show ?case
    using Cons.IH [of "tl oks"] by (cases oks) (auto simp: answers_to_def intro: le_SucI)
qed (simp add: answers_to_def)

text \<open>
  C25. Forging the forwarding header does not help against the limit: after any history, of the requests that
  arrive at one instant and whose \<open>X-Forwarded-For\<close> the ingress ended with the address
  of one client, at most ten pass, whatever the client wrote before it, and however the ingress
  sets its address off, by a comma with or without spaces.
\<close>

theorem forged_address_is_limited:
  assumes ip: "visible ip" "ip \<noteq> []" "44 \<notin> set ip"
    and order: "sorted (map (\<lambda>r. snd (snd r)) rs)" "\<forall>r\<in>set rs. snd (snd r) \<le> now"
  shows "length (filter (\<lambda>(h, ok). sent_by ip h \<and> ok)
      (zip hs (drop (length rs) (serve_all (rs @ map (\<lambda>h. (fst h, snd h, now)) hs) (newRateLimiter 20 10))))) \<le> 10"
proof -
  let ?k = ip and ?q = "map (\<lambda>h. (clientIP (fst h) (snd h), now)) hs"
  let ?rs = "map request_key rs"
  let ?l = "state_after ?rs (newRateLimiter 20 10)"
  let ?mine = "filter (\<lambda>r. fst r = ?k) ?q"
  have "snd (request_key r) = snd (snd r)" for r by (cases r) (simp add: request_key_def)
  then have "sorted (map snd (?rs @ ?q))" using order by (auto simp: sorted_append comp_def sorted_map)
  then have run: "drop (length rs) (serve_all (rs @ map (\<lambda>h. (fst h, snd h, now)) hs) (newRateLimiter 20 10)) =
      allow_all_kept ?q ?l"
    by (simp add: serve_all_allow comp_def request_key_def allow_all_new kept_append kept_length)
  have "?mine = replicate (length ?mine) (?k, now)" by (induction hs) auto
  then have "allow_all_kept ?mine ?l = allow_all_kept (replicate (length ?mine) (?k, now)) ?l" by simp
  then have "length (filter (\<lambda>ok. ok) (answers_to ?k ?q (allow_all_kept ?q ?l))) \<le> 10"
    using instant_bound [of ?k now ?l 10 "length ?mine"]
      capped_available [OF state_after_capped [OF capped_new], of ?k now ?rs]
    by (simp add: kept_apart [of ?l ?k ?l])
  then show ?thesis using run sent_by_answers [OF ip, of hs "allow_all_kept ?q ?l" now] by simp
qed

lemma forged_address_is_limited_witness:
  "list_all (sent_by (bytes ''9'')) [(bytes ''1,9'', []), (bytes ''2, 9'', []), (bytes '' 9'', [])] \<and>
   length (filter (\<lambda>(h, ok). sent_by (bytes ''9'') h \<and> ok)
      (zip [(bytes ''1,9'', [] :: byte list), (bytes ''2, 9'', []), (bytes '' 9'', [])]
        (drop (length [(bytes ''9'', [] :: byte list, 0 :: int)])
          (serve_all ([(bytes ''9'', [], 0)] @
             map (\<lambda>h. (fst h, snd h, 5)) [(bytes ''1,9'', []), (bytes ''2, 9'', []), (bytes '' 9'', [])])
             (newRateLimiter 20 10))))) \<le> 10"
proof
  show "list_all (sent_by (bytes ''9'')) [(bytes ''1,9'', []), (bytes ''2, 9'', []), (bytes '' 9'', [])]"
    by code_simp
qed (rule forged_address_is_limited, simp_all add: bytes_def visible_def)

end
