(* ===== verification/Identity.thy ===== *)
theory Identity
  imports S3_Proxy Sign_In
begin

text \<open>
  Whom the gateway trusts: the settings of the provider (\<open>internal/config/config.go\<close>), with what a
  start of the server makes of them (\<open>cmd/server/main.go\<close>), and the user and groups in the claims of a
  verified token (\<open>internal/auth/claims.go\<close>). The document of a discovery URL and the scheme
  \<open>net/url\<close> reads of a URL are parameters; claims are JSON values as Go decodes them.
\<close>

section \<open>Claims\<close>

datatype claim =
  Claim_String gostr
| Claim_Array "claim list"
| Claim_Object "(gostr \<times> claim) list"
| Claim_Other

type_synonym claims = "(gostr \<times> claim) list"

definition claim_string :: "claim option \<Rightarrow> gostr option" where
  "claim_string c = (case c of Some (Claim_String s) \<Rightarrow> Some s | _ \<Rightarrow> None)"

definition stripLeadingSlash :: "gostr \<Rightarrow> gostr" where
  "stripLeadingSlash s = (case s of c # rest \<Rightarrow> if c = 47 then rest else s | [] \<Rightarrow> s)"

text \<open>The strings of an array of any values, and none of anything else.\<close>

definition array_strings :: "claim option \<Rightarrow> gostr list" where
  "array_strings c = (case c of Some (Claim_Array vs) \<Rightarrow> List.map_filter (\<lambda>v. claim_string (Some v)) vs | _ \<Rightarrow> [])"

definition ExtractUser :: "claims \<Rightarrow> gostr" where
  "ExtractUser cs =
     (case claim_string (map_of cs (bytes ''preferred_username'')) of
        Some u \<Rightarrow> if u \<noteq> [] then u else deref (claim_string (map_of cs (bytes ''sub'')))
      | None \<Rightarrow> deref (claim_string (map_of cs (bytes ''sub''))))"

definition ExtractGroups :: "claims \<Rightarrow> gostr list" where
  "ExtractGroups cs =
     map stripLeadingSlash (array_strings (map_of cs (bytes ''groups''))) @
     (case map_of cs (bytes ''realm_access'') of
        Some (Claim_Object ra) \<Rightarrow> map stripLeadingSlash (array_strings (map_of ra (bytes ''roles'')))
      | _ \<Rightarrow> [])"

fun lookup_parts :: "claim \<Rightarrow> gostr list \<Rightarrow> claim option" where
  "lookup_parts cur [] = Some cur"
| "lookup_parts cur (part # parts) =
     (case cur of
        Claim_Object m \<Rightarrow> (case map_of m part of None \<Rightarrow> None | Some v \<Rightarrow> lookup_parts v parts)
      | _ \<Rightarrow> None)"

definition lookupClaim :: "claims \<Rightarrow> gostr \<Rightarrow> claim option" where
  "lookupClaim cs path = lookup_parts (Claim_Object cs) (split_bytes 46 path)"

definition toGroupStrings :: "claim \<Rightarrow> gostr list" where
  "toGroupStrings v =
     (case v of
        Claim_Array vs \<Rightarrow> map stripLeadingSlash (array_strings (Some v))
      | Claim_Object m \<Rightarrow> sort (map (\<lambda>(k, _). stripLeadingSlash k) m)
      | Claim_String s \<Rightarrow> if s \<noteq> [] then [stripLeadingSlash s] else []
      | Claim_Other \<Rightarrow> [])"

record claim_mapper =
  UsernameClaim :: gostr
  GroupsClaim :: gostr

definition User :: "claim_mapper \<Rightarrow> claims \<Rightarrow> gostr" where
  "User m cs =
     (if UsernameClaim m = [] then ExtractUser cs
      else case claim_string (lookupClaim cs (UsernameClaim m)) of
             Some s \<Rightarrow> if s \<noteq> [] then s else deref (claim_string (map_of cs (bytes ''sub'')))
           | None \<Rightarrow> deref (claim_string (map_of cs (bytes ''sub''))))"

definition Groups :: "claim_mapper \<Rightarrow> claims \<Rightarrow> gostr list" where
  "Groups m cs =
     (if GroupsClaim m = [] then ExtractGroups cs
      else case lookupClaim cs (GroupsClaim m) of None \<Rightarrow> [] | Some v \<Rightarrow> toGroupStrings v)"

text \<open>What both sides of the gateway make of a token.\<close>

definition identify :: "claim_mapper \<Rightarrow> (gostr \<Rightarrow> claims option) \<Rightarrow> gostr \<Rightarrow> (gostr \<times> gostr list) option" where
  "identify m VerifyToken token = map_option (\<lambda>cs. (User m cs, Groups m cs)) (VerifyToken token)"

section \<open>Settings\<close>

record config =
  cf_s3_access_key :: gostr
  cf_s3_secret_key :: gostr
  cf_keycloak_url :: gostr
  cf_keycloak_realm :: gostr
  cf_keycloak_client_id :: gostr
  cf_keycloak_jwks_url :: gostr
  cf_oidc_issuer :: gostr
  cf_oidc_jwks_url :: gostr
  cf_oidc_audience :: gostr
  cf_oidc_client_id :: gostr
  cf_username_claim :: gostr
  cf_groups_claim :: gostr
  cf_discovery_url :: gostr
  cf_allow_insecure :: bool

record resolved_oidc =
  os_issuer :: gostr
  os_jwks_url :: gostr
  os_audience :: gostr
  os_client_id :: gostr
  os_username_claim :: gostr
  os_groups_claim :: gostr

datatype config_error =
  Missing_Variables "string list"
| Insecure_Discovery
| Discovery_Failed
| Issuer_Mismatch gostr gostr
| Insecure_Oidc "string list"

definition blank :: "gostr \<Rightarrow> bool" where
  "blank s \<longleftrightarrow> TrimSpace s = []"

definition Validate :: "config \<Rightarrow> string list" where
  "Validate c =
     map fst (filter (\<lambda>(_, v). blank v)
       [(''S3_ACCESS_KEY'', cf_s3_access_key c), (''S3_SECRET_KEY'', cf_s3_secret_key c),
        (''KEYCLOAK_URL'', cf_keycloak_url c), (''KEYCLOAK_REALM'', cf_keycloak_realm c),
        (''KEYCLOAK_CLIENT_ID'', cf_keycloak_client_id c), (''KEYCLOAK_JWKS_URL'', cf_keycloak_jwks_url c)])"

definition firstNonEmpty :: "gostr list \<Rightarrow> gostr" where
  "firstNonEmpty vs = (case find (\<lambda>v. \<not> blank v) vs of Some v \<Rightarrow> v | None \<Rightarrow> [])"

definition trim_right_slashes :: "gostr \<Rightarrow> gostr" where
  "trim_right_slashes s = rev (dropWhile (\<lambda>c. c = 47) (rev s))"

definition deriveKeycloakIssuer :: "gostr \<Rightarrow> gostr \<Rightarrow> gostr" where
  "deriveKeycloakIssuer url realm =
     (if blank url \<or> blank realm then [] else trim_right_slashes url @ bytes ''/realms/'' @ realm)"

text \<open>The scheme is none where the URL cannot be read.\<close>

definition requireSecureURL :: "(gostr \<Rightarrow> gostr option) \<Rightarrow> gostr \<Rightarrow> bool \<Rightarrow> bool" where
  "requireSecureURL scheme raw allow_insecure \<longleftrightarrow>
     blank raw \<or>
     (case scheme raw of
        None \<Rightarrow> False
      | Some s \<Rightarrow>
          (let t = map lower_byte s in t = bytes ''https'' \<or> t = bytes ''http'' \<and> allow_insecure))"

definition validateOIDCURLs :: "(gostr \<Rightarrow> gostr option) \<Rightarrow> config \<Rightarrow> resolved_oidc \<Rightarrow> string list" where
  "validateOIDCURLs scheme c s =
     map fst (filter (\<lambda>(_, raw). \<not> requireSecureURL scheme raw (cf_allow_insecure c))
       [(''OIDC issuer'', os_issuer s), (''OIDC JWKS URL'', os_jwks_url s)])"

definition base_settings :: "config \<Rightarrow> resolved_oidc" where
  "base_settings c =
     (let client = firstNonEmpty [cf_oidc_client_id c, cf_keycloak_client_id c]
      in \<lparr>os_issuer = firstNonEmpty [cf_oidc_issuer c, deriveKeycloakIssuer (cf_keycloak_url c) (cf_keycloak_realm c)],
          os_jwks_url = firstNonEmpty [cf_oidc_jwks_url c, cf_keycloak_jwks_url c],
          os_audience = firstNonEmpty [cf_oidc_audience c, client], os_client_id = client,
          os_username_claim = cf_username_claim c, os_groups_claim = cf_groups_claim c\<rparr>)"

text \<open>Discovery, given issuer and key URL of the document, or none if it cannot be had.\<close>

definition with_discovery ::
  "(gostr \<Rightarrow> gostr option) \<Rightarrow> (gostr \<Rightarrow> (gostr \<times> gostr) option) \<Rightarrow> config \<Rightarrow> resolved_oidc \<Rightarrow> config_error + resolved_oidc" where
  "with_discovery scheme discoverOIDC c s =
     (if \<not> requireSecureURL scheme (cf_discovery_url c) (cf_allow_insecure c) then Inl Insecure_Discovery
      else case discoverOIDC (cf_discovery_url c) of
             None \<Rightarrow> Inl Discovery_Failed
           | Some (issuer, jwks) \<Rightarrow>
               if os_issuer s \<noteq> [] \<and> issuer \<noteq> [] \<and> trim_right_slashes (os_issuer s) \<noteq> trim_right_slashes issuer
               then Inl (Issuer_Mismatch issuer (os_issuer s))
               else Inr (s\<lparr>os_issuer := if os_issuer s = [] then issuer else os_issuer s,
                           os_jwks_url := if os_jwks_url s = [] then jwks else os_jwks_url s\<rparr>))"

definition ResolveOIDC ::
  "(gostr \<Rightarrow> gostr option) \<Rightarrow> (gostr \<Rightarrow> (gostr \<times> gostr) option) \<Rightarrow> config \<Rightarrow> config_error + resolved_oidc" where
  "ResolveOIDC scheme discoverOIDC c =
     (let s = base_settings c
      in case (if cf_discovery_url c \<noteq> [] \<and> (os_issuer s = [] \<or> os_jwks_url s = [])
               then with_discovery scheme discoverOIDC c s else Inr s) of
           Inl e \<Rightarrow> Inl e
         | Inr s' \<Rightarrow>
             (let bad = validateOIDCURLs scheme c s' in if bad \<noteq> [] then Inl (Insecure_Oidc bad) else Inr s'))"

text \<open>The settings with which the server starts (\<open>LoadAndValidate\<close>, then \<open>ResolveOIDC\<close>).\<close>

definition start_settings ::
  "(gostr \<Rightarrow> gostr option) \<Rightarrow> (gostr \<Rightarrow> (gostr \<times> gostr) option) \<Rightarrow> config \<Rightarrow> config_error + resolved_oidc" where
  "start_settings scheme discoverOIDC c =
     (if Validate c \<noteq> [] then Inl (Missing_Variables (Validate c)) else ResolveOIDC scheme discoverOIDC c)"

section \<open>Lemmas\<close>

lemma strip_front_bytes: "set s \<subseteq> set (strip_front rs s) \<union> \<Union> (set ` set rs)"
proof (induction rs s rule: strip_front.induct)
  case (1 rs s)
  show ?case
  proof (cases "find (\<lambda>r. r \<noteq> [] \<and> prefix r s) rs")
    case None
    then show ?thesis by (auto simp: strip_front.simps [of rs s])
  next
    case (Some r)
    then have r: "r \<in> set rs" "prefix r s" by (auto simp: find_Some_iff)
    have eq: "strip_front rs s = strip_front rs (drop (length r) s)" using Some by (simp add: strip_front.simps [of rs s])
    have "s = r @ drop (length r) s" using r(2) by (auto simp: prefix_def)
    then have "set s = set r \<union> set (drop (length r) s)" by (metis set_append)
    then show ?thesis using 1 [OF Some] r(1) unfolding eq by blast
  qed
qed

lemma blank_bytes: "blank s \<Longrightarrow> set s \<subseteq> \<Union> (set ` set space_runes)"
  using strip_front_bytes [of s space_runes]
    strip_front_bytes [of "rev (strip_front space_runes s)" "map rev space_runes"]
  by (auto simp: blank_def TrimSpace_def)

lemma slash_not_blank: "47 \<in> set s \<Longrightarrow> \<not> blank s"
proof
  assume "47 \<in> set s" "blank s"
  then have "47 \<in> \<Union> (set ` set space_runes)" using blank_bytes by blast
  then show False by (simp add: space_runes_def)
qed

lemma not_blank_nonempty: "\<not> blank s \<Longrightarrow> s \<noteq> []"
  using set_TrimSpace [of s] by (auto simp: blank_def)

lemma blank_nil: "blank []"
  using set_TrimSpace [of "[]"] by (simp add: blank_def)

lemma blank_firstNonEmpty [simp]: "blank (firstNonEmpty vs) \<longleftrightarrow> (\<forall>v\<in>set vs. blank v)"
  using blank_nil by (induction vs) (auto simp: firstNonEmpty_def)

lemma valid_base:
  assumes "Validate c = []"
  shows "\<not> blank (os_issuer (base_settings c))" and "\<not> blank (os_jwks_url (base_settings c))"
    and "\<not> blank (os_audience (base_settings c))"
proof -
  have v: "\<not> blank (cf_keycloak_url c)" "\<not> blank (cf_keycloak_realm c)" "\<not> blank (cf_keycloak_jwks_url c)"
    "\<not> blank (cf_keycloak_client_id c)"
    using assms by (auto simp: Validate_def split: if_splits)
  then have "\<not> blank (deriveKeycloakIssuer (cf_keycloak_url c) (cf_keycloak_realm c))"
    by (auto simp: deriveKeycloakIssuer_def bytes_def intro!: slash_not_blank)
  then show "\<not> blank (os_issuer (base_settings c))" "\<not> blank (os_jwks_url (base_settings c))"
      "\<not> blank (os_audience (base_settings c))"
    using v by (simp_all add: base_settings_def Let_def)
qed

lemma start_settings_Inr:
  assumes "start_settings scheme discoverOIDC c = Inr s"
  shows "Validate c = [] \<and> s = base_settings c \<and> validateOIDCURLs scheme c s = []"
proof -
  have v: "Validate c = []" using assms by (simp add: start_settings_def split: if_splits)
  then have "os_issuer (base_settings c) \<noteq> []" "os_jwks_url (base_settings c) \<noteq> []"
    using valid_base not_blank_nonempty by blast+
  then show ?thesis using assms v by (auto simp: start_settings_def ResolveOIDC_def Let_def split: if_splits)
qed

section \<open>Properties\<close>

text \<open>The scheme of a URL the gateway may trust.\<close>

definition trusted_scheme :: "(gostr \<Rightarrow> gostr option) \<Rightarrow> bool \<Rightarrow> gostr \<Rightarrow> bool" where
  "trusted_scheme scheme allow_insecure raw \<longleftrightarrow>
     (case scheme raw of
        None \<Rightarrow> False
      | Some s \<Rightarrow> map lower_byte s \<in> {bytes ''https''} \<union> (if allow_insecure then {bytes ''http''} else {}))"

text \<open>
  C28. A gateway that starts has an issuer, an audience and a key URL to check tokens by, both URLs over
  TLS unless the setting for development allows otherwise. It never looks at the discovery
  URL: a start is refused unless all the Keycloak variables are set, and these leave
  discovery nothing to fill in, so whatever the document says the outcome is the same.
\<close>

theorem start_ignores_discovery:
  assumes "start_settings scheme discoverOIDC c = Inr s"
  shows "start_settings scheme otherDocument c = Inr s \<and>
    start_settings scheme otherDocument (c\<lparr>cf_discovery_url := other_url\<rparr>) = Inr s \<and>
    \<not> blank (os_issuer s) \<and> \<not> blank (os_jwks_url s) \<and> \<not> blank (os_audience s) \<and>
    trusted_scheme scheme (cf_allow_insecure c) (os_issuer s) \<and>
    trusted_scheme scheme (cf_allow_insecure c) (os_jwks_url s)"
proof -
  have s: "Validate c = []" "s = base_settings c" "validateOIDCURLs scheme c s = []"
    using start_settings_Inr [OF assms] by blast+
  note nb = valid_base [OF s(1), folded s(2)]
  have ne: "os_issuer s \<noteq> []" "os_jwks_url s \<noteq> []" using nb not_blank_nonempty by blast+
  let ?c = "c\<lparr>cf_discovery_url := other_url\<rparr>"
  have same: "Validate ?c = []" "base_settings ?c = s" "validateOIDCURLs scheme ?c s = []"
    using s by (simp_all add: Validate_def base_settings_def validateOIDCURLs_def)
  have "requireSecureURL scheme (os_issuer s) (cf_allow_insecure c)" "requireSecureURL scheme (os_jwks_url s) (cf_allow_insecure c)"
    using s(3) by (auto simp: validateOIDCURLs_def split: if_splits)
  then have "trusted_scheme scheme (cf_allow_insecure c) (os_issuer s)" "trusted_scheme scheme (cf_allow_insecure c) (os_jwks_url s)"
    using nb by (auto simp: requireSecureURL_def trusted_scheme_def Let_def split: option.splits)
  then show ?thesis using s same ne nb by (auto simp: start_settings_def ResolveOIDC_def Let_def)
qed

definition sample_config :: config where
  "sample_config =
     \<lparr>cf_s3_access_key = bytes ''a'', cf_s3_secret_key = bytes ''s'', cf_keycloak_url = bytes ''https://k/'',
      cf_keycloak_realm = bytes ''r'', cf_keycloak_client_id = bytes ''pier'', cf_keycloak_jwks_url = bytes ''https://k/certs'',
      cf_oidc_issuer = [], cf_oidc_jwks_url = [], cf_oidc_audience = [], cf_oidc_client_id = [],
      cf_username_claim = [], cf_groups_claim = [], cf_discovery_url = bytes ''https://idp'', cf_allow_insecure = False\<rparr>"

definition read_scheme :: "gostr \<Rightarrow> gostr option" where
  "read_scheme raw = (case cut_byte 58 raw of (s, Some _) \<Rightarrow> Some s | _ \<Rightarrow> None)"

definition sample_settings :: resolved_oidc where
  "sample_settings =
     \<lparr>os_issuer = bytes ''https://k/realms/r'', os_jwks_url = bytes ''https://k/certs'', os_audience = bytes ''pier'',
      os_client_id = bytes ''pier'', os_username_claim = [], os_groups_claim = []\<rparr>"

lemma sample_starts: "start_settings read_scheme (\<lambda>_. None) sample_config = Inr sample_settings"
  by code_simp

theorem start_ignores_discovery_witness:
  "start_settings read_scheme (\<lambda>_. Some (bytes ''https://idp'', bytes ''https://idp/keys'')) sample_config = Inr sample_settings \<and>
   trusted_scheme read_scheme False (bytes ''https://k/certs'')"
  using start_ignores_discovery [OF sample_starts] by (simp add: sample_config_def sample_settings_def)

text \<open>The settings the documentation gives for a provider with discovery are refused at the start.\<close>

theorem documented_discovery_refused:
  "start_settings scheme discoverOIDC
     (sample_config\<lparr>cf_keycloak_url := [], cf_keycloak_realm := [], cf_keycloak_client_id := [], cf_keycloak_jwks_url := [],
        cf_oidc_audience := bytes ''pier-s3'', cf_oidc_client_id := bytes ''pier-s3'', cf_groups_claim := bytes ''roles''\<rparr>) =
   Inl (Missing_Variables [''KEYCLOAK_URL'', ''KEYCLOAK_REALM'', ''KEYCLOAK_CLIENT_ID'', ''KEYCLOAK_JWKS_URL''])"
proof -
  have "blank []" "\<not> blank (bytes ''a'')" "\<not> blank (bytes ''s'')" by code_simp+
  then show ?thesis by (simp add: start_settings_def Validate_def sample_config_def)
qed

text \<open>
  The sign-in endpoints are always those of the Keycloak realm. With another issuer set, tokens are
  checked against that one.
\<close>

definition sign_in_issuer :: "config \<Rightarrow> gostr" where
  "sign_in_issuer c = IssuerURL (cf_keycloak_url c) (cf_keycloak_realm c)"

theorem sign_in_at_other_provider:
  assumes "start_settings scheme discoverOIDC c = Inr s"
    and "\<not> blank (cf_oidc_issuer c)" and "cf_oidc_issuer c \<noteq> sign_in_issuer c"
  shows "os_issuer s \<noteq> sign_in_issuer c"
  using start_settings_Inr [OF assms(1)] assms(2,3) by (simp add: base_settings_def Let_def firstNonEmpty_def)

lemma issuers_agree:
  assumes "start_settings scheme discoverOIDC c = Inr s" and "blank (cf_oidc_issuer c)"
  shows "os_issuer s = sign_in_issuer c"
proof -
  have v: "Validate c = []" and s: "s = base_settings c" using start_settings_Inr [OF assms(1)] by simp_all
  have "\<not> blank (cf_keycloak_url c)" "\<not> blank (cf_keycloak_realm c)" using v by (auto simp: Validate_def split: if_splits)
  moreover have "\<not> blank (sign_in_issuer c)"
    by (rule slash_not_blank) (simp add: sign_in_issuer_def IssuerURL_def bytes_def)
  ultimately show ?thesis
    using assms(2)
    by (simp add: s base_settings_def Let_def firstNonEmpty_def deriveKeycloakIssuer_def sign_in_issuer_def IssuerURL_def
      trim_right_slashes_def)
qed

section \<open>From the claims to a decision\<close>

text \<open>The names of groups a token carries, as they stand in its claims.\<close>

definition claim_names :: "claim_mapper \<Rightarrow> claims \<Rightarrow> gostr list" where
  "claim_names m cs =
     (if GroupsClaim m = [] then
        array_strings (map_of cs (bytes ''groups'')) @
        (case map_of cs (bytes ''realm_access'') of
           Some (Claim_Object ra) \<Rightarrow> array_strings (map_of ra (bytes ''roles'')) | _ \<Rightarrow> [])
      else case lookupClaim cs (GroupsClaim m) of
             Some (Claim_Array vs) \<Rightarrow> array_strings (Some (Claim_Array vs))
           | Some (Claim_Object ob) \<Rightarrow> map fst ob
           | Some (Claim_String s) \<Rightarrow> if s = [] then [] else [s]
           | _ \<Rightarrow> [])"

lemma set_Groups: "set (Groups m cs) = stripLeadingSlash ` set (claim_names m cs)"
proof (cases "GroupsClaim m = []")
  case True
  have "set (Groups m cs) = set (ExtractGroups cs)" using True by (simp add: Groups_def)
  also have "\<dots> = stripLeadingSlash ` set (claim_names m cs)"
    using True by (auto simp: ExtractGroups_def claim_names_def split: option.splits claim.splits)
  finally show ?thesis .
next
  case False
  show ?thesis
  proof (cases "lookupClaim cs (GroupsClaim m)")
    case None
    then show ?thesis using False by (simp add: Groups_def claim_names_def)
  next
    case (Some v)
    then show ?thesis using False
      by (cases v) (auto simp: Groups_def claim_names_def toGroupStrings_def case_prod_beta image_image)
  qed
qed

lemma parseGroup_strip: "parseGroup (stripLeadingSlash g) = parseGroup g"
proof -
  have "dropWhile (\<lambda>c. c = 47) (stripLeadingSlash g) = dropWhile (\<lambda>c. c = 47) g"
    by (cases g) (simp_all add: stripLeadingSlash_def)
  then show ?thesis unfolding parseGroup_def by simp
qed

lemma CheckAccess_ex: "CheckAccess groups b m \<longleftrightarrow>
    (\<exists>g\<in>set groups. \<exists>c p. parseGroup g = Some (c, p) \<and> covers True b c \<and> methodGranted p m)"
  unfolding CheckAccess_granted granted_def list_ex_iff by (fastforce split: option.splits)

text \<open>A slash before a name, and the order of names, change no decision.\<close>

lemma CheckAccess_names: "CheckAccess (Groups mp cs) b m \<longleftrightarrow> CheckAccess (claim_names mp cs) b m"
  by (simp add: CheckAccess_ex set_Groups parseGroup_strip)

text \<open>
  C14. What the S3 proxy passes on, one name in the claims of the sender's own verified token allows: a string
  of the configured claim that grants the method on the bucket of the path or on all
  buckets. Nothing else in the token, and no other token, counts.
\<close>

theorem a_claim_permits_what_is_forwarded:
  assumes "ServeHTTP lower (identify mp VerifyToken) sign upstr rq = Forwarded f"
  shows "\<exists>cs name path b p. VerifyToken (extractBearerToken (sr_headers rq)) = Some cs \<and> name \<in> set (claim_names mp cs) \<and>
    unescape False (sr_path rq) = Some path \<and> pathBucket path \<noteq> [] \<and>
    parseGroup name = Some (b, p) \<and> b \<in> {pathBucket path, WildcardBucket} \<and> methodGranted p (sr_method rq)"
proof -
  obtain user groups path where f:
    "identify mp VerifyToken (extractBearerToken (sr_headers rq)) = Some (user, groups)"
    "unescape False (sr_path rq) = Some path" "pathBucket path \<noteq> []"
    "CheckAccess groups (pathBucket path) (sr_method rq)"
    using ServeHTTP_forwards [OF assms] by blast
  then obtain cs where cs: "VerifyToken (extractBearerToken (sr_headers rq)) = Some cs" "groups = Groups mp cs"
    by (auto simp: identify_def)
  have "CheckAccess (claim_names mp cs) (pathBucket path) (sr_method rq)" using f(4) by (simp add: cs(2) CheckAccess_names)
  then obtain name b p where "name \<in> set (claim_names mp cs)" "parseGroup name = Some (b, p)"
      "covers True (pathBucket path) b" "methodGranted p (sr_method rq)"
    unfolding CheckAccess_ex by blast
  then show ?thesis using f(2,3) cs(1) unfolding covers_def by blast
qed

definition drop_claims :: "gostr \<Rightarrow> claims option" where
  "drop_claims tok =
     (if tok = bytes ''t'' then
        Some [(bytes ''sub'', Claim_String (bytes ''u'')),
              (bytes ''roles'', Claim_Object [(bytes ''/in-wo'', Claim_Other)])]
      else None)"

definition roles_mapper :: claim_mapper where
  "roles_mapper = \<lparr>UsernameClaim = [], GroupsClaim = bytes ''roles''\<rparr>"

theorem a_claim_permits_what_is_forwarded_witness:
  "\<exists>out. ServeHTTP (map lower_byte) (identify roles_mapper drop_claims) (\<lambda>_. Some) (Some sample_upstream) (drop_put []) = Forwarded out \<and>
     claim_names roles_mapper (the (drop_claims (bytes ''t''))) = [bytes ''/in-wo'']"
proof -
  have same: "identify roles_mapper drop_claims = drop_groups"
  proof
    have "map_option (\<lambda>cs. (User roles_mapper cs, Groups roles_mapper cs)) (drop_claims (bytes ''t'')) = drop_groups (bytes ''t'')"
      by code_simp
    then show "identify roles_mapper drop_claims tok = drop_groups tok" for tok
      by (cases "tok = bytes ''t''") (simp_all add: identify_def drop_claims_def drop_groups_def)
  qed
  obtain out where out: "ServeHTTP (map lower_byte) (identify roles_mapper drop_claims) (\<lambda>_. Some) (Some sample_upstream) (drop_put []) = Forwarded out"
    using drop_put_forwarded unfolding same by blast
  have "claim_names roles_mapper (the (drop_claims (bytes ''t''))) = [bytes ''/in-wo'']" by code_simp
  then show ?thesis using a_claim_permits_what_is_forwarded [OF out] out drop_put_facts by auto
qed

end
