(* ===== verification/Strict_Mode.thy ===== *)
theory Strict_Mode
  imports Auth_Provider
begin

text \<open>
  The mounting of the client, \<open>main.tsx\<close>. In development \<open>React.StrictMode\<close> runs each effect of a mounted
  component, its cleanup, and the effect again; here for the effect of \<open>auth/AuthProvider.tsx\<close> that asks
  for the session and listens to the OIDC library. Each run has its own \<open>active\<close> flag, promise and
  handlers; state, token and requests in flight are shared.
\<close>

section \<open>Effects run twice\<close>

record effect_run =
  er_boot :: bool
  er_active :: bool

record strict_sys =
  ss_state :: auth_state
  ss_pending :: "oidc_user list"
  ss_runs :: "effect_run list"

text \<open>The effect, and its cleanup, which ends the run that is active and removes its handlers.\<close>

definition run_effect :: "strict_sys \<Rightarrow> strict_sys" where
  "run_effect s = s\<lparr>ss_runs := ss_runs s @ [\<lparr>er_boot = True, er_active = True\<rparr>]\<rparr>"

definition cleanup_effect :: "strict_sys \<Rightarrow> strict_sys" where
  "cleanup_effect s = s\<lparr>ss_runs := map (\<lambda>r. r\<lparr>er_active := False\<rparr>) (ss_runs s)\<rparr>"

definition rendered_once :: strict_sys where
  "rendered_once = \<lparr>ss_state = auth_init, ss_pending = [], ss_runs = []\<rparr>"

definition mount_root :: "bool \<Rightarrow> strict_sys" where
  "mount_root development =
     (let s = run_effect rendered_once in if development then run_effect (cleanup_effect s) else s)"

text \<open>What a run sees of the system, and the system after a handler of that run.\<close>

definition run_view :: "strict_sys \<Rightarrow> effect_run \<Rightarrow> auth_sys" where
  "run_view s r =
     \<lparr>as_state = ss_state s, as_pending = ss_pending s, as_boot = er_boot r, as_active = er_active r\<rparr>"

definition by_run :: "(auth_sys \<Rightarrow> auth_sys) \<Rightarrow> nat \<Rightarrow> strict_sys \<Rightarrow> strict_sys" where
  "by_run h i s =
     (let v = h (run_view s (ss_runs s ! i))
      in s\<lparr>ss_state := as_state v, ss_pending := as_pending v,
           ss_runs := (ss_runs s)[i := \<lparr>er_boot = as_boot v, er_active = as_active v\<rparr>]\<rparr>)"

text \<open>An event reaches the handlers that are registered, those of the active runs, in turn.\<close>

definition registered :: "strict_sys \<Rightarrow> nat list" where
  "registered s = filter (\<lambda>i. er_active (ss_runs s ! i)) [0..<length (ss_runs s)]"

definition fire :: "user_event \<Rightarrow> strict_sys \<Rightarrow> strict_sys" where
  "fire e s = fold (by_run (onUser (event_user e))) (registered s) s"

inductive strict_step :: "strict_sys \<Rightarrow> strict_sys \<Rightarrow> bool" where
  strict_boot: "i < length (ss_runs s) \<Longrightarrow> er_boot (ss_runs s ! i) \<Longrightarrow> strict_step s (by_run (boot_resolved u) i s)"
| strict_boot_error: "i < length (ss_runs s) \<Longrightarrow> er_boot (ss_runs s ! i) \<Longrightarrow> strict_step s (by_run boot_rejected i s)"
| strict_event: "strict_step s (fire e s)"
| strict_me: "ss_pending s = ps @ u # qs \<Longrightarrow>
    strict_step s (s\<lparr>ss_state := me_reply u reply (ss_state s), ss_pending := ps @ qs\<rparr>)"
| strict_unmount: "strict_step s (cleanup_effect s)"

inductive_cases strict_stepE: "strict_step s s'"

section \<open>The second run is the only one that counts\<close>

definition one_live :: "strict_sys \<Rightarrow> bool" where
  "one_live s \<longleftrightarrow> ss_runs s \<noteq> [] \<and> list_all (\<lambda>r. \<not> er_active r) (butlast (ss_runs s))"

definition live_view :: "strict_sys \<Rightarrow> auth_sys" where
  "live_view s = run_view s (last (ss_runs s))"

lemma one_live_dead: "one_live s \<Longrightarrow> i < length (ss_runs s) \<Longrightarrow> i \<noteq> length (ss_runs s) - 1 \<Longrightarrow> \<not> er_active (ss_runs s ! i)"
proof -
  assume live: "one_live s" and i: "i < length (ss_runs s)" "i \<noteq> length (ss_runs s) - 1"
  then have "i < length (butlast (ss_runs s))" by simp
  then have "butlast (ss_runs s) ! i \<in> set (butlast (ss_runs s))" "butlast (ss_runs s) ! i = ss_runs s ! i"
    by (rule nth_mem, rule nth_butlast)
  then show ?thesis using live by (auto simp: one_live_def list_all_iff)
qed

text \<open>A handler of a run that is over changes only whether its promise is settled.\<close>

lemma by_dead_run:
  assumes "one_live s" "i < length (ss_runs s)" "i \<noteq> length (ss_runs s) - 1"
    and "\<And>v. \<not> as_active v \<Longrightarrow> h v = v\<lparr>as_boot := False\<rparr>"
  shows "one_live (by_run h i s) \<and> live_view (by_run h i s) = live_view s"
proof -
  let ?r = "\<lparr>er_boot = False, er_active = False\<rparr>"
  have dead: "\<not> er_active (ss_runs s ! i)" using assms(1-3) by (rule one_live_dead)
  then have st: "by_run h i s = s\<lparr>ss_runs := (ss_runs s)[i := ?r]\<rparr>"
    by (simp add: by_run_def run_view_def assms(4))
  have "last ((ss_runs s)[i := ?r]) = last (ss_runs s)"
    using assms(2,3) by (cases "ss_runs s" rule: rev_cases) (auto simp: list_update_append nth_append)
  moreover have "list_all (\<lambda>r. \<not> er_active r) (butlast ((ss_runs s)[i := ?r]))"
    using assms(1) set_update_subset_insert [of "butlast (ss_runs s)" i ?r]
    by (auto simp: one_live_def list_all_iff butlast_list_update split: if_splits)
  ultimately show ?thesis using assms(1) by (simp add: st one_live_def live_view_def run_view_def)
qed

lemma by_live_run:
  assumes "one_live s"
  shows "one_live (by_run h (length (ss_runs s) - 1) s) \<and>
    live_view (by_run h (length (ss_runs s) - 1) s) = h (live_view s)"
proof -
  obtain rs r where rs: "ss_runs s = rs @ [r]" using assms by (cases "ss_runs s" rule: rev_cases) (auto simp: one_live_def)
  show ?thesis using assms by (simp add: one_live_def live_view_def by_run_def Let_def rs run_view_def)
qed

lemma registered_live:
  assumes "one_live s"
  shows "registered s = (if as_active (live_view s) then [length (ss_runs s) - 1] else [])"
proof -
  obtain rs r where rs: "ss_runs s = rs @ [r]" using assms by (cases "ss_runs s" rule: rev_cases) (auto simp: one_live_def)
  have "filter (\<lambda>i. er_active ((rs @ [r]) ! i)) [0..<length rs] = []"
    using assms by (auto simp: filter_empty_conv nth_append one_live_def rs list_all_iff)
  then show ?thesis by (simp add: registered_def live_view_def run_view_def rs)
qed

lemma live_fire:
  assumes "one_live s"
  shows "one_live (fire e s) \<and> live_view (fire e s) = onUser (event_user e) (live_view s)"
  using by_live_run [OF assms] assms by (simp add: fire_def registered_live) (simp add: onUser_def)

lemma live_cleanup: "one_live s \<Longrightarrow> one_live (cleanup_effect s) \<and> live_view (cleanup_effect s) = unmount (live_view s)"
  by (auto simp: one_live_def cleanup_effect_def live_view_def run_view_def unmount_def list_all_iff last_map
      map_butlast [symmetric])

lemma strict_step_simulates:
  assumes "strict_step s s'" and "one_live s"
  shows "one_live s' \<and> (live_view s' = live_view s \<or> auth_step (live_view s) (live_view s'))"
  using assms(1)
proof (cases rule: strict_step.cases)
  case (strict_boot i u)
  show ?thesis
  proof (cases "i = length (ss_runs s) - 1")
    case True
    then have "as_boot (live_view s)" using strict_boot assms(2) by (simp add: live_view_def run_view_def last_conv_nth one_live_def)
    then show ?thesis using by_live_run [OF assms(2)] strict_boot True auth_boot by auto
  next
    case False
    then show ?thesis using by_dead_run [OF assms(2), of i "boot_resolved u"] strict_boot
      by (simp add: boot_resolved_def onUser_def)
  qed
next
  case (strict_boot_error i)
  show ?thesis
  proof (cases "i = length (ss_runs s) - 1")
    case True
    then have "as_boot (live_view s)" using strict_boot_error assms(2) by (simp add: live_view_def run_view_def last_conv_nth one_live_def)
    then show ?thesis using by_live_run [OF assms(2)] strict_boot_error True auth_boot_error by auto
  next
    case False
    then show ?thesis using by_dead_run [OF assms(2), of i boot_rejected] strict_boot_error
      by (simp add: boot_rejected_def)
  qed
next
  case (strict_event e)
  then show ?thesis using live_fire [OF assms(2)] auth_event by metis
next
  case (strict_me ps u qs reply)
  then have "live_view s' = (live_view s)\<lparr>as_state := me_reply u reply (as_state (live_view s)), as_pending := ps @ qs\<rparr>"
    by (simp add: live_view_def run_view_def)
  moreover have "as_pending (live_view s) = ps @ u # qs" using strict_me by (simp add: live_view_def run_view_def)
  ultimately show ?thesis using assms(2) strict_me auth_me [of "live_view s"] by (simp add: one_live_def)
next
  case strict_unmount
  then show ?thesis using live_cleanup [OF assms(2)] auth_unmount by metis
qed

lemma by_run_length: "length (ss_runs (by_run h i s)) = length (ss_runs s)"
  by (simp add: by_run_def Let_def)

lemma strict_step_length: "strict_step s s' \<Longrightarrow> one_live s \<Longrightarrow> length (ss_runs s') = length (ss_runs s)"
  by (elim strict_stepE) (auto simp: by_run_length cleanup_effect_def fire_def registered_live)

definition two_runs :: "strict_sys \<Rightarrow> bool" where
  "two_runs s \<longleftrightarrow> one_live s \<and> length (ss_runs s) = 2"

section \<open>Properties\<close>

lemma mount_root_live: "one_live (mount_root development) \<and> live_view (mount_root development) = auth_mounted"
  by (simp add: mount_root_def rendered_once_def run_effect_def cleanup_effect_def one_live_def live_view_def
      run_view_def auth_mounted_def Let_def)

interpretation strict: transition_invariant "mount_root True" strict_step two_runs
proof
  show "two_runs (mount_root True)"
    using mount_root_live [of True]
    by (simp add: two_runs_def mount_root_def run_effect_def cleanup_effect_def rendered_once_def Let_def)
  show "two_runs s'" if "strict_step s s'" "two_runs s" for s s'
    using strict_step_simulates [OF that(1)] strict_step_length [OF that(1)] that(2) by (simp add: two_runs_def)
qed

lemma strict_one_live: "reach (mount_root True) strict_step s \<Longrightarrow> one_live s"
  using strict.always by (simp add: two_runs_def)

text \<open>
  C21. Running the effect twice changes nothing: whatever a provider mounted under strict mode comes to,
  in any order of the promises, events and replies of both runs, one mounted once can come to, with the
  same user, token, loading flag and requests in flight; an event is handled at most once, and
  the promise of the first run not at all, whether it is kept or refused: neither the user nor the
  token nor the loading flag nor a request comes of it.
\<close>

theorem strict_mode_refines_mount:
  assumes "reach (mount_root True) strict_step s"
  shows "(\<exists>sys. reach auth_mounted auth_step sys \<and> as_state sys = ss_state s \<and> as_pending sys = ss_pending s) \<and>
    length (registered s) \<le> 1 \<and>
    ss_state (by_run (boot_resolved u) 0 s) = ss_state s \<and> ss_pending (by_run (boot_resolved u) 0 s) = ss_pending s \<and>
    ss_state (by_run boot_rejected 0 s) = ss_state s \<and> ss_pending (by_run boot_rejected 0 s) = ss_pending s"
proof -
  have live: "one_live s" and two: "length (ss_runs s) = 2" using strict.always [OF assms] by (simp_all add: two_runs_def)
  have "reach auth_mounted auth_step (live_view s)"
    using assms
  proof (induction rule: reach.induct)
    case reach_start
    then show ?case using mount_root_live [of True] by (simp add: reach.reach_start)
  next
    case (reach_next s s')
    then show ?case
      using strict_step_simulates [OF reach_next(2) strict_one_live [OF reach_next(1)]] by (auto intro: reach.reach_next)
  qed
  moreover have "as_state (live_view s) = ss_state s" "as_pending (live_view s) = ss_pending s" for s
    by (simp_all add: live_view_def run_view_def)
  moreover have "live_view (by_run (boot_resolved u) 0 s) = live_view s"
    using by_dead_run [OF live, of 0 "boot_resolved u"] two by (simp add: boot_resolved_def onUser_def)
  moreover have "live_view (by_run boot_rejected 0 s) = live_view s"
    using by_dead_run [OF live, of 0 boot_rejected] two by (simp add: boot_rejected_def)
  ultimately show ?thesis using registered_live [OF live] by (metis One_nat_def le_numeral_extra(4) length_Cons list.size(3) zero_le)
qed

text \<open>
  On the callback page the first call uses up the answer of the provider, so the second is refused;
  the user arrives by the event alone, which only the second run still hears.
\<close>

definition strict_callback :: "oidc_user \<Rightarrow> strict_sys" where
  "strict_callback u =
     by_run (boot_resolved (Some u)) 0 (fire (User_Loaded u) (by_run boot_rejected 1 (mount_root True)))"

lemma strict_callback_reached: "reach (mount_root True) strict_step (strict_callback u)"
proof -
  have runs: "ss_runs (mount_root True) = [\<lparr>er_boot = True, er_active = False\<rparr>, \<lparr>er_boot = True, er_active = True\<rparr>]"
    by (simp add: mount_root_def rendered_once_def run_effect_def cleanup_effect_def Let_def)
  define s1 s2 where "s1 = by_run boot_rejected 1 (mount_root True)" and "s2 = fire (User_Loaded u) s1"
  have "strict_step (mount_root True) s1" unfolding s1_def by (rule strict_boot_error) (simp_all add: runs)
  then have reached: "reach (mount_root True) strict_step s1" by (rule reach_one)
  then have live: "one_live s1" by (rule strict_one_live)
  have r1: "ss_runs s1 = [\<lparr>er_boot = True, er_active = False\<rparr>, \<lparr>er_boot = False, er_active = True\<rparr>]"
    by (simp add: s1_def by_run_def Let_def runs run_view_def boot_rejected_def)
  have "registered s1 = [1]" using registered_live [OF live] by (simp add: live_view_def run_view_def r1)
  then have r2: "ss_runs s2 = [\<lparr>er_boot = True, er_active = False\<rparr>, \<lparr>er_boot = False, er_active = True\<rparr>]"
    by (simp add: s2_def fire_def) (simp add: by_run_def [of "onUser _"] Let_def r1 run_view_def onUser_def handleUser_def)
  have "strict_step s2 (strict_callback u)" unfolding strict_callback_def s1_def [symmetric] s2_def [symmetric] by (rule strict_boot) (simp_all add: r2)
  moreover have "reach (mount_root True) strict_step s2" unfolding s2_def using reached strict_event by (rule reach.reach_next)
  ultimately show ?thesis by (rule reach.reach_next [rotated])
qed

theorem strict_mode_refines_mount_witness:
  "\<exists>sys. reach auth_mounted auth_step sys \<and> as_pending sys = [sample_user ''t''] \<and> au_token (as_state sys) = Some (js ''t'')"
proof -
  have "ss_pending (strict_callback (sample_user ''t'')) = [sample_user ''t'']"
    "au_token (ss_state (strict_callback (sample_user ''t''))) = Some (js ''t'')"
    by code_simp+
  then show ?thesis using strict_mode_refines_mount [OF strict_callback_reached [of "sample_user ''t''"]] by metis
qed

text \<open>
  Mounted once, the provider hears of a sign-in twice, by the event and by the promise, and asks for the
  profile twice.
\<close>

lemma sign_in_asks_twice:
  assumes "usable (Some u)"
  shows "as_pending (boot_resolved (Some u) (onUser (event_user (User_Loaded u)) auth_mounted)) = [u, u]"
  using assms by (simp add: boot_resolved_def onUser_def handleUser_def auth_mounted_def event_user_def)

end
