(* ===== verification/Spec2Isabelle.thy ===== *)
theory Spec2Isabelle
  imports Csv_Parser Preview_Kind Api_Client Browser_Store Buckets_Store Auth_Provider App_Routes
    File_Preview Object_Browser Upload_Zone Layout_Shell Bucket_Views Theme I18n
    Gateway_Routes Acl Content_Security Storage Gateway Session Browser_Events Controls
    S3_Proxy Stats_Flight Sign_In Rate_Limit Identity Strict_Mode
begin

text \<open>
  A verification library for the web client of the Pier S3 gateway (\<open>src/web/src\<close>), a React
  program in TypeScript. The client signs in at an OIDC provider, lists the buckets the user may
  see, browses them by prefix, and uploads, downloads, previews and deletes objects through the
  HTTP interface of the gateway. The gateway, in Go (\<open>src/internal\<close>), is modelled with it, so that the
  two can be composed: the handlers the client calls, the sign-in, and the S3 side that serves programs.

  \<^bold>\<open>How the program is modelled.\<close> A string is the list of its UTF-16 code units (\<open>jstr\<close>, with
  \<open>js ''...''\<close> for literals), an object a record, a union a datatype, a dictionary a map or an
  association list. A component with effects is split at its awaits: one definition up to the
  request, one per reply, so that the replies of requests in flight can be interleaved in any
  order; the calls to the gateway that a handler makes are part of its result. A byte string of the
  gateway is a list of bytes (\<open>gostr\<close>), a handler a function of the request and the storage that gives
  its reply and the new storage. A view is the
  value of what is rendered: what is offered, with which text and which handler. Everything is
  executable; the witnesses evaluate the definitions on concrete inputs.

  \<^bold>\<open>Foundations.\<close>
  \<open>Prelude\<close>: strings and the lemmas shared by all.
  \<open>Js_String\<close>: the string methods the client calls (\<open>split\<close>, \<open>trim\<close>, \<open>lastIndexOf\<close>, ...), with
  \<open>toLowerCase\<close> as a parameter under the interface \<open>case_mapping\<close>.
  \<open>Js_Number\<close>: rounding to doubles on rationals (53 bits, ties to even), \<open>Math.round\<close>, \<open>toFixed\<close>.
  \<open>Js_Json\<close>: \<open>JSON.parse\<close> and \<open>JSON.stringify\<close>, with the round trip; numbers under the
  interface \<open>number_text\<close>. The parser's fuel of twice the length of the text plus two is never
  exhausted (\<open>one_more_fuel\<close>).
  \<open>Uri\<close>: \<open>encodeURIComponent\<close>, UTF-8 and the resolution of a path by the browser, with the
  interface \<open>segment_codec\<close>.
  \<open>Reachability\<close>: reachable states and the interface of an invariant, \<open>transition_invariant\<close>.
  \<open>Keyed_List\<close>: lists updated by key, with the interface \<open>keyed_update\<close>.

  \<^bold>\<open>Components.\<close>
  \<open>Api_Client\<close> (\<open>api/client.ts\<close>): the interceptors, the paths of objects and metadata, error
  messages, downloads. Its lemmas: when a path addresses another object than it was built for; a
  download releases its object URL whatever throws; the gateway's fallback parsing
  (\<open>extractBucketAndKey\<close>).
  \<open>Browser_Store\<close> (\<open>store/browser.ts\<close>) and \<open>Buckets_Store\<close> (\<open>store/buckets.ts\<close>): the two stores.
  Their lemmas: the listing in scope as long as requests are answered in order, and the race when
  they are not; paging against a server collects all entries; the pool of statistics workers asks
  for each bucket once and the order of the replies does not matter.
  \<open>Auth_Provider\<close> (\<open>auth/AuthProvider.tsx\<close>): sessions, events and the profile request. Its
  lemmas: a user shown has a token, loading ends, and the sign-out that a late profile undoes.
  \<open>Strict_Mode\<close> (\<open>main.tsx\<close>): the client mounted with every effect run twice. Its lemma: the provider mounted so
  refines the one mounted once, and what the first run's promise comes to is ignored.
  \<open>App_Routes\<close> (\<open>App.tsx\<close>, \<open>pages/\<close>): routes, guards, pages, and a whole page load against a
  gateway and a provider. Its lemmas: redirects settle within two steps, pages respect the
  rights of the bucket, and the session that reloads for ever.
  \<open>Preview_Kind\<close> (\<open>components/previewKind.ts\<close>), \<open>Csv_Parser\<close> (\<open>components/csv.ts\<close>) and
  \<open>File_Preview\<close> (\<open>components/FilePreview.tsx\<close>): the choice of a renderer, the CSV state machine,
  the loading effect with its cancellation and object URLs, the dialog. Their lemmas: the parser
  refines the grammar of CSV and inverts the printing of a table, its output is bounded by the
  caps; object URLs are never leaked; nothing is rendered as active content; the formatted JSON
  is the document.
  \<open>Object_Browser\<close> (\<open>components/ObjectBrowser.tsx\<close>), \<open>Upload_Zone\<close> (\<open>components/UploadZone.tsx\<close>),
  \<open>Bucket_Views\<close> (\<open>components/BucketList.tsx\<close>, \<open>Breadcrumb.tsx\<close>, \<open>ObjectMeta.tsx\<close>),
  \<open>Byte_Format\<close> (their \<open>formatBytes\<close>) and \<open>Layout_Shell\<close> (\<open>components/AppShell.tsx\<close>,
  \<open>siderWidth.ts\<close>): rows, order and actions, uploads and their events, cards and crumbs, sizes,
  the shell with its resizable sidebar.
  \<open>Browser_Events\<close> (\<open>components/ObjectBrowser.tsx\<close>): clicks, keys and typing on what is on screen, with
  the bubbling of events, the dialogs they open and the search field; the texts with names. Its lemmas:
  a click starts nothing but what it says, the search that outlives its field, and each text
  gets the names its translation has.
  \<open>Controls\<close>: the token getter, the two contexts and the remaining controls (crumbs, drop area, footers,
  switchers). Its lemmas: a request carries the token of its moment, the first render sends none, and
  the keyboard does what a click does.
  \<open>Theme_Palette\<close> and \<open>Theme\<close> (\<open>theme/\<close>): presets, palettes, CSS variables, the selection with
  its storage, the provider and the menu. Its lemmas: whatever the storage holds the provider
  starts and stays well typed and in step with the root element; a selection survives a reload.
  \<open>I18n_Bundles\<close> and \<open>I18n\<close> (\<open>i18n/\<close>, \<open>components/LanguageSwitcher.tsx\<close>): the five bundles, the
  registry, and that every language has each text with the same interpolated names.

  \<^bold>\<open>The gateway.\<close>
  \<open>Gateway_Routes\<close> (\<open>webui/api.go\<close>): the route table, the multiplexer of Go 1.22 that serves it, the helpers
  that read bucket and key, and what a browser makes of its redirects. Its lemmas: each request of the
  client reaches its handler with the bytes of its names, and the keys for which none does.
  \<open>Acl\<close> (\<open>acl/resolver.go\<close>): groups, policies, \<open>CheckAccess\<close> and the rights in effect.
  \<open>Content_Security\<close> (\<open>webui/content_security.go\<close>): the type and the disposition of what is served. Its
  lemmas: no type served is one a browser parses as markup, by a reading of types apart from the code's
  (a value that holds two types gets around it), and a file name stays inside its header.
  \<open>Storage\<close> (\<open>webui/backend.go\<close>): the storage as an interface, \<open>s3_storage\<close>, with the laws of one that
  answers (\<open>reliable_storage\<close>), interpreted on a storage in memory.
  \<open>Gateway\<close> (\<open>webui/auth.go\<close>, \<open>api.go\<close>, \<open>stats.go\<close>): the middleware, the handlers and \<open>serve\<close>, which joins them
  with the routes. Its lemmas: nothing is read or changed without the right of the request's own token to
  it, nor from another site by a cookie, and the rights listed are those requests are checked for.
  \<open>Stats_Flight\<close> (\<open>webui/stats.go\<close>): overlapping requests for statistics, every section under the mutex a
  step. Its lemmas: no bucket is walked twice at a time and every request is answered.
  \<open>Go_Url\<close>: what the gateway uses of \<open>net/url\<close>, with the round trip of a query.
  \<open>S3_Proxy\<close> (\<open>proxy/\<close>, \<open>IsAdminOperation\<close> of \<open>acl/resolver.go\<close>): which requests of S3 clients are passed on, and
  as what. Its lemmas: only what is permitted is, with the headers and parameters that must not be passed on
  listed apart from the code, and the ways around that.
  \<open>Sign_In\<close> (\<open>webui/oidc_handlers.go\<close>, \<open>auth/oidc.go\<close>): login, callback, logout and the exchange of codes. Its lemmas: a
  sign-in completes with a provider that keeps to the standards, written down as what it must accept, and none
  is completed for another browser.
  \<open>Rate_Limit\<close> (\<open>webui/ratelimit.go\<close>): token buckets on doubles with eviction. Its lemmas: clients are limited
  apart, eviction is invisible, and forged addresses do not help.
  \<open>Identity\<close> (\<open>auth/claims.go\<close>, \<open>config/config.go\<close>): user and groups of a token, and the settings of the provider.
  Its lemmas: the claim that permits a request, and that discovery is never used.
  \<open>Session\<close>: client and gateway end to end, with every request encoded, resolved, routed and answered.
  Its lemmas: a session of opening folders, uploading and deleting refines a specification that knows
  the objects only, and where client and gateway disagree.

  \<^bold>\<open>Across the components\<close>, in this theory: \<open>row_reaches_its_object\<close>, from a click or key in a row of
  the table, through each of the calls it makes, to the handler of the gateway and the bytes it works on, and \<open>settings_independent\<close>, the settings that share the storage.

  \<^bold>\<open>Parameters.\<close> Code that is not in the repository is an argument of the definitions that use
  it, with what the client relies on as a named hypothesis or the assumptions of a locale, each
  interpreted on a concrete function: \<open>toLowerCase\<close> beyond ASCII, locale collation and the
  printing of dates, the reading and printing of doubles in JSON and in \<open>Number(raw)\<close>, the
  translation \<open>t\<close>, AntD's \<open>getDesignToken\<close>, the HTTP layer (\<open>net\<close>, replies) and the OIDC library; on the side of the gateway the storage, the
  verification of tokens, the signing of requests, the hash of PKCE, the token endpoint, the document of a
  discovery URL, the scheme of a URL, \<open>strings.ToLower\<close> beyond ASCII and the \<open>Location\<close> the browser reads.

  \<^bold>\<open>Bounds.\<close> Loops over strings and lists, and the redirects of the router, are structural or
  have a measure; only the JSON parser has fuel. Loading all pages of a listing may not end in general
  and is a \<open>partial_function\<close>; that it ends is part of \<open>session_refines_storage\<close>. The walk of the
  statistics stops after \<open>statsMaxPages\<close>, as in the code. Arithmetic is on
  integers below 2 to the 53rd where the client counts bytes and pixels, and at the width of \<open>int64\<close> in the
  totals of the statistics.

  \<^bold>\<open>Not modelled.\<close> The logo has no logic; \<open>vite.config.ts\<close>, the
  tests and the load scripts are tools; \<open>internal/webui/static/assets\<close> is the minified output of
  the build. Of the Go server, the libraries that verify tokens, sign requests and reach S3 are parameters; the
  environment, quotas, start-up of the servers, embedded files and the JSON encoding of replies are left out.
  Of the components, styling, icons and layout
  attributes are left out, and what React, AntD, the router, axios, i18next and the OIDC client do
  inside. Storage writes are taken to succeed.
\<close>

section \<open>Across the components\<close>

lemma row_cases:
  assumes "r \<in> set (dataSource lower show_date searchText pfx pfxs objects)"
  shows "if row_is_prefix r then row_key r \<in> set pfxs
    else (\<exists>ob\<in>set objects. row_key r = obj_key ob \<and> row_size r = obj_size ob)"
  using assms by (auto simp: dataSource_def prefix_row_def object_row_def Let_def)

text \<open>The row that is clicked or has the key pressed on it.\<close>

definition event_row :: "ui_event \<Rightarrow> row option" where
  "event_row e = (case e of Click_On r _ \<Rightarrow> Some r | Key_On r _ _ \<Rightarrow> Some r | _ \<Rightarrow> None)"

text \<open>
  A gateway that knows a single object, of the bytes \<open>bb\<close> and \<open>kb\<close>, as the network that answers a read and
  as the one that answers a deletion: any other request fails.
\<close>

definition only_get :: "(jstr \<Rightarrow> jstr) \<Rightarrow> gostr \<Rightarrow> gostr \<Rightarrow> 'blob \<Rightarrow> 'blob network" where
  "only_get loc bb kb blob p auth =
     (if gateway_object loc GET p = Some (Get_Object, bb, kb) then Some (200, blob) else None)"

definition only_delete :: "(jstr \<Rightarrow> jstr) \<Rightarrow> gostr \<Rightarrow> gostr \<Rightarrow> client_error \<Rightarrow> jstr \<Rightarrow> client_error option" where
  "only_delete loc bb kb err p =
     (if gateway_object loc DELETE p = Some (Delete_Object, bb, kb) then None else Some err)"

lemma event_call_cases:
  assumes "offered lower show_date li ui e" and "event_row e = Some r" and "c \<in> set (calls_of t e)"
  shows "r \<in> set (listed_rows lower show_date li ui)"
    and "row_is_prefix r \<Longrightarrow> c = Navigate_Call (row_key r)"
    and "\<not> row_is_prefix r \<Longrightarrow> c \<in> {Show_Preview (row_key r) (row_size r), Download_Call (row_key r),
      Show_Meta (row_key r), Confirm_Call (delete_dialog t (row_key r))}"
  using assms
  by (auto simp: offered_def event_row_def call_defs has_part_def Let_def
      split: if_splits ui_event.splits row_part.splits row_action.splits)

lemma other_path: "buildObjectPath b k = Some p \<Longrightarrow> \<exists>q. buildMetaPath b k = Some q"
  by (auto simp: buildObjectPath_def buildMetaPath_def api_path_def split: option.splits)

text \<open>
  C1. From the table to the gateway: whatever is clicked, or has a key pressed on it, in a row of the
  table, a folder's row opens that folder, one of those listed, and nothing else; and every call made
  for an object's row works on that object, one of those listed: the preview and the download fetch
  it, under its name, the details ask for it, and the deletion, after a question that names it, deletes it.
  The path the client builds ends, after the browser has resolved it and the multiplexer has cleaned,
  matched and decoded it, at the gateway's handler for the operation, on exactly the bytes of the bucket
  shown and of the key of that object. It needs a bucket name and keys that are not empty, can be encoded
  and have no dot segments, and keys without an empty segment before the last.
\<close>

theorem row_reaches_its_object:
  assumes "b \<noteq> []" and "\<not> dot_name b"
    and "list_all (\<lambda>ob. obj_key ob \<noteq> [] \<and> list_all (\<lambda>s. \<not> dot_name s) (split_on slash (obj_key ob)) \<and>
           list_all (\<lambda>s. s \<noteq> []) (butlast (split_on slash (obj_key ob)))) (br_objects (li_store li))"
    and "offered lower show_date li ui e" and "event_row e = Some r" and "c \<in> set (calls_of t e)"
    and "buildObjectPath b (row_key r) = Some p"
  shows "(row_is_prefix r \<longrightarrow> c = Navigate_Call (row_key r) \<and> row_key r \<in> set (br_prefixes (li_store li))) \<and>
    (\<not> row_is_prefix r \<longrightarrow>
       (\<exists>ob\<in>set (br_objects (li_store li)). \<exists>bb kb.
          obj_key ob = row_key r \<and> utf8_bytes b = Some bb \<and> utf8_bytes (obj_key ob) = Some kb \<and>
          (case c of
             Show_Preview k n \<Rightarrow> n = obj_size ob \<and> fetchObjectBlob token (only_get loc bb kb blob) b k = Inr blob
           | Download_Call k \<Rightarrow>
               handleDownload tr token (only_get loc bb kb blob) (\<lambda>_. False) b k =
                 (Create_Object_URL # try_body (fileName (obj_key ob)) @ [Revoke_Object_URL], [])
           | Show_Meta k \<Rightarrow>
               (\<exists>q. meta_effect b k True ms = Some (ms\<lparr>ms_loading := True\<rparr>, Some q) \<and>
                    gateway_object loc GET q = Some (Get_Object_Meta, bb, kb))
           | Confirm_Call d \<Rightarrow>
               cd_content d = say t (delete_question (obj_key ob)) \<and>
               handleDelete tr b (cd_key d) True (only_delete loc bb kb err) =
                 [Toast_Success (tr (js ''messages.deleted'')), Refresh_Listing]
           | _ \<Rightarrow> False)))"
proof (cases "row_is_prefix r")
  case True
  then show ?thesis
    using event_call_cases [OF assms(4-6)] row_cases [of r] by (auto simp: listed_rows_def)
next
  case False
  let ?k = "row_key r"
  obtain ob where ob: "ob \<in> set (br_objects (li_store li))" "?k = obj_key ob" "row_size r = obj_size ob"
    using event_call_cases(1) [OF assms(4-6)] row_cases [of r] False unfolding listed_rows_def by fastforce
  have key: "?k \<noteq> []" "\<forall>s\<in>set (split_on slash ?k). \<not> dot_name s" "\<forall>s\<in>set (butlast (split_on slash ?k)). s \<noteq> []"
    using assms(3) ob by (auto simp: list_all_iff)
  obtain q where q: "buildMetaPath b ?k = Some q" using other_path [OF assms(7)] by blast
  have routes: "route_of ''objects'' GET = Some Get_Object" "route_of ''objects'' DELETE = Some Delete_Object"
    "route_of ''meta'' GET = Some Get_Object_Meta" by (simp_all add: route_of_def)
  note arrives = request_arrives [OF _ _ assms(1,2) key, where loc = loc]
  obtain bb kb where names: "utf8_bytes b = Some bb" "utf8_bytes ?k = Some kb"
    and get: "gateway_object loc GET p = Some (Get_Object, bb, kb)"
    using arrives [OF routes(1) assms(7) [unfolded buildObjectPath_def]] by blast
  have delete: "gateway_object loc DELETE p = Some (Delete_Object, bb, kb)"
    using arrives [OF routes(2) assms(7) [unfolded buildObjectPath_def]] names by auto
  have meta: "gateway_object loc GET q = Some (Get_Object_Meta, bb, kb)"
    using arrives [OF routes(3) q [unfolded buildMetaPath_def]] names by auto
  have blob: "fetchObjectBlob token (only_get loc bb kb blob) b ?k = Inr blob"
    by (simp add: fetchObjectBlob_def assms(7) only_get_def get response_ok_def)
  have "run_until (\<lambda>_. False) cs = cs" for cs by (induction cs) simp_all
  then have download: "handleDownload tr token (only_get loc bb kb blob) (\<lambda>_. False) b ?k =
      (Create_Object_URL # try_body (fileName ?k) @ [Revoke_Object_URL], [])"
    by (simp add: handleDownload_def downloadObject_def download_rejects_def blob list_ex_iff)
  have "meta_effect b ?k True ms = Some (ms\<lparr>ms_loading := True\<rparr>, Some q)" by (simp add: meta_effect_def q)
  moreover have "handleDelete tr b ?k True (only_delete loc bb kb err) =
      [Toast_Success (tr (js ''messages.deleted'')), Refresh_Listing]"
    by (simp add: handleDelete_def confirm_delete_def Let_def assms(7) only_delete_def delete)
  ultimately show ?thesis
    using event_call_cases(3) [OF assms(4-6) False] False ob names blob download meta
    by (intro conjI impI bexI [of _ ob] exI [of _ bb] exI [of _ kb])
      (auto simp: delete_dialog_def)
qed

theorem row_reaches_its_object_witness:
  "handleDelete id (js ''b'') (js ''a'') True (only_delete id (bytes ''b'') (bytes ''a'') (Axios_Error None)) =
     [Toast_Success (js ''messages.deleted''), Refresh_Listing]"
proof -
  let ?r = "object_row id (sample_object (js ''a''))" and ?li = "sample_listing True" and ?t = "\<lambda>k _. k"
  let ?e = "Click_On ?r (Menu_Entry Delete_Action)"
  have off: "offered lower_ascii id ?li bu_init ?e"
    by (simp add: sample_listing_def offered_def shows_skeleton_def listed_rows_def dataSource_def
        matches_def br_init_def bu_init_def has_part_def rowActions_def object_row_def sample_object_def)
  have row: "event_row ?e = Some ?r" "\<not> row_is_prefix ?r" "row_key ?r = js ''a''"
    by (simp_all add: event_row_def object_row_def sample_object_def)
  have call: "Confirm_Call (delete_dialog ?t (js ''a'')) \<in> set (calls_of ?t ?e)"
    by (simp add: call_defs object_row_def sample_object_def)
  have names: "js ''b'' \<noteq> []" "\<not> dot_name (js ''b'')"
    "list_all (\<lambda>ob. obj_key ob \<noteq> [] \<and> list_all (\<lambda>s. \<not> dot_name s) (split_on slash (obj_key ob)) \<and>
       list_all (\<lambda>s. s \<noteq> []) (butlast (split_on slash (obj_key ob)))) (br_objects (li_store ?li))"
    by (simp_all add: dot_name_def sample_listing_def sample_object_def)
  have "buildObjectPath (js ''b'') (js ''a'') = Some (js ''/api/v1/buckets/b/objects/a'')"
    and utf8: "utf8_bytes (js ''b'') = Some (bytes ''b'')" "utf8_bytes (js ''a'') = Some (bytes ''a'')"
    by code_simp+
  then have path: "buildObjectPath (js ''b'') (row_key ?r) = Some (js ''/api/v1/buckets/b/objects/a'')"
    by (simp only: row(3))
  have listed: "br_objects (li_store ?li) = [sample_object (js ''a'')]" "obj_key (sample_object (js ''a'')) = js ''a''"
    by (simp_all add: sample_listing_def sample_object_def)
  show ?thesis
    using row_reaches_its_object [OF names off row(1) call path, where loc = id and tr = id and
        err = "Axios_Error None"] row(2) utf8
    by (simp add: listed delete_dialog_def del: js_Cons)
qed

text \<open>
  The settings kept in the same storage do not disturb each other: saving a theme leaves the
  width of the sidebar that is loaded, saving a width leaves the theme, and neither writes the
  language that i18next keeps there.
\<close>

theorem settings_independent:
  "loadSiderWidth to_number (saveSelection of_num sel st) = loadSiderWidth to_number st \<and>
   loadSelection to_num (saveSiderWidth w st) = loadSelection to_num st \<and>
   lookupLocalStorage init_options \<notin> {SELECTION_STORAGE_KEY, SIDER_WIDTH_STORAGE_KEY}"
  by (cases st)
     (simp_all add: loadSiderWidth_def saveSelection_def loadSelection_def saveSiderWidth_def init_options_def
       SELECTION_STORAGE_KEY_def SIDER_WIDTH_STORAGE_KEY_def js_words del: js_Cons)

end
